(* ===== verification/Sched_Prelude.thy ===== *)
theory Sched_Prelude
  imports Main "HOL-Library.Word" "HOL-Library.Signed_Division"
begin

text \<open>
  Shared vocabulary of the development: the C integer types of an LP64 kernel
  (\<open>CONFIG_64BIT=y\<close> in \<open>src/backup/config\<close>, so \<open>unsigned long\<close> has 64 bits), the
  conversions between them, and the lemmas about words, lists and options that several
  components use.  The kernel is built with \<open>-fno-strict-overflow\<close>: signed arithmetic
  wraps like unsigned arithmetic, so a C \<open>int\<close>, \<open>long\<close> or \<open>s64\<close> is a word as well, read
  with \<^const>\<open>sint\<close> where its sign matters.
\<close>

type_synonym u32 = "32 word"
type_synonym u64 = "64 word"
type_synonym s32 = "32 word"
type_synonym s64 = "64 word"

text \<open>Lemma collections: facts that turn word operations into operations on naturals
  (\<open>word_to_nat\<close>), and frame facts saying which parts of the scheduler state an
  operation leaves alone (\<open>frame\<close>).\<close>

named_theorems word_to_nat
named_theorems frame

subsection \<open>Signed reading and signed division\<close>

definition s64_neg :: "u64 \<Rightarrow> bool" where
  "s64_neg x = (sint x < 0)"

definition s64_pos :: "u64 \<Rightarrow> bool" where
  "s64_pos x = (0 < sint x)"

text \<open>C's \<open>/\<close> on \<open>int\<close>: truncation towards zero.\<close>

definition s32_div :: "s32 \<Rightarrow> s32 \<Rightarrow> s32" where
  "s32_div a b = word_of_int (sint a sdiv sint b)"

definition s64_div :: "s64 \<Rightarrow> s64 \<Rightarrow> s64" where
  "s64_div a b = word_of_int (sint a sdiv sint b)"

subsection \<open>Words as naturals\<close>

lemma unat_lt_64: "unat (x :: u64) < 18446744073709551616"
  using unsigned_less [of x, where 'a = nat] by simp

lemma unat_lt_32: "unat (x :: u32) < 4294967296"
  using unsigned_less [of x, where 'a = nat] by simp

lemma unat_drop_bit_div [word_to_nat]:
  "unat (drop_bit n (x :: 'a::len word)) = unat x div 2 ^ n"
  by (simp only: unat_drop_bit_eq) (simp add: drop_bit_eq_div)

lemma unat_add_64 [word_to_nat]:
  "unat x + unat y < 18446744073709551616 \<Longrightarrow> unat ((x :: u64) + y) = unat x + unat y"
  by (subst unat_add_lem [symmetric]) simp

lemma unat_mult_64 [word_to_nat]:
  "unat x * unat y < 18446744073709551616 \<Longrightarrow> unat ((x :: u64) * y) = unat x * unat y"
  by (subst unat_mult_lem [symmetric]) simp

lemma unat_add_32 [word_to_nat]:
  "unat x + unat y < 4294967296 \<Longrightarrow> unat ((x :: u32) + y) = unat x + unat y"
  by (subst unat_add_lem [symmetric]) simp

lemma unat_mult_32 [word_to_nat]:
  "unat x * unat y < 4294967296 \<Longrightarrow> unat ((x :: u32) * y) = unat x * unat y"
  by (subst unat_mult_lem [symmetric]) simp

lemma unat_ucast_32_64 [word_to_nat, simp]: "unat (ucast (x :: u32) :: u64) = unat x"
  by transfer (simp add: take_bit_int_def)

lemma unat_ucast_64_32 [word_to_nat]: "unat (ucast (x :: u64) :: u32) = unat x mod 4294967296"
  by (simp add: unsigned_ucast_eq take_bit_eq_mod)

lemma unat_ucast_64_32_small: "unat x < 4294967296 \<Longrightarrow> unat (ucast (x :: u64) :: u32) = unat x"
  by (simp add: unat_ucast_64_32)

lemma unat_sub_64 [word_to_nat]: "y \<le> x \<Longrightarrow> unat ((x :: u64) - y) = unat x - unat y"
  by (simp add: unat_sub)

lemma unat_mod_word [word_to_nat]: "unat (x mod y) = unat (x :: 'a::len word) mod unat y"
  by (rule unat_mod)

lemma unat_div_word [word_to_nat]: "unat (x div y) = unat (x :: 'a::len word) div unat y"
  by (rule unat_div)

subsection \<open>Signed reading of differences\<close>

lemma centre_mod:
  assumes "0 \<le> k" "k < 2 * h"
  shows "(k + h) mod (2 * h) - h = (if k < h then k else k - 2 * (h :: int))"
proof (cases "k < h")
  case True
  with assms show ?thesis by simp
next
  case False
  have "(k + h) mod (2 * h) = (k - h + 2 * h) mod (2 * h)" by (simp add: add.commute)
  also have "\<dots> = (k - h) mod (2 * h)" by (rule mod_add_self2)
  also have "\<dots> = k - h" using assms False by (intro mod_pos_pos_trivial) auto
  finally show ?thesis using False by simp
qed

lemma sint_uint_64:
  "sint (x :: u64) =
     (if uint x < 9223372036854775808 then uint x else uint x - 18446744073709551616)"
  using int_word_sint [of "uint x", where 'a = 64] centre_mod [of "uint x" 9223372036854775808] uint_lt2p [of x]
  by simp

lemma sint_uint_32:
  "sint (x :: u32) =
     (if uint x < 2147483648 then uint x else uint x - 4294967296)"
  using int_word_sint [of "uint x", where 'a = 32] centre_mod [of "uint x" 2147483648] uint_lt2p [of x]
  by simp

lemma numeral_le_unat: "numeral n \<le> unat x \<longleftrightarrow> numeral n \<le> uint (x :: 'a::len word)"
  by (simp only: unat_eq_nat_uint le_nat_iff uint_ge_0 of_nat_numeral)

lemma unat_less_numeral: "unat x < numeral n \<longleftrightarrow> uint (x :: 'a::len word) < numeral n"
  using numeral_le_unat [of n x] by linarith

lemma s64_neg_unat: "s64_neg x \<longleftrightarrow> 9223372036854775808 \<le> unat x"
proof -
  have "uint x < 18446744073709551616" using uint_lt2p [of x] by simp
  then show ?thesis by (simp add: s64_neg_def sint_uint_64 numeral_le_unat)
qed

lemma s64_pos_unat: "s64_pos x \<longleftrightarrow> x \<noteq> 0 \<and> unat x < 9223372036854775808"
proof -
  have "uint x < 18446744073709551616" using uint_lt2p [of x] by simp
  moreover have "0 < uint x \<longleftrightarrow> x \<noteq> 0" using word_neq_0_conv [of x] by (simp add: word_less_alt)
  ultimately show ?thesis by (simp add: s64_pos_def sint_uint_64 unat_less_numeral)
qed

lemma sint_unat_64: "unat (x :: u64) < 9223372036854775808 \<Longrightarrow> sint x = int (unat x)"
  by (simp add: sint_uint_64 unat_less_numeral)

lemma sint_unat_32: "unat (x :: u32) < 2147483648 \<Longrightarrow> sint x = int (unat x)"
  by (simp add: sint_uint_32 unat_less_numeral)

lemma sdiv_nat: "int a sdiv int b = int (a div b)"
  by (cases "a = 0"; cases "b = 0") (simp_all add: signed_divide_int_def zdiv_int)

lemma div_le_mono_both: "a \<le> b \<Longrightarrow> 0 < d \<Longrightarrow> d \<le> c \<Longrightarrow> a div c \<le> b div (d :: nat)"
  using div_le_mono [of a b c] div_le_mono2 [of d c b] by linarith

end
