(* ===== verification/Load_Weight.thy ===== *)
theory Load_Weight
  imports Sched_Prelude
begin

text \<open>
  Load weights (\<open>struct load_weight\<close>): the nice-level tables, the operations that keep the
  cached inverse, and \<open>calc_delta_mine\<close>, which replaces the division \<open>delta * weight / lw\<close>
  by a multiplication with the cached 32-bit inverse.  The lemmas show that the tables hold
  correctly rounded inverses, that every operation keeps the cache coherent, and how far the
  multiplication is from the exact quotient.
\<close>

unbundle bit_operations_syntax

subsection \<open>Data\<close>

record load_weight =
  weight :: u64
  inv_weight :: u64

definition WMULT_CONST :: u64 where
  "WMULT_CONST = push_bit 32 1"

definition WMULT_SHIFT :: nat where
  "WMULT_SHIFT = 32"

definition NICE_0_LOAD :: u64 where
  "NICE_0_LOAD = push_bit 10 1"

definition WEIGHT_IDLEPRIO :: u64 where
  "WEIGHT_IDLEPRIO = 3"

definition WMULT_IDLEPRIO :: u64 where
  "WMULT_IDLEPRIO = 1431655765"

definition MIN_SHARES :: u64 where
  "MIN_SHARES = 2"

definition prio_to_weight :: "u64 list" where
  "prio_to_weight = [
    88761, 71755, 56483, 46273, 36291,
    29154, 23254, 18705, 14949, 11916,
    9548, 7620, 6100, 4904, 3906,
    3121, 2501, 1991, 1586, 1277,
    1024, 820, 655, 526, 423,
    335, 272, 215, 172, 137,
    110, 87, 70, 56, 45,
    36, 29, 23, 18, 15]"

definition prio_to_wmult :: "u64 list" where
  "prio_to_wmult = [
    48388, 59856, 76040, 92818, 118348,
    147320, 184698, 229616, 287308, 360437,
    449829, 563644, 704093, 875809, 1099582,
    1376151, 1717300, 2157191, 2708050, 3363326,
    4194304, 5237765, 6557202, 8165337, 10153587,
    12820798, 15790321, 19976592, 24970740, 31350126,
    39045157, 49367440, 61356676, 76695844, 95443717,
    119304647, 148102320, 186737708, 238609294, 286331153]"

subsection \<open>Operations\<close>

definition update_load_add :: "load_weight \<Rightarrow> u64 \<Rightarrow> load_weight" where
  "update_load_add lw inc = lw\<lparr>weight := weight lw + inc, inv_weight := 0\<rparr>"

definition update_load_sub :: "load_weight \<Rightarrow> u64 \<Rightarrow> load_weight" where
  "update_load_sub lw dec = lw\<lparr>weight := weight lw - dec, inv_weight := 0\<rparr>"

definition update_load_set :: "load_weight \<Rightarrow> u64 \<Rightarrow> load_weight" where
  "update_load_set lw w = lw\<lparr>weight := w, inv_weight := 0\<rparr>"

text \<open>\<open>set_load_weight\<close>: the weight of a task of policy \<open>SCHED_IDLE\<close> or of a static priority.
  A priority outside the tables reads past the arrays, which is the value \<^const>\<open>None\<close>.\<close>

datatype policy = SCHED_NORMAL | SCHED_FIFO | SCHED_RR | SCHED_BATCH | SCHED_IDLE

definition MAX_RT_PRIO :: int where
  "MAX_RT_PRIO = 100"

definition set_load_weight :: "policy \<Rightarrow> int \<Rightarrow> load_weight option" where
  "set_load_weight pol static_prio =
     (let prio = static_prio - MAX_RT_PRIO in
      if pol = SCHED_IDLE then
        Some \<lparr>weight = WEIGHT_IDLEPRIO, inv_weight = WMULT_IDLEPRIO\<rparr>
      else if 0 \<le> prio \<and> prio < 40 then
        Some \<lparr>weight = prio_to_weight ! nat prio, inv_weight = prio_to_wmult ! nat prio\<rparr>
      else None)"

text \<open>Shift right and round.\<close>

definition SRR :: "u64 \<Rightarrow> nat \<Rightarrow> u64" where
  "SRR x y = drop_bit y (x + push_bit (y - 1) 1)"

definition LONG_MAX :: u64 where
  "LONG_MAX = 0x7FFFFFFFFFFFFFFF"

text \<open>The part of \<open>calc_delta_mine\<close> that fills the cached inverse.\<close>

definition fill_inv_weight :: "load_weight \<Rightarrow> load_weight" where
  "fill_inv_weight lw =
     (if inv_weight lw = 0 then
        (let w = weight lw in
         if WMULT_CONST \<le> w then lw\<lparr>inv_weight := 1\<rparr>
         else if w = 0 then lw\<lparr>inv_weight := WMULT_CONST\<rparr>
         else lw\<lparr>inv_weight := WMULT_CONST div w\<rparr>)
      else lw)"

definition calc_delta_mine :: "u64 \<Rightarrow> u64 \<Rightarrow> load_weight \<Rightarrow> u64 \<times> load_weight" where
  "calc_delta_mine delta_exec wgt lw =
     (let tmp = (if 1 < wgt then delta_exec * wgt else delta_exec);
          lw = fill_inv_weight lw;
          tmp = (if WMULT_CONST < tmp
                 then SRR (SRR tmp (WMULT_SHIFT div 2) * inv_weight lw) (WMULT_SHIFT div 2)
                 else SRR (tmp * inv_weight lw) WMULT_SHIFT)
      in (min tmp LONG_MAX, lw))"

subsection \<open>Coherent inverses\<close>

text \<open>A cached inverse is coherent when it is \<open>2^32 / w\<close> rounded down or to the nearest integer;
  an empty queue (\<open>w = 0\<close>) is treated as weight 1.\<close>

definition inverse_ok :: "nat \<Rightarrow> nat \<Rightarrow> bool" where
  "inverse_ok w v =
     (if w = 0 then v = 4294967296
      else 2 * (w * v) \<le> 8589934592 + w \<and> 4294967296 < w * v + w)"

definition lw_wf :: "load_weight \<Rightarrow> bool" where
  "lw_wf lw \<longleftrightarrow> unat (weight lw) < 4294967296 \<and>
     (inv_weight lw = 0 \<or> inverse_ok (unat (weight lw)) (unat (inv_weight lw)))"

lemmas load_ops = update_load_add_def update_load_sub_def update_load_set_def

lemma unat_WMULT_CONST [simp]: "unat WMULT_CONST = 4294967296"
  by (simp add: WMULT_CONST_def)

lemma inverse_ok_div: "0 < w \<Longrightarrow> inverse_ok w (4294967296 div w)"
proof -
  assume w: "0 < w"
  have "4294967296 = w * (4294967296 div w) + 4294967296 mod w" by simp
  moreover have "4294967296 mod w < w" using w by simp
  ultimately have "w * (4294967296 div w) \<le> 4294967296 \<and> 4294967296 < w * (4294967296 div w) + w"
    by linarith
  moreover have "w \<noteq> 0" using w by simp
  ultimately show ?thesis unfolding inverse_ok_def if_not_P [OF \<open>w \<noteq> 0\<close>] by linarith
qed

lemma fill_inv_weight_weight [simp]: "weight (fill_inv_weight lw) = weight lw"
  by (simp add: fill_inv_weight_def Let_def)

lemma fill_inv_weight_wf:
  assumes "lw_wf lw"
  shows "inverse_ok (unat (weight lw)) (unat (inv_weight (fill_inv_weight lw)))"
proof -
  have "\<not> WMULT_CONST \<le> weight lw"
    using assms by (simp add: lw_wf_def word_le_nat_alt)
  then show ?thesis
    using assms inverse_ok_div [of "unat (weight lw)"]
    by (auto simp: fill_inv_weight_def Let_def lw_wf_def unat_div_word unat_gt_0 inverse_ok_def)
qed

lemma inverse_ok_nonzero: "inverse_ok w v \<Longrightarrow> w < 4294967296 \<Longrightarrow> v \<noteq> 0"
  by (rule notI) (simp add: inverse_ok_def split: if_splits)

lemma fill_inv_weight_keeps_wf: "lw_wf lw \<Longrightarrow> lw_wf (fill_inv_weight lw)"
  using fill_inv_weight_wf [of lw] by (simp add: lw_wf_def)

lemma fill_inv_weight_idem: "fill_inv_weight (fill_inv_weight lw) = fill_inv_weight lw"
proof (cases "inv_weight lw = 0 \<and> \<not> WMULT_CONST \<le> weight lw \<and> weight lw \<noteq> 0")
  case True
  have "0 < unat (weight lw)" using True by (simp add: unat_gt_0)
  moreover have "unat (weight lw) \<le> 4294967296" using True by (simp add: word_le_nat_alt)
  ultimately have "0 < unat (WMULT_CONST div weight lw)"
    by (simp add: unat_div_word div_greater_zero_iff)
  then have "WMULT_CONST div weight lw \<noteq> 0" by (metis less_irrefl unat_0)
  with True show ?thesis by (simp add: fill_inv_weight_def Let_def)
next
  case False
  then show ?thesis by (auto simp: fill_inv_weight_def Let_def WMULT_CONST_def)
qed

lemma calc_delta_mine_lw: "snd (calc_delta_mine d w lw) = fill_inv_weight lw"
  by (simp add: calc_delta_mine_def Let_def)

lemma load_ops_wf:
  "unat (weight lw + i) < 4294967296 \<Longrightarrow> lw_wf (update_load_add lw i)"
  "unat (weight lw - i) < 4294967296 \<Longrightarrow> lw_wf (update_load_sub lw i)"
  "unat i < 4294967296 \<Longrightarrow> lw_wf (update_load_set lw i)"
  by (simp_all add: lw_wf_def load_ops)

lemma prio_tables_inverse:
  "list_all2 (\<lambda>w v. inverse_ok (unat w) (unat v)) prio_to_weight prio_to_wmult"
  by (simp add: prio_to_weight_def prio_to_wmult_def inverse_ok_def)

lemma prio_to_weight_range: "list_all (\<lambda>w. 15 \<le> unat w \<and> unat w \<le> 88761) prio_to_weight"
  by (simp add: prio_to_weight_def)

lemma set_load_weight_entry:
  assumes "set_load_weight pol sp = Some lw" "pol \<noteq> SCHED_IDLE"
  obtains i where "i < 40" "weight lw = prio_to_weight ! i" "inv_weight lw = prio_to_wmult ! i"
proof (rule that [of "nat (sp - MAX_RT_PRIO)"])
  show "nat (sp - MAX_RT_PRIO) < 40"
    using assms by (auto simp: set_load_weight_def Let_def split: if_splits)
qed (use assms in \<open>auto simp: set_load_weight_def Let_def split: if_splits\<close>)

lemma set_load_weight_wf:
  assumes "set_load_weight pol sp = Some lw"
  shows "lw_wf lw \<and> 3 \<le> unat (weight lw) \<and> unat (weight lw) \<le> 88761"
proof (cases "pol = SCHED_IDLE")
  case True
  with assms show ?thesis
    by (auto simp: set_load_weight_def lw_wf_def inverse_ok_def WEIGHT_IDLEPRIO_def WMULT_IDLEPRIO_def)
next
  case False
  with assms obtain i where i: "i < 40" "weight lw = prio_to_weight ! i" "inv_weight lw = prio_to_wmult ! i"
    by (rule set_load_weight_entry)
  have len: "length prio_to_weight = 40" by (simp add: prio_to_weight_def)
  have "inverse_ok (unat (weight lw)) (unat (inv_weight lw))"
    using prio_tables_inverse i len by (simp add: list_all2_conv_all_nth)
  moreover have "15 \<le> unat (weight lw) \<and> unat (weight lw) \<le> 88761"
    using prio_to_weight_range i len by (simp add: list_all_length)
  ultimately show ?thesis by (simp add: lw_wf_def)
qed

subsection \<open>Accuracy of the division-free quotient\<close>

lemma div_window: "(a :: nat) div d * d \<le> a" "0 < d \<Longrightarrow> a < a div d * d + d"
  by (simp, metis dividend_less_div_times add.commute)

text \<open>The short path on naturals: one rounding shift by 32.\<close>

lemma short_path_bounds:
  fixes t w v :: nat
  assumes inv: "2 * (w * v) \<le> 8589934592 + w" "4294967296 < w * v + w" and t: "t \<le> 4294967296"
  defines "r \<equiv> (t * v + 2147483648) div 4294967296"
  shows "w * r \<le> t + w" "2 * t \<le> w * (2 * r + 3)"
proof -
  have lo: "r * 4294967296 \<le> t * v + 2147483648"
    and hi: "t * v + 2147483648 < r * 4294967296 + 4294967296"
    unfolding r_def using div_window [of "t * v + 2147483648" 4294967296] by simp_all
  have "w * (r * 4294967296) \<le> w * (t * v + 2147483648)" using lo by (rule mult_left_mono) simp
  moreover have "t * (2 * (w * v)) \<le> t * (8589934592 + w)" using inv(1) by (rule mult_left_mono) simp
  moreover have "t * w \<le> 4294967296 * w" using t by (rule mult_right_mono) simp
  ultimately have "8589934592 * (w * r) \<le> 8589934592 * (t + w)"
    by (simp only: algebra_simps)
  then show "w * r \<le> t + w" by simp
  have "t * 4294967296 \<le> t * (w * v + w)" using inv(2) by (intro mult_left_mono) simp_all
  moreover have "w * (t * v + 2147483648) \<le> w * (r * 4294967296 + 4294967296)"
    using hi by (intro mult_left_mono) simp_all
  ultimately have "4294967296 * (2 * t) \<le> 4294967296 * (w * (2 * r + 3))"
    using \<open>t * w \<le> 4294967296 * w\<close> by (simp only: algebra_simps)
  then show "2 * t \<le> w * (2 * r + 3)" by simp
qed

text \<open>The long path on naturals: two rounding shifts by 16 around the multiplication.\<close>

lemma long_path_bounds:
  fixes t w v :: nat
  assumes inv: "2 * (w * v) \<le> 8589934592 + w" "4294967296 < w * v + w"
  defines "s \<equiv> (t + 32768) div 65536"
  defines "r \<equiv> (s * v + 32768) div 65536"
  shows "8589934592 * (w * r) \<le> (t + 32768) * (8589934592 + w) + 4294967296 * w"
    and "4294967296 * t \<le> 4294967296 * (w * r) + w * (t + 2147516416) + 140737488355328"
proof -
  have s: "s * 65536 \<le> t + 32768" "t + 32768 < s * 65536 + 65536"
    unfolding s_def using div_window [of "t + 32768" 65536] by simp_all
  have r: "r * 65536 \<le> s * v + 32768" "s * v + 32768 < r * 65536 + 65536"
    unfolding r_def using div_window [of "s * v + 32768" 65536] by simp_all
  have "w * (r * 65536) \<le> w * (s * v + 32768)" using r(1) by (rule mult_left_mono) simp
  moreover have "s * (2 * (w * v)) \<le> s * (8589934592 + w)" using inv(1) by (rule mult_left_mono) simp
  moreover have "(s * 65536) * (8589934592 + w) \<le> (t + 32768) * (8589934592 + w)"
    using s(1) by (rule mult_right_mono) simp
  ultimately show "8589934592 * (w * r) \<le> (t + 32768) * (8589934592 + w) + 4294967296 * w"
    by (simp add: algebra_simps)
  have "s * 4294967296 \<le> s * (w * v + w)" using inv(2) by (intro mult_left_mono) simp_all
  moreover have "w * (s * v + 32768) \<le> w * (r * 65536 + 65536)"
    using r(2) by (intro mult_left_mono) simp_all
  moreover have "w * (s * 65536) \<le> w * (t + 32768)" using s(1) by (rule mult_left_mono) simp
  ultimately show "4294967296 * t \<le> 4294967296 * (w * r) + w * (t + 2147516416) + 140737488355328"
    using s(2) by (simp add: algebra_simps)
qed

lemma unat_SRR_16: "unat x + 32768 < 18446744073709551616 \<Longrightarrow> unat (SRR x 16) = (unat x + 32768) div 65536"
  by (simp add: SRR_def word_to_nat)

lemma unat_SRR_32:
  "unat x + 2147483648 < 18446744073709551616 \<Longrightarrow> unat (SRR x 32) = (unat x + 2147483648) div 4294967296"
  by (simp add: SRR_def word_to_nat)

lemma inverse_ok_le: "inverse_ok w v \<Longrightarrow> 2 \<le> w \<Longrightarrow> v \<le> 2147483648"
proof (rule ccontr)
  assume a: "inverse_ok w v" "2 \<le> w" and "\<not> v \<le> 2147483648"
  then have "2147483649 \<le> v" by simp
  then have "w * 2147483649 \<le> w * v" by (rule mult_left_mono) simp
  moreover have "2 * (w * v) \<le> 8589934592 + w" using a by (simp add: inverse_ok_def split: if_splits)
  ultimately have "4294967297 * w \<le> 8589934592" by linarith
  with a(2) show False by linarith
qed

text \<open>The product \<open>tmp\<close> of \<open>calc_delta_mine\<close> as a natural: a weight of 0 counts as 1.\<close>

definition delta_product :: "u64 \<Rightarrow> u64 \<Rightarrow> nat" where
  "delta_product delta wgt = unat delta * max 1 (unat wgt)"

lemma unat_delta_product:
  assumes "delta_product d w < 18446744073709551616"
  shows "unat (if 1 < w then d * w else d) = delta_product d w"
proof (cases "1 < w")
  case True
  then have "1 < unat w" by (simp add: word_less_nat_alt)
  with assms True show ?thesis by (simp add: delta_product_def word_to_nat max_def split: if_splits)
next
  case False
  then have "unat w \<le> 1" by (simp add: word_less_nat_alt)
  with False show ?thesis by (simp add: delta_product_def)
qed

lemma calc_delta_mine_short_value:
  assumes "lw_wf lw" "2 \<le> unat (weight lw)" "delta_product d w \<le> 4294967296"
  shows "unat (fst (calc_delta_mine d w lw)) =
    (delta_product d w * unat (inv_weight (fill_inv_weight lw)) + 2147483648) div 4294967296"
proof -
  let ?v = "inv_weight (fill_inv_weight lw)" and ?t = "if 1 < w then d * w else d"
  have t: "unat ?t = delta_product d w" using assms(3) by (intro unat_delta_product) simp
  have "unat ?v \<le> 2147483648" using fill_inv_weight_wf [OF assms(1)] assms(2) by (rule inverse_ok_le)
  with assms(3) have le: "delta_product d w * unat ?v \<le> 4294967296 * 2147483648" by (rule mult_le_mono)
  then have m: "unat (?t * ?v) = delta_product d w * unat ?v"
    by (subst unat_mult_64) (simp_all add: t)
  with le have s: "unat (SRR (?t * ?v) 32) = (delta_product d w * unat ?v + 2147483648) div 4294967296"
    by (subst unat_SRR_32) simp_all
  have "unat (SRR (?t * ?v) 32) \<le> unat LONG_MAX"
    unfolding s using le by (simp add: LONG_MAX_def)
  moreover have "\<not> WMULT_CONST < ?t"
    using assms(3) by (simp only: word_less_nat_alt [of WMULT_CONST] t unat_WMULT_CONST not_less)
  ultimately show ?thesis
    using s by (simp add: calc_delta_mine_def Let_def WMULT_SHIFT_def min_def word_le_nat_alt)
qed

lemma calc_delta_mine_long_value:
  assumes "lw_wf lw" "2 \<le> unat (weight lw)" "4294967296 < delta_product d w"
    "delta_product d w < 9223372036854775808" "delta_product d w \<le> unat (weight lw) * 70368744177664"
  shows "unat (fst (calc_delta_mine d w lw)) =
    ((delta_product d w + 32768) div 65536 * unat (inv_weight (fill_inv_weight lw)) + 32768) div 65536"
proof -
  let ?v = "inv_weight (fill_inv_weight lw)" and ?t = "if 1 < w then d * w else d"
    and ?W = "unat (weight lw)"
  let ?s = "(delta_product d w + 32768) div 65536"
  have W: "?W < 4294967296" using assms(1) by (simp add: lw_wf_def)
  have inv: "inverse_ok ?W (unat ?v)" using assms(1) by (rule fill_inv_weight_wf)
  have t: "unat ?t = delta_product d w" and s: "unat (SRR ?t 16) = ?s"
    using assms(4) unat_delta_product [of d w] by (simp_all add: unat_SRR_16)
  have "?s \<le> ?W * 1073741824 + 1" using assms(5) by linarith
  then have "?s * unat ?v \<le> (?W * 1073741824 + 1) * unat ?v" by (rule mult_right_mono) simp
  also have "\<dots> = 1073741824 * (?W * unat ?v) + unat ?v" by (simp add: algebra_simps)
  also have "\<dots> < 9223372036854775807"
    using inv inverse_ok_le [OF inv assms(2)] W assms(2) by (simp add: inverse_ok_def split: if_splits)
  finally have le: "?s * unat ?v < 9223372036854775807" .
  then have m: "unat (SRR ?t 16 * ?v) = ?s * unat ?v" by (subst unat_mult_64) (simp_all add: s)
  with le have r: "unat (SRR (SRR ?t 16 * ?v) 16) = (?s * unat ?v + 32768) div 65536"
    by (subst unat_SRR_16) simp_all
  have "unat (SRR (SRR ?t 16 * ?v) 16) \<le> unat LONG_MAX"
    unfolding r using le by (simp add: LONG_MAX_def)
  moreover have "WMULT_CONST < ?t"
    using assms(3) by (simp only: word_less_nat_alt [of WMULT_CONST] t unat_WMULT_CONST)
  ultimately show ?thesis
    using r by (simp add: calc_delta_mine_def Let_def WMULT_SHIFT_def min_def word_le_nat_alt)
qed

lemma fill_inv_weight_bounds:
  assumes "lw_wf lw" "2 \<le> unat (weight lw)"
  shows "2 * (unat (weight lw) * unat (inv_weight (fill_inv_weight lw))) \<le> 8589934592 + unat (weight lw)"
    and "4294967296 < unat (weight lw) * unat (inv_weight (fill_inv_weight lw)) + unat (weight lw)"
  using fill_inv_weight_wf [OF assms(1)] assms(2) by (auto simp: inverse_ok_def split: if_splits)

subsection \<open>Properties\<close>

text \<open>C23. On its short path (product at most \<open>2^32\<close>) \<open>calc_delta_mine\<close> is within 3/2 of the exact
  quotient \<open>delta * weight / lw->weight\<close>, for a coherent cache and a queue weight of at least 2
  (\<open>MIN_SHARES\<close>): \<open>W * r \<le> tmp + W\<close> and \<open>tmp \<le> W * (r + 3/2)\<close>.\<close>

theorem calc_delta_mine_accuracy:
  assumes "lw_wf lw" "MIN_SHARES \<le> weight lw" "delta_product d w \<le> 4294967296"
  shows "unat (weight lw) * unat (fst (calc_delta_mine d w lw)) \<le> delta_product d w + unat (weight lw)
    \<and> 2 * delta_product d w \<le> unat (weight lw) * (2 * unat (fst (calc_delta_mine d w lw)) + 3)"
proof -
  have W: "2 \<le> unat (weight lw)" using assms(2) by (simp add: MIN_SHARES_def word_le_nat_alt)
  show ?thesis
    unfolding calc_delta_mine_short_value [OF assms(1) W assms(3)]
    using short_path_bounds [OF fill_inv_weight_bounds [OF assms(1) W] assms(3)] by simp
qed

theorem calc_delta_mine_accuracy_witness:
  "let lw = \<lparr>weight = 3072, inv_weight = 0\<rparr> in
     lw_wf lw \<and> MIN_SHARES \<le> weight lw \<and> delta_product 1000000 1024 \<le> 4294967296 \<and>
     3072 * unat (fst (calc_delta_mine 1000000 1024 lw)) \<le> 1024000000 + 3072"
  using calc_delta_mine_accuracy [of "\<lparr>weight = 3072, inv_weight = 0\<rparr>" 1000000 1024]
  by (simp add: lw_wf_def MIN_SHARES_def delta_product_def)

text \<open>C24. On its long path (product above \<open>2^32\<close>, below \<open>2^63\<close> and at most \<open>2^46\<close> times the queue weight) no
  intermediate product of \<open>calc_delta_mine\<close> wraps, and the result is within
  \<open>2^15/W + tmp/2^32 + 1\<close> of the exact quotient.\<close>

theorem calc_delta_mine_long_accuracy:
  assumes "lw_wf lw" "MIN_SHARES \<le> weight lw" "4294967296 < delta_product d w"
    "delta_product d w < 9223372036854775808" "delta_product d w \<le> unat (weight lw) * 70368744177664"
  shows "8589934592 * (unat (weight lw) * unat (fst (calc_delta_mine d w lw)))
      \<le> (delta_product d w + 32768) * (8589934592 + unat (weight lw)) + 4294967296 * unat (weight lw)
    \<and> 4294967296 * delta_product d w
      \<le> 4294967296 * (unat (weight lw) * unat (fst (calc_delta_mine d w lw)))
        + unat (weight lw) * (delta_product d w + 2147516416) + 140737488355328"
proof -
  have W: "2 \<le> unat (weight lw)" using assms(2) by (simp add: MIN_SHARES_def word_le_nat_alt)
  show ?thesis
    unfolding calc_delta_mine_long_value [OF assms(1) W assms(3,4,5)]
    using long_path_bounds [OF fill_inv_weight_bounds [OF assms(1) W]] by blast
qed

theorem calc_delta_mine_long_accuracy_witness:
  "let lw = \<lparr>weight = 2048, inv_weight = 0\<rparr> in
     lw_wf lw \<and> MIN_SHARES \<le> weight lw \<and> 4294967296 < delta_product 10000000 1024 \<and>
     8589934592 * (2048 * unat (fst (calc_delta_mine 10000000 1024 lw)))
       \<le> (10240000000 + 32768) * (8589934592 + 2048) + 4294967296 * 2048"
  using calc_delta_mine_long_accuracy [of "\<lparr>weight = 2048, inv_weight = 0\<rparr>" 10000000 1024]
  by (simp add: lw_wf_def MIN_SHARES_def delta_product_def)

text \<open>C25. The cache is write-once: after a call the queue weight is unchanged, the inverse is
  coherent, and any later call sees the same inverse and leaves it alone.\<close>

theorem calc_delta_mine_cache:
  assumes "lw_wf lw"
  shows "let lw' = snd (calc_delta_mine d w lw) in
     weight lw' = weight lw \<and> lw_wf lw' \<and> inv_weight lw' \<noteq> 0 \<and>
     snd (calc_delta_mine d2 w2 lw') = lw' \<and>
     fst (calc_delta_mine d2 w2 lw') = fst (calc_delta_mine d2 w2 lw)"
proof -
  have "inv_weight (fill_inv_weight lw) \<noteq> 0"
    using inverse_ok_nonzero [OF fill_inv_weight_wf [OF assms]] assms
    by (auto simp: lw_wf_def)
  then show ?thesis
    using assms by (simp add: calc_delta_mine_lw fill_inv_weight_keeps_wf fill_inv_weight_idem)
      (simp add: calc_delta_mine_def fill_inv_weight_idem)
qed

theorem calc_delta_mine_cache_witness:
  "lw_wf \<lparr>weight = 3, inv_weight = 0\<rparr> \<and>
   inv_weight (snd (calc_delta_mine 5 1024 \<lparr>weight = 3, inv_weight = 0\<rparr>)) \<noteq> 0"
  using calc_delta_mine_cache [of "\<lparr>weight = 3, inv_weight = 0\<rparr>" 5 1024]
  by (simp add: lw_wf_def Let_def)

text \<open>C26. The nice-level tables agree with their documentation: each \<open>prio_to_wmult\<close> entry is the
  rounded inverse of the \<open>prio_to_weight\<close> entry, so \<open>set_load_weight\<close> always installs a coherent
  weight, and one nice level changes the weight by a factor between 1.20 and 1.28.\<close>

theorem nice_levels_multiplicative:
  "list_all2 (\<lambda>w v. inverse_ok (unat w) (unat v)) prio_to_weight prio_to_wmult \<and>
   list_all2 (\<lambda>hi lo. 120 * unat lo \<le> 100 * unat hi \<and> 100 * unat hi \<le> 128 * unat lo)
     (butlast prio_to_weight) (tl prio_to_weight)"
  using prio_tables_inverse by (simp add: prio_to_weight_def)

end
