(* ===== verification/Pelt.thy ===== *)
theory Pelt
  imports Load_Weight
begin

text \<open>
  Per-entity load tracking, the arithmetic part (\<open>kernel/sched/fair.c\<close>): the decay tables,
  \<open>decay_load\<close>, \<open>__compute_runnable_contrib\<close>, the HMP time scaling and
  \<open>__update_entity_runnable_avg\<close>.

  The geometric series of the code is truncated after every multiplication.  The lemmas give the
  exact value of each routine on naturals, and the invariant \<open>usage \<le> sum \<le> period < 48 * 1024\<close>
  that every update keeps, so that none of the 32-bit accumulators ever wraps.
\<close>

unbundle bit_operations_syntax

subsection \<open>Data\<close>

record sched_avg =
  runnable_avg_sum :: u32
  runnable_avg_period :: u32
  last_runnable_update :: u64
  decay_count :: s64
  load_avg_contrib :: u64
  load_avg_ratio :: u64
  pending_load :: u64
  nr_pending :: u32
  nr_dequeuing_low_prio :: u32
  nr_normal_prio :: u32
  hmp_last_up_migration :: u64
  hmp_last_down_migration :: u64
  usage_avg_sum :: u32

definition LOAD_AVG_PERIOD :: nat where
  "LOAD_AVG_PERIOD = 32"

definition LOAD_AVG_MAX :: u32 where
  "LOAD_AVG_MAX = 47742"

definition LOAD_AVG_MAX_N :: u64 where
  "LOAD_AVG_MAX_N = 345"

definition runnable_avg_yN_inv :: "u32 list" where
  "runnable_avg_yN_inv = [
    0xffffffff, 0xfa83b2da, 0xf5257d14, 0xefe4b99a, 0xeac0c6e6, 0xe5b906e6,
    0xe0ccdeeb, 0xdbfbb796, 0xd744fcc9, 0xd2a81d91, 0xce248c14, 0xc9b9bd85,
    0xc5672a10, 0xc12c4cc9, 0xbd08a39e, 0xb8fbaf46, 0xb504f333, 0xb123f581,
    0xad583ee9, 0xa9a15ab4, 0xa5fed6a9, 0xa2704302, 0x9ef5325f, 0x9b8d39b9,
    0x9837f050, 0x94f4efa8, 0x91c3d373, 0x8ea4398a, 0x8b95c1e3, 0x88980e80,
    0x85aac367, 0x82cd8698]"

definition runnable_avg_yN_sum :: "u32 list" where
  "runnable_avg_yN_sum = [
    0, 1002, 1982, 2941, 3880, 4798, 5697, 6576, 7437, 8279, 9103,
    9909, 10698, 11470, 12226, 12966, 13690, 14398, 15091, 15769, 16433, 17082,
    17718, 18340, 18949, 19545, 20128, 20698, 21256, 21802, 22336, 22859, 23371]"

subsection \<open>Decay\<close>

text \<open>\<open>local_n\<close> is an \<open>unsigned int\<close>: behind the bounds check \<open>n\<close> is cut to 32 bits.\<close>

definition decay_load :: "u64 \<Rightarrow> u64 \<Rightarrow> u64" where
  "decay_load val n =
     (if n = 0 then val
      else if 2016 < n then 0
      else
        (let local_n = unat (ucast n :: u32);
             (val, local_n) =
               (if LOAD_AVG_PERIOD \<le> local_n
                then (drop_bit (local_n div LOAD_AVG_PERIOD) val, local_n mod LOAD_AVG_PERIOD)
                else (val, local_n))
         in drop_bit 32 (val * ucast (runnable_avg_yN_inv ! local_n))))"

text \<open>The loop of \<open>__compute_runnable_contrib\<close>; it is entered with \<open>n > LOAD_AVG_PERIOD\<close>.\<close>

function contrib_loop :: "u32 \<Rightarrow> u64 \<Rightarrow> u32 \<times> u64" where
  "contrib_loop contrib n =
     (if 32 < n then contrib_loop (contrib div 2 + runnable_avg_yN_sum ! LOAD_AVG_PERIOD) (n - 32)
      else (contrib, n))"
  by auto

termination contrib_loop
proof (relation "measure (\<lambda>(c, n). unat n)")
  fix contrib :: u32 and n :: u64
  assume "32 < n"
  then have "(32 :: u64) \<le> n" by simp
  then have "unat (n - 32) = unat n - 32" by (simp add: unat_sub_64)
  with \<open>32 < n\<close> show "((contrib div 2 + runnable_avg_yN_sum ! LOAD_AVG_PERIOD, n - 32), contrib, n) \<in> measure (\<lambda>(c, n). unat n)"
    by (simp add: word_less_nat_alt)
qed simp

declare contrib_loop.simps [simp del]

definition compute_runnable_contrib :: "u64 \<Rightarrow> u32" where
  "compute_runnable_contrib n =
     (if n \<le> 32 then runnable_avg_yN_sum ! unat n
      else if LOAD_AVG_MAX_N \<le> n then LOAD_AVG_MAX
      else
        (let (contrib, n) = contrib_loop 0 n;
             contrib = ucast (decay_load (ucast contrib) n)
         in contrib + runnable_avg_yN_sum ! unat n))"

subsection \<open>Time scaling\<close>

text \<open>\<open>hmp_data.multiplier\<close> is a C \<open>int\<close>; the multiplication sign-extends it to 64 bits.\<close>

definition HMP_VARIABLE_SCALE_SHIFT :: nat where
  "HMP_VARIABLE_SCALE_SHIFT = 16"

definition hmp_variable_scale_convert :: "s32 \<Rightarrow> u64 \<Rightarrow> u64" where
  "hmp_variable_scale_convert multiplier delta =
     (let high = drop_bit 32 delta;
          low = delta AND 0xffffffff;
          low = low * scast multiplier;
          high = high * scast multiplier
      in drop_bit HMP_VARIABLE_SCALE_SHIFT low + push_bit (32 - HMP_VARIABLE_SCALE_SHIFT) high)"

subsection \<open>The runnable average\<close>

text \<open>The three scalings of \<open>__update_entity_runnable_avg\<close>.  The scale is \<^const>\<open>None\<close> in a kernel built
  without \<open>CONFIG_HMP_FREQUENCY_INVARIANT_SCALE\<close>; otherwise it is \<open>curr_scale\<close>.\<close>

definition SCHED_FREQSCALE_SHIFT :: nat where
  "SCHED_FREQSCALE_SHIFT = 10"

definition scale32 :: "u32 option \<Rightarrow> u32 \<Rightarrow> u32" where
  "scale32 curr_scale x =
     (case curr_scale of None \<Rightarrow> x | Some s \<Rightarrow> drop_bit SCHED_FREQSCALE_SHIFT (x * s))"

definition scale64 :: "u32 option \<Rightarrow> u64 \<Rightarrow> u64" where
  "scale64 curr_scale x =
     (case curr_scale of None \<Rightarrow> x | Some s \<Rightarrow> drop_bit SCHED_FREQSCALE_SHIFT (x * ucast s))"

definition accrue :: "bool \<Rightarrow> bool \<Rightarrow> u32 \<Rightarrow> u32 \<Rightarrow> sched_avg \<Rightarrow> sched_avg" where
  "accrue runnable running scaled full sa =
     sa\<lparr>runnable_avg_sum := (if runnable then runnable_avg_sum sa + scaled else runnable_avg_sum sa),
        usage_avg_sum := (if running then usage_avg_sum sa + scaled else usage_avg_sum sa),
        runnable_avg_period := runnable_avg_period sa + full\<rparr>"

definition decay_sums :: "u64 \<Rightarrow> sched_avg \<Rightarrow> sched_avg" where
  "decay_sums n sa =
     sa\<lparr>runnable_avg_sum := ucast (decay_load (ucast (runnable_avg_sum sa)) n),
        runnable_avg_period := ucast (decay_load (ucast (runnable_avg_period sa)) n),
        usage_avg_sum := ucast (decay_load (ucast (usage_avg_sum sa)) n)\<rparr>"

text \<open>The period roll-over: complete the current period, decay everything accumulated so far, and add
  the contribution of the full periods.  Returns the remainder of \<open>delta\<close>.\<close>

definition period_rollover ::
  "u32 option \<Rightarrow> bool \<Rightarrow> bool \<Rightarrow> u64 \<Rightarrow> sched_avg \<Rightarrow> u64 \<times> sched_avg" where
  "period_rollover curr_scale runnable running delta sa =
     (let delta_w = 1024 - runnable_avg_period sa mod 1024;
          sa = accrue runnable running (scale32 curr_scale delta_w) delta_w sa;
          delta = delta - ucast delta_w;
          periods = delta div 1024;
          delta = delta mod 1024;
          sa = decay_sums (periods + 1) sa;
          runnable_contrib = compute_runnable_contrib periods;
          sa = accrue runnable running (scale32 curr_scale runnable_contrib) runnable_contrib sa
      in (delta, sa))"

definition update_entity_runnable_avg ::
  "s32 \<Rightarrow> u32 option \<Rightarrow> u64 \<Rightarrow> sched_avg \<Rightarrow> bool \<Rightarrow> bool \<Rightarrow> bool \<times> sched_avg" where
  "update_entity_runnable_avg multiplier curr_scale now sa runnable running =
     (let delta = hmp_variable_scale_convert multiplier (now - last_runnable_update sa) in
      if s64_neg delta then (False, sa\<lparr>last_runnable_update := now\<rparr>)
      else
        (let delta = drop_bit 10 delta in
         if delta = 0 then (False, sa)
         else
           (let sa = sa\<lparr>last_runnable_update := now\<rparr>;
                delta_w = runnable_avg_period sa mod 1024;
                decayed = (1024 \<le> delta + ucast delta_w);
                (delta, sa) =
                  (if decayed then period_rollover curr_scale runnable running delta sa else (delta, sa));
                sa = accrue runnable running (ucast (scale64 curr_scale delta)) (ucast delta) sa
            in (decayed, sa))))"

subsection \<open>Decay on naturals\<close>

definition yinv :: "nat list" where
  "yinv = [
    0xffffffff, 0xfa83b2da, 0xf5257d14, 0xefe4b99a, 0xeac0c6e6, 0xe5b906e6,
    0xe0ccdeeb, 0xdbfbb796, 0xd744fcc9, 0xd2a81d91, 0xce248c14, 0xc9b9bd85,
    0xc5672a10, 0xc12c4cc9, 0xbd08a39e, 0xb8fbaf46, 0xb504f333, 0xb123f581,
    0xad583ee9, 0xa9a15ab4, 0xa5fed6a9, 0xa2704302, 0x9ef5325f, 0x9b8d39b9,
    0x9837f050, 0x94f4efa8, 0x91c3d373, 0x8ea4398a, 0x8b95c1e3, 0x88980e80,
    0x85aac367, 0x82cd8698]"

definition ysum :: "nat list" where
  "ysum = [
    0, 1002, 1982, 2941, 3880, 4798, 5697, 6576, 7437, 8279, 9103,
    9909, 10698, 11470, 12226, 12966, 13690, 14398, 15091, 15769, 16433, 17082,
    17718, 18340, 18949, 19545, 20128, 20698, 21256, 21802, 22336, 22859, 23371]"

lemma yinv_table: "map unat runnable_avg_yN_inv = yinv"
  by (simp add: runnable_avg_yN_inv_def yinv_def)

lemma ysum_table: "map unat runnable_avg_yN_sum = ysum"
  by (simp add: runnable_avg_yN_sum_def ysum_def)

lemma length_tables [simp]: "length runnable_avg_yN_inv = 32" "length runnable_avg_yN_sum = 33"
  by (simp_all add: runnable_avg_yN_inv_def runnable_avg_yN_sum_def)

lemma length_nat_tables [simp]: "length yinv = 32" "length ysum = 33"
  by (simp_all add: yinv_def ysum_def)

lemma unat_yN_inv: "i < 32 \<Longrightarrow> unat (runnable_avg_yN_inv ! i) = yinv ! i"
  by (simp flip: yinv_table)

lemma unat_yN_sum: "i < 33 \<Longrightarrow> unat (runnable_avg_yN_sum ! i) = ysum ! i"
  by (simp flip: ysum_table)

definition decay_nat :: "nat \<Rightarrow> nat \<Rightarrow> nat" where
  "decay_nat v n =
     (if n = 0 then v else if 2016 < n then 0
      else v div 2 ^ (n div 32) * yinv ! (n mod 32) div 4294967296)"

lemma yinv_lt: "i < 32 \<Longrightarrow> yinv ! i < 4294967296"
  using unat_lt_32 [of "runnable_avg_yN_inv ! i"] by (simp add: unat_yN_inv)

lemma local_n_exact: "\<not> 2016 < n \<Longrightarrow> unat (ucast (n :: u64) :: u32) = unat n"
  by (simp add: unat_ucast_64_32_small word_less_nat_alt)

lemma decay_load_nat:
  assumes "unat v < 4294967296"
  shows "unat (decay_load v n) = decay_nat (unat v) (unat n)"
proof (cases "n = 0 \<or> 2016 < n")
  case True
  then show ?thesis by (auto simp: decay_load_def decay_nat_def word_less_nat_alt unat_eq_0)
next
  case False
  let ?q = "unat n div 32" and ?i = "unat n mod 32"
  have i: "?i < 32" by simp
  have "unat v div 2 ^ ?q \<le> unat v" by (rule div_le_dividend)
  with assms have "unat v div 2 ^ ?q \<le> 4294967295" by linarith
  moreover have "yinv ! ?i \<le> 4294967295" using yinv_lt [OF i] by linarith
  ultimately have "unat v div 2 ^ ?q * yinv ! ?i \<le> 4294967295 * 4294967295" by (rule mult_le_mono)
  then have m: "unat (drop_bit ?q v * ucast (runnable_avg_yN_inv ! ?i)) = unat v div 2 ^ ?q * yinv ! ?i"
    by (subst unat_mult_64) (simp_all add: unat_drop_bit_div unat_yN_inv i)
  have "decay_load v n = drop_bit 32 (drop_bit ?q v * ucast (runnable_avg_yN_inv ! ?i))"
    using False local_n_exact by (simp add: decay_load_def LOAD_AVG_PERIOD_def Let_def)
  then have "unat (decay_load v n) = unat v div 2 ^ ?q * yinv ! ?i div 4294967296"
    by (simp add: unat_drop_bit_div m)
  moreover have "n \<noteq> 0" "unat n \<le> 2016" using False by (simp_all add: word_less_nat_alt)
  ultimately show ?thesis by (simp add: decay_nat_def unat_eq_0)
qed

lemma decay_nat_le: "decay_nat v n \<le> v"
proof -
  have "yinv ! (n mod 32) \<le> 4294967296" using yinv_lt [of "n mod 32"] by simp
  then have "v div 2 ^ (n div 32) * yinv ! (n mod 32) \<le> v * 4294967296"
    by (intro mult_le_mono) simp_all
  then have "v div 2 ^ (n div 32) * yinv ! (n mod 32) div 4294967296 \<le> v"
    using div_le_mono [of _ _ 4294967296] by fastforce
  then show ?thesis by (simp add: decay_nat_def)
qed

lemma decay_nat_mono: "v \<le> w \<Longrightarrow> decay_nat v n \<le> decay_nat w n"
  by (auto simp: decay_nat_def intro!: div_le_mono mult_le_mono)

lemma decay_nat_half: "0 < n \<Longrightarrow> n \<le> 1984 \<Longrightarrow> decay_nat v (n + 32) = decay_nat (v div 2) n"
proof -
  assume "0 < n" "n \<le> 1984"
  moreover have "(n + 32) div 32 = Suc (n div 32)" by simp
  ultimately show ?thesis by (simp add: decay_nat_def div_mult2_eq)
qed

lemma decay_load_le: "unat v < 4294967296 \<Longrightarrow> unat (decay_load v n) \<le> unat v"
  by (simp add: decay_load_nat decay_nat_le)

lemma unat_decay_u32: "unat (ucast (decay_load (ucast (v :: u32)) n) :: u32) = decay_nat (unat v) (unat n)"
proof -
  have "decay_nat (unat v) (unat n) < 4294967296"
    using decay_nat_le [of "unat v" "unat n"] unat_lt_32 [of v] by linarith
  then show ?thesis
    using unat_lt_32 [of v] by (simp add: unat_ucast_64_32_small decay_load_nat)
qed

subsection \<open>Contributions on naturals\<close>

text \<open>The value of the loop variable after \<open>q\<close> iterations.\<close>

fun contrib_acc :: "nat \<Rightarrow> nat" where
  "contrib_acc 0 = 0"
| "contrib_acc (Suc q) = contrib_acc q div 2 + 23371"

lemma contrib_acc_le: "contrib_acc q \<le> 46741"
  by (induction q) simp_all

lemma contrib_loop_closed:
  assumes "unat n = 32 * q + r" "0 < r" "r \<le> 32" "unat c = contrib_acc k"
  shows "\<exists>c' n'. contrib_loop c n = (c', n') \<and> unat c' = contrib_acc (k + q) \<and> unat n' = r"
  using assms
proof (induction q arbitrary: n c k)
  case 0
  then have "\<not> 32 < n" by (simp add: word_less_nat_alt)
  with 0 show ?case by (subst contrib_loop.simps) simp
next
  case (Suc q)
  then have gt: "32 < n" by (simp add: word_less_nat_alt)
  then have "(32 :: u64) \<le> n" by simp
  then have n: "unat (n - 32) = 32 * q + r" using Suc.prems by (simp add: unat_sub_64)
  have "unat (c div 2) \<le> 46741"
    using contrib_acc_le [of k] Suc.prems by (simp add: unat_div_word)
  then have "unat (c div 2 + runnable_avg_yN_sum ! 32) = contrib_acc (Suc k)"
    using Suc.prems by (subst unat_add_32) (simp_all add: unat_yN_sum ysum_def unat_div_word)
  from Suc.IH [OF n Suc.prems(2,3) this] gt show ?case
    by (subst contrib_loop.simps) (simp add: LOAD_AVG_PERIOD_def)
qed

definition contrib_nat :: "nat \<Rightarrow> nat" where
  "contrib_nat n =
     (if n \<le> 32 then ysum ! n else if 345 \<le> n then 47742
      else (let q = (n - 1) div 32; r = n - 32 * q in decay_nat (contrib_acc q) r + ysum ! r))"

lemma ysum_le: "i < 33 \<Longrightarrow> ysum ! i \<le> 23371"
proof -
  assume "i < 33"
  moreover have "list_all (\<lambda>x. x \<le> 23371) ysum" by (simp add: ysum_def)
  moreover have "length ysum = 33" by (simp add: ysum_def)
  ultimately show ?thesis by (simp add: list_all_length)
qed

lemma block_split:
  fixes n :: nat
  assumes "0 < n"
  shows "n = 32 * ((n - 1) div 32) + (n - 32 * ((n - 1) div 32))"
    "0 < n - 32 * ((n - 1) div 32)" "n - 32 * ((n - 1) div 32) \<le> 32"
  using assms div_window [of "n - 1" 32] by linarith+

lemma compute_runnable_contrib_nat: "unat (compute_runnable_contrib n) = contrib_nat (unat n)"
proof (cases "unat n \<le> 32 \<or> 345 \<le> unat n")
  case True
  then show ?thesis
    by (auto simp: compute_runnable_contrib_def contrib_nat_def word_le_nat_alt LOAD_AVG_MAX_N_def
      LOAD_AVG_MAX_def unat_yN_sum)
next
  case False
  let ?q = "(unat n - 1) div 32"
  let ?r = "unat n - 32 * ?q"
  have "0 < unat n" using False by linarith
  note qr = block_split [OF this]
  obtain c n' where l: "contrib_loop 0 n = (c, n')" "unat c = contrib_acc ?q" "unat n' = ?r"
    using contrib_loop_closed [OF qr, of 0 0] by auto
  have "unat (ucast (decay_load (ucast c) n') :: u32) = decay_nat (contrib_acc ?q) ?r"
    using l by (simp only: unat_decay_u32)
  moreover have "decay_nat (contrib_acc ?q) ?r \<le> 46741"
    using decay_nat_le contrib_acc_le le_trans by blast
  moreover have "unat (runnable_avg_yN_sum ! ?r) = ysum ! ?r" "ysum ! ?r \<le> 23371"
    using qr(3) by (simp_all add: unat_yN_sum ysum_le)
  ultimately have "unat (ucast (decay_load (ucast c) n') + runnable_avg_yN_sum ! ?r :: u32)
      = decay_nat (contrib_acc ?q) ?r + ysum ! ?r"
    by (subst unat_add_32) simp_all
  with False l show ?thesis
    by (simp add: compute_runnable_contrib_def contrib_nat_def word_le_nat_alt LOAD_AVG_MAX_N_def Let_def)
qed


text \<open>One step of the period accumulator: the decayed old periods plus the new contribution leave room
  for a partial period below \<open>48 * 1024\<close>.  The series is checked period by period up to
  \<open>LOAD_AVG_MAX_N\<close>.\<close>

definition decay_contrib_ok :: "nat \<Rightarrow> bool" where
  "decay_contrib_ok p \<longleftrightarrow> decay_nat 49152 (p + 1) + contrib_nat p \<le> 48128"

lemma contrib_acc_step: "0 < q \<Longrightarrow> contrib_acc q = contrib_acc (q - 1) div 2 + 23371"
  by (cases q) simp_all

lemma contrib_acc_values:
  "contrib_acc 2 = 35056"
  "contrib_acc 3 = 40899"
  "contrib_acc 4 = 43820"
  "contrib_acc 5 = 45281"
  "contrib_acc 6 = 46011"
  "contrib_acc 7 = 46376"
  "contrib_acc 8 = 46559"
  "contrib_acc 9 = 46650"
  "contrib_acc 10 = 46696"
  by (simp_all add: contrib_acc_step)

lemmas decay_contrib_eval = contrib_acc_values decay_contrib_ok_def decay_nat_def contrib_nat_def yinv_def ysum_def

lemma decay_contrib_0: "list_all decay_contrib_ok [2..<33]"
  by (simp add: decay_contrib_eval)

lemma decay_contrib_1: "list_all decay_contrib_ok [33..<65]"
  by (simp add: decay_contrib_eval)

lemma decay_contrib_2: "list_all decay_contrib_ok [65..<97]"
  by (simp add: decay_contrib_eval)

lemma decay_contrib_3: "list_all decay_contrib_ok [97..<129]"
  by (simp add: decay_contrib_eval)

lemma decay_contrib_4: "list_all decay_contrib_ok [129..<161]"
  by (simp add: decay_contrib_eval)

lemma decay_contrib_5: "list_all decay_contrib_ok [161..<193]"
  by (simp add: decay_contrib_eval)

lemma decay_contrib_6: "list_all decay_contrib_ok [193..<225]"
  by (simp add: decay_contrib_eval)

lemma decay_contrib_7: "list_all decay_contrib_ok [225..<257]"
  by (simp add: decay_contrib_eval)

lemma decay_contrib_8: "list_all decay_contrib_ok [257..<289]"
  by (simp add: decay_contrib_eval)

lemma decay_contrib_9: "list_all decay_contrib_ok [289..<321]"
  by (simp add: decay_contrib_eval)

lemma decay_contrib_10: "list_all decay_contrib_ok [321..<345]"
  by (simp add: decay_contrib_eval)

lemma decay_contrib_far: "345 \<le> p \<Longrightarrow> decay_contrib_ok p"
proof -
  assume p: "345 \<le> p"
  then have "10 \<le> (p + 1) div 32" by (simp add: less_eq_div_iff_mult_less_eq)
  then have "(2 :: nat) ^ 10 \<le> 2 ^ ((p + 1) div 32)" by (rule power_increasing) simp
  then have "(49152 :: nat) div 2 ^ ((p + 1) div 32) \<le> 49152 div 2 ^ 10" by (rule div_le_mono2 [rotated]) simp
  then have "49152 div 2 ^ ((p + 1) div 32) * yinv ! ((p + 1) mod 32) \<le> 48 * 4294967296"
    using yinv_lt [of "(p + 1) mod 32"] by (intro mult_le_mono) simp_all
  then have "49152 div 2 ^ ((p + 1) div 32) * yinv ! ((p + 1) mod 32) div 4294967296 \<le> 48"
    using div_le_mono [of _ _ 4294967296] by fastforce
  then have "decay_nat 49152 (p + 1) \<le> 48" by (simp add: decay_nat_def)
  with p show ?thesis by (simp add: decay_contrib_ok_def contrib_nat_def)
qed

lemma list_all_upt_join:
  "list_all P [a..<b] \<Longrightarrow> list_all P [b..<c] \<Longrightarrow> list_all P [a..<c]"
  by (auto simp: list_all_iff)

lemma decay_contrib_all: "decay_contrib_ok p"
proof -
  note join = list_all_upt_join
  have "list_all decay_contrib_ok [2..<345]"
    by (rule join [OF join [OF join [OF join [OF join [OF join [OF join [OF join [OF join [OF join [OF decay_contrib_0 decay_contrib_1] decay_contrib_2] decay_contrib_3] decay_contrib_4] decay_contrib_5] decay_contrib_6] decay_contrib_7] decay_contrib_8] decay_contrib_9] decay_contrib_10])
  then have "\<forall>k\<in>{2..<345}. decay_contrib_ok k" unfolding list_all_iff set_upt .
  moreover have "decay_contrib_ok 0" "decay_contrib_ok 1" by (simp_all add: decay_contrib_eval)
  moreover have "p = 0 \<or> p = 1 \<or> p \<in> {2..<345} \<or> 345 \<le> p" by auto
  ultimately show ?thesis using decay_contrib_far [of p] by metis
qed

subsection \<open>The accumulator invariant\<close>

definition avg_ord :: "sched_avg \<Rightarrow> bool" where
  "avg_ord sa \<longleftrightarrow> unat (usage_avg_sum sa) \<le> unat (runnable_avg_sum sa) \<and>
     unat (runnable_avg_sum sa) \<le> unat (runnable_avg_period sa)"

definition avg_ok :: "sched_avg \<Rightarrow> bool" where
  "avg_ok sa \<longleftrightarrow> avg_ord sa \<and> unat (runnable_avg_period sa) < 49152"

definition scale_ok :: "u32 option \<Rightarrow> bool" where
  "scale_ok cs \<longleftrightarrow> (case cs of None \<Rightarrow> True | Some s \<Rightarrow> unat s \<le> 1024)"

lemma scale_div_le: "s \<le> 1024 \<Longrightarrow> x * s div 1024 \<le> (x :: nat)"
proof -
  assume "s \<le> 1024"
  then have "x * s \<le> x * 1024" by simp
  then have "x * s div 1024 \<le> x * 1024 div 1024" by (rule div_le_mono)
  then show ?thesis by simp
qed

lemma scale32_le: "scale_ok cs \<Longrightarrow> unat x < 4194304 \<Longrightarrow> unat (scale32 cs x) \<le> unat x"
proof (cases cs)
  case (Some s)
  assume a: "scale_ok cs" "unat x < 4194304"
  then have s: "unat s \<le> 1024" using Some by (simp add: scale_ok_def)
  then have "unat x * unat s \<le> 4194303 * 1024" using a(2) by (intro mult_le_mono) simp_all
  then have "unat (x * s) = unat x * unat s" by (subst unat_mult_32) simp_all
  then show ?thesis
    using Some s by (simp add: scale32_def SCHED_FREQSCALE_SHIFT_def unat_drop_bit_div scale_div_le)
qed (simp add: scale32_def)

lemma scale64_le: "scale_ok cs \<Longrightarrow> unat x < 4194304 \<Longrightarrow> unat (scale64 cs x) \<le> unat x"
proof (cases cs)
  case (Some s)
  assume a: "scale_ok cs" "unat x < 4194304"
  then have s: "unat s \<le> 1024" using Some by (simp add: scale_ok_def)
  then have "unat x * unat s \<le> 4194303 * 1024" using a(2) by (intro mult_le_mono) simp_all
  then have "unat (x * ucast s) = unat x * unat s" by (subst unat_mult_64) simp_all
  then show ?thesis
    using Some s by (simp add: scale64_def SCHED_FREQSCALE_SHIFT_def unat_drop_bit_div scale_div_le)
qed (simp add: scale64_def)

lemma accrue_ord:
  assumes "avg_ord sa" "unat scaled \<le> unat full" "running \<longrightarrow> runnable"
    "unat (runnable_avg_period sa) + unat full < 4294967296"
  shows "avg_ord (accrue runnable running scaled full sa) \<and>
    unat (runnable_avg_period (accrue runnable running scaled full sa)) = unat (runnable_avg_period sa) + unat full"
proof -
  have "unat (runnable_avg_sum sa + scaled) = unat (runnable_avg_sum sa) + unat scaled"
    "unat (usage_avg_sum sa + scaled) = unat (usage_avg_sum sa) + unat scaled"
    "unat (runnable_avg_period sa + full) = unat (runnable_avg_period sa) + unat full"
    using assms by (simp_all add: avg_ord_def unat_add_32)
  then show ?thesis using assms by (auto simp: avg_ord_def accrue_def)
qed

lemma decay_sums_ord:
  assumes "avg_ord sa"
  shows "avg_ord (decay_sums n sa) \<and>
    unat (runnable_avg_period (decay_sums n sa)) = decay_nat (unat (runnable_avg_period sa)) (unat n)"
  using assms by (simp add: avg_ord_def decay_sums_def unat_decay_u32 decay_nat_mono)

lemma next_block: "(p :: nat) < 49152 \<Longrightarrow> p mod 1024 + d \<le> 1024 \<Longrightarrow> p + d \<le> 49152"
proof -
  assume "p < 49152" "p mod 1024 + d \<le> 1024"
  moreover have "p = p div 1024 * 1024 + p mod 1024" by simp
  moreover have "p div 1024 \<le> 47" using \<open>p < 49152\<close> by (simp add: div_le_mono [of p 49151 1024, simplified])
  ultimately show ?thesis by linarith
qed

lemma unat_contrib_le: "contrib_nat n \<le> 48128"
  using decay_contrib_all [of n] by (simp add: decay_contrib_ok_def)

lemma unat_div1024_Suc: "unat ((x :: u64) div 1024 + 1) = unat (x div 1024) + 1"
proof -
  have "unat x div 1024 \<le> 18446744073709551615 div 1024" using unat_lt_64 [of x] by (intro div_le_mono) simp
  then show ?thesis by (subst unat_add_64) (simp_all add: unat_div_word)
qed

lemma unat_rest_of_period: "unat (1024 - (p :: u32) mod 1024) = 1024 - unat p mod 1024"
proof -
  have "unat (p mod 1024) < 1024" by (simp add: unat_mod_word)
  then have "p mod 1024 \<le> 1024" by (simp add: word_le_nat_alt)
  then show ?thesis by (simp add: unat_sub unat_mod_word)
qed

lemma period_rollover_ok:
  assumes "avg_ok sa" "scale_ok cs" "running \<longrightarrow> runnable" "period_rollover cs runnable running delta sa = (d, sa')"
  shows "avg_ord sa' \<and> unat (runnable_avg_period sa') \<le> 48128 \<and> unat d < 1024"
proof -
  let ?p = "runnable_avg_period sa"
  let ?w = "1024 - ?p mod 1024"
  let ?sa1 = "accrue runnable running (scale32 cs ?w) ?w sa"
  let ?n = "(delta - ucast ?w) div 1024"
  let ?sa2 = "decay_sums (?n + 1) ?sa1"
  let ?c = "compute_runnable_contrib ?n"
  have w: "unat ?w = 1024 - unat ?p mod 1024" by (rule unat_rest_of_period)
  have p: "avg_ord sa" "unat ?p < 49152" using assms(1) by (simp_all add: avg_ok_def)
  have "unat ?p + unat ?w \<le> 49152" using next_block [OF p(2), of "unat ?w"] w by simp
  moreover have "unat (scale32 cs ?w) \<le> unat ?w" using scale32_le [OF assms(2), of ?w] w by simp
  ultimately have 1: "avg_ord ?sa1" "unat (runnable_avg_period ?sa1) \<le> 49152"
    using accrue_ord [OF p(1) _ assms(3), of "scale32 cs ?w" ?w] by simp_all
  have n: "unat (?n + 1) = unat ?n + 1" by (rule unat_div1024_Suc)
  have 2: "avg_ord ?sa2" "unat (runnable_avg_period ?sa2) + contrib_nat (unat ?n) \<le> 48128"
    using decay_sums_ord [OF 1(1), of "?n + 1"] decay_contrib_all [of "unat ?n"]
      decay_nat_mono [OF 1(2), of "unat ?n + 1"]
    unfolding n decay_contrib_ok_def by simp_all
  have c: "unat ?c = contrib_nat (unat ?n)" by (rule compute_runnable_contrib_nat)
  moreover have "unat (scale32 cs ?c) \<le> unat ?c"
    using scale32_le [OF assms(2), of ?c] unat_contrib_le [of "unat ?n"] c by simp
  ultimately have 3: "avg_ord (accrue runnable running (scale32 cs ?c) ?c ?sa2)"
      "unat (runnable_avg_period (accrue runnable running (scale32 cs ?c) ?c ?sa2)) \<le> 48128"
    using accrue_ord [OF 2(1) _ assms(3), of "scale32 cs ?c" ?c] 2(2) by simp_all
  moreover have "sa' = accrue runnable running (scale32 cs ?c) ?c ?sa2" "d = (delta - ucast ?w) mod 1024"
    using assms(4) by (simp_all add: period_rollover_def Let_def)
  ultimately show ?thesis by (simp add: unat_mod_word)
qed

lemma tail_accrual_ok:
  assumes "avg_ord sa" "unat (runnable_avg_period sa) + unat d < 49152" "unat d < 1024" "scale_ok cs" "running \<longrightarrow> runnable"
  shows "avg_ok (accrue runnable running (ucast (scale64 cs d)) (ucast d) sa)"
proof -
  have "unat (ucast d :: u32) = unat d" using assms(3) by (simp add: unat_ucast_64_32_small)
  moreover have "unat (ucast (scale64 cs d) :: u32) \<le> unat d"
    using scale64_le [OF assms(4), of d] assms(3) by (simp add: unat_ucast_64_32_small)
  ultimately show ?thesis
    using accrue_ord [OF assms(1) _ assms(5), of "ucast (scale64 cs d)" "ucast d"] assms(2) by (simp add: avg_ok_def)
qed

subsection \<open>Scaling lemmas\<close>

lemma unat_delta_sum:
  "unat (drop_bit 10 (x :: u64) + ucast ((p :: u32) mod 1024)) = unat (drop_bit 10 x) + unat p mod 1024"
proof -
  have "unat x div 1024 \<le> 18446744073709551615 div 1024" using unat_lt_64 [of x] by (intro div_le_mono) simp
  moreover have "unat p mod 1024 < 1024" by simp
  ultimately show ?thesis by (subst unat_add_64) (simp_all add: unat_drop_bit_div unat_mod_word)
qed

lemma scale32_1024: "unat x < 4194304 \<Longrightarrow> scale32 (Some 1024) x = x"
proof -
  assume "unat x < 4194304"
  then have "unat (x * 1024) = unat x * 1024" by (subst unat_mult_32) simp_all
  then have "unat (drop_bit 10 (x * 1024)) = unat x" by (simp add: unat_drop_bit_div)
  then have "drop_bit 10 (x * 1024) = x" by (simp only: word_unat_eq_iff)
  then show ?thesis by (simp add: scale32_def SCHED_FREQSCALE_SHIFT_def)
qed

lemma scale64_1024: "unat x < 4194304 \<Longrightarrow> scale64 (Some 1024) x = x"
proof -
  assume "unat x < 4194304"
  then have "unat (x * 1024) = unat x * 1024" by (subst unat_mult_64) simp_all
  then have "unat (drop_bit 10 (x * 1024)) = unat x" by (simp add: unat_drop_bit_div)
  then have "drop_bit 10 (x * 1024) = x" by (simp only: word_unat_eq_iff)
  then show ?thesis by (simp add: scale64_def SCHED_FREQSCALE_SHIFT_def)
qed

lemma period_rollover_1024:
  "period_rollover (Some 1024) runnable running delta sa = period_rollover None runnable running delta sa"
proof -
  have "scale32 (Some 1024) (1024 - runnable_avg_period sa mod 1024) = 1024 - runnable_avg_period sa mod 1024"
    by (rule scale32_1024) (simp add: unat_rest_of_period)
  moreover have "scale32 (Some 1024) (compute_runnable_contrib n) = compute_runnable_contrib n" for n
    using unat_contrib_le [of "unat n"] by (intro scale32_1024) (simp add: compute_runnable_contrib_nat)
  moreover have "scale32 None x = x" for x by (simp add: scale32_def)
  ultimately show ?thesis by (simp add: period_rollover_def Let_def)
qed

lemma period_rollover_rest: "period_rollover cs runnable running delta sa = (d, sa') \<Longrightarrow> unat d < 1024"
  by (auto simp: period_rollover_def Let_def unat_mod_word)

lemma no_rollover_small:
  "\<not> 1024 \<le> drop_bit 10 (x :: u64) + ucast ((p :: u32) mod 1024) \<Longrightarrow>
   unat p mod 1024 + unat (drop_bit 10 x) < 1024"
  by (simp add: word_le_nat_alt unat_delta_sum)

text \<open>The three ways \<open>__update_entity_runnable_avg\<close> ends.\<close>

lemma update_entity_runnable_avg_cases:
  assumes "update_entity_runnable_avg m cs now sa runnable running = (dec, sa')"
  obtains (backwards) "dec = False" "sa' = sa\<lparr>last_runnable_update := now\<rparr>"
    | (short) "dec = False" "sa' = sa"
    | (same) d where "dec = False" "unat (runnable_avg_period sa) mod 1024 + unat d < 1024"
        "sa' = accrue runnable running (ucast (scale64 cs d)) (ucast d) (sa\<lparr>last_runnable_update := now\<rparr>)"
    | (roll) delta d sa1 where "dec = True"
        "period_rollover cs runnable running delta (sa\<lparr>last_runnable_update := now\<rparr>) = (d, sa1)"
        "sa' = accrue runnable running (ucast (scale64 cs d)) (ucast d) sa1"
proof -
  let ?x = "hmp_variable_scale_convert m (now - last_runnable_update sa)"
  let ?d = "drop_bit 10 ?x" and ?sa = "sa\<lparr>last_runnable_update := now\<rparr>"
  show thesis
  proof (cases "s64_neg ?x \<or> ?d = 0 \<or> \<not> 1024 \<le> ?d + ucast (runnable_avg_period sa mod 1024)")
    case True
    then show thesis
      using assms backwards short same [of ?d] no_rollover_small [of ?x "runnable_avg_period sa"]
      by (auto simp: update_entity_runnable_avg_def Let_def split: if_splits)
  next
    case False
    obtain d sa1 where r: "period_rollover cs runnable running ?d ?sa = (d, sa1)" by fastforce
    with False assms have "dec = True" "sa' = accrue runnable running (ucast (scale64 cs d)) (ucast d) sa1"
      by (auto simp: update_entity_runnable_avg_def Let_def)
    with r roll show thesis by blast
  qed
qed

subsection \<open>Properties\<close>

text \<open>A load average with the given sums, for concrete instances.\<close>

definition sample_avg :: "u32 \<Rightarrow> u32 \<Rightarrow> u32 \<Rightarrow> sched_avg" where
  "sample_avg s p u =
     \<lparr>runnable_avg_sum = s, runnable_avg_period = p, last_runnable_update = 0, decay_count = 0,
      load_avg_contrib = 0, load_avg_ratio = 0, pending_load = 0, nr_pending = 0, nr_dequeuing_low_prio = 0,
      nr_normal_prio = 0, hmp_last_up_migration = 0, hmp_last_down_migration = 0, usage_avg_sum = u\<rparr>"

lemma sample_avg_ok: "avg_ok (sample_avg 1000 2000 10)"
  by (simp add: avg_ok_def avg_ord_def sample_avg_def)

lemma avg_ok_update:
  assumes "avg_ok sa" "scale_ok cs" "running \<longrightarrow> runnable"
  shows "avg_ok (snd (update_entity_runnable_avg m cs now sa runnable running))"
proof -
  obtain dec sa' where u: "update_entity_runnable_avg m cs now sa runnable running = (dec, sa')" by fastforce
  let ?sa = "sa\<lparr>last_runnable_update := now\<rparr>"
  have ok: "avg_ok ?sa" "avg_ord ?sa" using assms(1) by (simp_all add: avg_ok_def avg_ord_def)
  from u have "avg_ok sa'"
  proof (cases rule: update_entity_runnable_avg_cases)
    case (same d)
    have p: "unat (runnable_avg_period sa) < 49152" using assms(1) by (simp add: avg_ok_def)
    have "unat (runnable_avg_period sa) + (unat d + 1) \<le> 49152" by (rule next_block [OF p]) (use same(2) in simp)
    with same ok assms(2,3) show ?thesis by (auto intro!: tail_accrual_ok)
  next
    case (roll delta d sa1)
    from period_rollover_ok [OF ok(1) assms(2,3) roll(2)] roll(3) assms(2,3)
    show ?thesis by (auto intro!: tail_accrual_ok)
  qed (use assms ok in auto)
  with u show ?thesis by simp
qed

text \<open>C14. No accumulator of the load tracking can wrap.  Whatever the elapsed time and the time
  multiplier, an update keeps \<open>usage_avg_sum \<le> runnable_avg_sum \<le> runnable_avg_period < 48 * 1024\<close>, under
  two conditions: the frequency scale is absent or at most 1024, and the entity is runnable whenever
  it is running.\<close>

theorem runnable_avg_invariant:
  assumes "avg_ok sa" "scale_ok cs" "running \<longrightarrow> runnable"
  shows "avg_ok (snd (update_entity_runnable_avg m cs now sa runnable running))"
  using assms by (rule avg_ok_update)

theorem runnable_avg_invariant_witness:
  "avg_ok (sample_avg 1000 2000 10) \<and> scale_ok (Some 600) \<and>
   avg_ok (snd (update_entity_runnable_avg 65536 (Some 600) 5000000 (sample_avg 1000 2000 10) True True))"
  using runnable_avg_invariant [of "sample_avg 1000 2000 10" "Some 600" True True 65536 5000000] sample_avg_ok
  by (simp add: scale_ok_def)

text \<open>C31. Frequency-invariant scaling at full speed is no scaling: with \<open>curr_scale = 1024\<close> the update
  computes exactly what a kernel without \<open>CONFIG_HMP_FREQUENCY_INVARIANT_SCALE\<close> computes.\<close>

theorem full_speed_scale_identity:
  "update_entity_runnable_avg m (Some 1024) now sa runnable running =
   update_entity_runnable_avg m None now sa runnable running"
proof -
  let ?x = "hmp_variable_scale_convert m (now - last_runnable_update sa)"
  let ?sa = "sa\<lparr>last_runnable_update := now\<rparr>" and ?w = "runnable_avg_period sa mod 1024"
  have none: "scale64 None d = d" for d by (simp add: scale64_def)
  show ?thesis
  proof (cases "1024 \<le> drop_bit 10 ?x + ucast ?w")
    case True
    obtain d sa1 where r: "period_rollover None runnable running (drop_bit 10 ?x) ?sa = (d, sa1)" by fastforce
    then have "scale64 (Some 1024) d = d" using period_rollover_rest [OF r] by (intro scale64_1024) simp
    with r True show ?thesis by (simp add: update_entity_runnable_avg_def Let_def period_rollover_1024 none)
  next
    case False
    then have "scale64 (Some 1024) (drop_bit 10 ?x) = drop_bit 10 ?x"
      using no_rollover_small [OF False] by (intro scale64_1024) simp
    with False show ?thesis by (simp add: update_entity_runnable_avg_def Let_def none)
  qed
qed

text \<open>C29. An entity that was always runnable stays at full load: without frequency scaling, if the
  runnable sum equals the period it still does after any update in which the entity is runnable.\<close>

theorem always_runnable_full_load:
  assumes "runnable_avg_sum sa = runnable_avg_period sa"
  shows "let sa' = snd (update_entity_runnable_avg m None now sa True running) in
    runnable_avg_sum sa' = runnable_avg_period sa'"
  using assms
  by (simp add: update_entity_runnable_avg_def period_rollover_def accrue_def decay_sums_def scale32_def
    scale64_def Let_def)

theorem always_runnable_full_load_witness:
  "runnable_avg_sum (sample_avg 2000 2000 10) = runnable_avg_period (sample_avg 2000 2000 10) \<and>
   (let sa' = snd (update_entity_runnable_avg 65536 None 5000000 (sample_avg 2000 2000 10) True False) in
    runnable_avg_sum sa' = runnable_avg_period sa')"
  using always_runnable_full_load [of "sample_avg 2000 2000 10" 65536 5000000 False]
  by (simp add: sample_avg_def)

lemma unat_scast_nonneg: "unat (m :: s32) < 2147483648 \<Longrightarrow> unat (scast m :: u64) = unat m"
proof -
  assume "unat m < 2147483648"
  then have "uint m < 2147483648" by (simp add: unat_less_numeral)
  then have "sint m = uint m" by (simp add: sint_uint_32)
  then have "(word_of_int (sint m) :: u64) = word_of_int (uint m)" by (simp only:)
  then have "(scast m :: u64) = ucast m" unfolding scast_eq ucast_eq .
  then show ?thesis by simp
qed

lemma unat_low_half: "unat ((d :: u64) AND 0xffffffff) = unat d mod 4294967296"
proof -
  have "(0xffffffff :: u64) = mask 32" by (simp add: mask_eq_exp_minus_1)
  then have "d AND 0xffffffff = take_bit 32 d" by (simp add: take_bit_eq_mask)
  then show ?thesis by (simp add: take_bit_eq_mod unat_mod_word)
qed

lemma unat_recombine:
  "unat (drop_bit 16 (a :: u64) + push_bit 16 b) = (unat a div 65536 + unat b * 65536) mod 18446744073709551616"
proof -
  have "unat (push_bit 16 b) = unat b * 65536 mod 18446744073709551616"
    by (simp add: push_bit_eq_mult unat_word_ariths)
  then show ?thesis by (simp add: unat_word_ariths unat_drop_bit_div mod_add_right_eq)
qed

lemma scale_convert_nat:
  assumes "unat multiplier < 2147483648"
  shows "unat (hmp_variable_scale_convert multiplier delta) =
    (unat delta * unat multiplier div 65536) mod 18446744073709551616"
proof -
  let ?m = "unat multiplier" and ?h = "unat delta div 4294967296" and ?l = "unat delta mod 4294967296"
  have h: "?h < 4294967296"
    using unat_lt_64 [of delta] by (simp add: div_less_iff_less_mult)
  have bl: "?l * ?m \<le> 4294967295 * 2147483647" "?h * ?m \<le> 4294967295 * 2147483647"
    using assms h by (intro mult_le_mono; simp)+
  have low: "unat ((delta AND 0xffffffff) * scast multiplier) = ?l * ?m"
    using bl(1) by (subst unat_mult_64) (simp_all add: unat_low_half unat_scast_nonneg assms)
  have high: "unat (drop_bit 32 delta * scast multiplier) = ?h * ?m"
    using bl(2) by (subst unat_mult_64) (simp_all add: unat_drop_bit_div unat_scast_nonneg assms)
  have "unat (hmp_variable_scale_convert multiplier delta)
      = (?l * ?m div 65536 + ?h * ?m * 65536) mod 18446744073709551616"
    by (simp add: hmp_variable_scale_convert_def Let_def HMP_VARIABLE_SCALE_SHIFT_def unat_recombine low high)
  also have "?l * ?m div 65536 + ?h * ?m * 65536 = (?l * ?m + ?h * ?m * 65536 * 65536) div 65536"
    by simp
  also have "?l * ?m + ?h * ?m * 65536 * 65536 = unat delta * ?m"
  proof -
    have "l * m + h * m * 65536 * 65536 = (h * 4294967296 + l) * m" for h l m :: nat by (simp add: algebra_simps)
    then show ?thesis by (simp only: div_mult_mod_eq)
  qed
  finally show ?thesis .
qed

text \<open>C30. The HMP time scaling is exact fixed-point arithmetic: for a non-negative multiplier the
  two-halves computation gives \<open>\<lfloor>delta * multiplier / 2^16\<rfloor>\<close> modulo \<open>2^64\<close>, with no intermediate overflow.\<close>

theorem hmp_variable_scale_convert_exact:
  assumes "unat multiplier < 2147483648"
  shows "unat (hmp_variable_scale_convert multiplier delta) =
    (unat delta * unat multiplier div 65536) mod 18446744073709551616"
  using assms by (rule scale_convert_nat)

theorem hmp_variable_scale_convert_exact_witness:
  "unat (65536 :: s32) < 2147483648 \<and> unat (hmp_variable_scale_convert 65536 123456789012345) = 123456789012345"
  using hmp_variable_scale_convert_exact [of 65536 123456789012345] by simp

lemma yinv_decreasing: "i < 31 \<Longrightarrow> yinv ! Suc i \<le> yinv ! i"
proof -
  assume i: "i < 31"
  have "list_all2 (\<ge>) (butlast yinv) (tl yinv)" by (simp add: yinv_def)
  then show ?thesis using i by (simp add: list_all2_conv_all_nth nth_butlast nth_tl)
qed

lemma yinv_ends: "yinv ! 0 = 4294967295" "yinv ! 31 = 2194507416"
  by (simp_all add: yinv_def)

lemma decay_nat_antimono: "decay_nat v (Suc n) \<le> decay_nat v n"
proof (cases "n = 0 \<or> 2016 \<le> n")
  case True
  then show ?thesis using decay_nat_le [of v "Suc n"] by (auto simp: decay_nat_def)
next
  case False
  let ?q = "n div 32" and ?r = "n mod 32"
  have "v div 2 ^ (Suc n div 32) * yinv ! (Suc n mod 32) \<le> v div 2 ^ ?q * yinv ! ?r"
  proof (cases "?r = 31")
    case True
    then have n: "Suc n div 32 = Suc ?q" "Suc n mod 32 = 0" by (simp_all add: div_Suc mod_Suc)
    have "v div 2 ^ Suc ?q = v div 2 ^ ?q div 2" by (simp only: power_Suc2 div_mult2_eq)
    moreover have "x div 2 * 4294967295 \<le> x * 2194507416" for x :: nat
    proof -
      have "2 * (x div 2) \<le> x" by simp
      then show ?thesis by linarith
    qed
    ultimately show ?thesis using True by (simp only: n yinv_ends)
  next
    case False
    moreover have "?r < 32" by simp
    ultimately have n: "Suc n div 32 = ?q" "Suc n mod 32 = Suc ?r" "?r < 31"
      by (simp_all add: div_Suc mod_Suc)
    then show ?thesis using yinv_decreasing [OF n(3)] by (simp only: n) (rule mult_le_mono2)
  qed
  then show ?thesis using False by (simp add: decay_nat_def div_le_mono)
qed



lemma ysum_step: "n < 32 \<Longrightarrow> ysum ! Suc n = decay_nat (ysum ! n + 1024) 1"
proof -
  assume n: "n < 32"
  have "list_all2 (\<lambda>a b. b = decay_nat (a + 1024) 1) (butlast ysum) (tl ysum)"
    by (simp add: ysum_def decay_nat_def yinv_def)
  then show ?thesis using n by (simp add: list_all2_conv_all_nth nth_butlast nth_tl)
qed

text \<open>The series computed by the loop, against one more period decayed once: within one unit, checked
  block by block.\<close>

definition contrib_step_ok :: "nat \<Rightarrow> bool" where
  "contrib_step_ok n \<longleftrightarrow> contrib_nat (Suc n) \<le> decay_nat (contrib_nat n + 1024) 1 + 1 \<and>
     decay_nat (contrib_nat n + 1024) 1 \<le> contrib_nat (Suc n) + 1 \<and> contrib_nat (Suc n) \<le> 46714"

lemmas contrib_step_eval = contrib_acc_values contrib_step_ok_def decay_nat_def contrib_nat_def yinv_def ysum_def

lemma contrib_step_1: "list_all contrib_step_ok [32..<64]"
  by (simp add: contrib_step_eval)

lemma contrib_step_2: "list_all contrib_step_ok [64..<96]"
  by (simp add: contrib_step_eval)

lemma contrib_step_3: "list_all contrib_step_ok [96..<128]"
  by (simp add: contrib_step_eval)

lemma contrib_step_4: "list_all contrib_step_ok [128..<160]"
  by (simp add: contrib_step_eval)

lemma contrib_step_5: "list_all contrib_step_ok [160..<192]"
  by (simp add: contrib_step_eval)

lemma contrib_step_6: "list_all contrib_step_ok [192..<224]"
  by (simp add: contrib_step_eval)

lemma contrib_step_7: "list_all contrib_step_ok [224..<256]"
  by (simp add: contrib_step_eval)

lemma contrib_step_8: "list_all contrib_step_ok [256..<288]"
  by (simp add: contrib_step_eval)

lemma contrib_step_9: "list_all contrib_step_ok [288..<320]"
  by (simp add: contrib_step_eval)

lemma contrib_step_10: "list_all contrib_step_ok [320..<344]"
  by (simp add: contrib_step_eval)

lemma contrib_step:
  assumes "n < 344"
  shows "contrib_step_ok n"
proof (cases "n < 32")
  case True
  then show ?thesis using ysum_step [of n] ysum_le [of "Suc n"] by (simp add: contrib_step_ok_def contrib_nat_def)
next
  case False
  note steps = contrib_step_1 contrib_step_2 contrib_step_3 contrib_step_4 contrib_step_5 contrib_step_6
    contrib_step_7 contrib_step_8 contrib_step_9 contrib_step_10
  have "\<forall>k\<in>{32..<64} \<union> {64..<96} \<union> {96..<128} \<union> {128..<160} \<union> {160..<192} \<union> {192..<224} \<union> {224..<256} \<union> {256..<288} \<union>
      {288..<320} \<union> {320..<344}. contrib_step_ok k"
    using steps unfolding list_all_iff set_upt by blast
  moreover have "n \<in> {32..<64} \<union> {64..<96} \<union> {96..<128} \<union> {128..<160} \<union> {160..<192} \<union> {192..<224} \<union> {224..<256} \<union>
      {256..<288} \<union> {288..<320} \<union> {320..<344}" using False assms by auto
  ultimately show ?thesis by blast
qed

lemma contrib_nat_below: "n < 345 \<Longrightarrow> contrib_nat n \<le> 46714"
  using contrib_step [of "n - 1"] by (cases n) (simp_all add: contrib_step_ok_def contrib_nat_def ysum_def)

text \<open>C32. \<open>__compute_runnable_contrib\<close> computes the series it abbreviates.  Up to 344 periods the
  contribution of \<open>n + 1\<close> periods is that of \<open>n\<close> with one more full period, decayed once as
  \<open>decay_load\<close> does it: exactly while it is read from the table and within 1 where the loop combines
  half-lives.  From \<open>LOAD_AVG_MAX_N\<close> periods on the contribution is the constant \<open>LOAD_AVG_MAX\<close>, which
  lies 1028, more than a whole period, above every contribution of fewer periods.\<close>

theorem runnable_contrib_recurrence:
  "(n < 344 \<longrightarrow> (let d = unat (decay_load (ucast (compute_runnable_contrib n) + 1024) 1) in
      (n < 32 \<longrightarrow> unat (compute_runnable_contrib (n + 1)) = d) \<and>
      unat (compute_runnable_contrib (n + 1)) \<le> d + 1 \<and> d \<le> unat (compute_runnable_contrib (n + 1)) + 1)) \<and>
    (if n < LOAD_AVG_MAX_N then unat (compute_runnable_contrib n) + 1028 \<le> unat LOAD_AVG_MAX
     else compute_runnable_contrib n = LOAD_AVG_MAX)"
proof (intro conjI impI)
  assume "n < 344"
  then have n: "unat n < 344" by (simp add: word_less_nat_alt)
  then have s: "unat (n + 1) = Suc (unat n)" by (subst unat_add_64) simp_all
  have le: "contrib_nat (unat n) \<le> 46714" using contrib_nat_below n by simp
  have c: "unat (ucast (compute_runnable_contrib n) + 1024 :: u64) = contrib_nat (unat n) + 1024"
    using le by (subst unat_add_64) (simp_all add: compute_runnable_contrib_nat)
  have "unat (decay_load (ucast (compute_runnable_contrib n) + 1024) 1) = decay_nat (contrib_nat (unat n) + 1024) 1"
    using le by (subst decay_load_nat) (simp_all add: c)
  moreover have "n < 32 \<Longrightarrow> contrib_nat (Suc (unat n)) = decay_nat (contrib_nat (unat n) + 1024) 1"
    using ysum_step [of "unat n"] by (simp add: word_less_nat_alt contrib_nat_def)
  ultimately show "let d = unat (decay_load (ucast (compute_runnable_contrib n) + 1024) 1) in
      (n < 32 \<longrightarrow> unat (compute_runnable_contrib (n + 1)) = d) \<and>
      unat (compute_runnable_contrib (n + 1)) \<le> d + 1 \<and> d \<le> unat (compute_runnable_contrib (n + 1)) + 1"
    using contrib_step [OF n] by (simp add: compute_runnable_contrib_nat s contrib_step_ok_def)
next
  show "if n < LOAD_AVG_MAX_N then unat (compute_runnable_contrib n) + 1028 \<le> unat LOAD_AVG_MAX
     else compute_runnable_contrib n = LOAD_AVG_MAX"
  proof (cases "n < LOAD_AVG_MAX_N")
    case True
    then show ?thesis using contrib_nat_below [of "unat n"]
      by (simp add: compute_runnable_contrib_nat LOAD_AVG_MAX_def LOAD_AVG_MAX_N_def word_less_nat_alt)
  next
    case False
    then have "345 \<le> unat n" by (simp add: LOAD_AVG_MAX_N_def word_less_nat_alt not_less)
    then show ?thesis using False compute_runnable_contrib_nat [of n]
      by (simp add: contrib_nat_def LOAD_AVG_MAX_def word_unat_eq_iff)
  qed
qed

theorem runnable_contrib_recurrence_witness:
  "unat (compute_runnable_contrib 101) \<le> unat (decay_load (ucast (compute_runnable_contrib 100) + 1024) 1) + 1"
  using runnable_contrib_recurrence [of 100] by (simp add: Let_def)

text \<open>An entity that waits in a queue for 346 full periods and almost one more (364 ms), from zero.\<close>

lemma long_wait_avg:
  "update_entity_runnable_avg 65536 None 363854848 (sample_avg 0 0 0) True running =
     (True, (sample_avg 48765 48765 (if running then 48765 else 0))\<lparr>last_runnable_update := 363854848\<rparr>)"
proof -
  have c: "hmp_variable_scale_convert 65536 363854848 = 363854848"
    using scale_convert_nat [of 65536 363854848] by (simp add: word_unat_eq_iff)
  have "update_entity_runnable_avg 65536 None 363854848 (sample_avg 0 0 0) True running =
      (True, accrue True running 1023 1023 (accrue True running 47742 47742 (decay_sums 346
        (accrue True running 1024 1024 ((sample_avg 0 0 0)\<lparr>last_runnable_update := 363854848\<rparr>)))))"
    by (simp add: update_entity_runnable_avg_def sample_avg_def c s64_neg_unat Let_def period_rollover_def
      scale32_def scale64_def compute_runnable_contrib_def LOAD_AVG_MAX_N_def LOAD_AVG_MAX_def)
  moreover have "decay_load 1024 346 = 0" "decay_load 0 346 = 0"
    by (simp_all add: decay_load_def LOAD_AVG_PERIOD_def Let_def runnable_avg_yN_inv_def)
  ultimately show ?thesis
    by (simp add: accrue_def decay_sums_def sample_avg_def)
qed

end
