(* ===== verification/Kernel_Rbtree.thy ===== *)
theory Kernel_Rbtree
  imports Sched_Prelude
begin

text \<open>
  The kernel's red-black trees (\<open>lib/rbtree.c\<close>, \<open>include/linux/rbtree_augmented.h\<close>).  A node is
  named by its key (in the scheduler: the entity the node is embedded in).  The pair of a node
  and its chain of parent pointers is a zipper: the subtree at the node, and a list of frames,
  innermost first, one per ancestor.  \<open>LeftOf c p r\<close> is a parent \<open>p\<close> of colour \<open>c\<close> whose left child
  is the current node and whose right child is \<open>r\<close>; \<open>RightOf c l p\<close> is the mirror image.  So the C
  test \<open>parent != gparent->rb_right\<close> is the choice between the two constructors, and following
  \<open>rb_parent\<close> is taking the next frame.  A dereference of \<open>NULL\<close> is the value \<^const>\<open>None\<close>.

  The lemmas show that insertion and erasure never dereference \<open>NULL\<close> on a red-black tree,
  keep the five properties listed at the top of \<open>lib/rbtree.c\<close>, and change the in-order sequence
  exactly as they should, and that \<open>rb_next\<close> and \<open>rb_prev\<close> walk that sequence.
\<close>

subsection \<open>Data\<close>

datatype color = RB_RED | RB_BLACK

datatype 'a rb_node = NIL | Node color "'a rb_node" 'a "'a rb_node"

datatype 'a rb_frame = LeftOf color 'a "'a rb_node" | RightOf color "'a rb_node" 'a

fun rb_color :: "'a rb_node \<Rightarrow> color" where
  "rb_color NIL = RB_BLACK"
| "rb_color (Node c l a r) = c"

fun frame_color :: "'a rb_frame \<Rightarrow> color" where
  "frame_color (LeftOf c p r) = c"
| "frame_color (RightOf c l p) = c"

text \<open>\<open>if (tmp) rb_set_parent_color(tmp, ..., RB_BLACK)\<close>\<close>

fun paint_black :: "'a rb_node \<Rightarrow> 'a rb_node" where
  "paint_black NIL = NIL"
| "paint_black (Node c l a r) = Node RB_BLACK l a r"

text \<open>\<open>__rb_change_child\<close>: the node goes where its parent pointer says, up to the root.\<close>

fun up1 :: "'a rb_node \<Rightarrow> 'a rb_frame \<Rightarrow> 'a rb_node" where
  "up1 n (LeftOf c p r) = Node c n p r"
| "up1 n (RightOf c l p) = Node c l p n"

fun plug :: "'a rb_node \<Rightarrow> 'a rb_frame list \<Rightarrow> 'a rb_node" where
  "plug n [] = n"
| "plug n (f # fs) = plug (up1 n f) fs"

subsection \<open>Insertion\<close>

text \<open>The rotations that end \<open>__rb_insert\<close>, at a parent \<open>f\<close> that is red and a grandparent whose
  other child is black.  Case 2 falls through into case 3.\<close>

fun insert_rotate_left_parent :: "'a rb_node \<Rightarrow> 'a rb_frame \<Rightarrow> color \<Rightarrow> 'a \<Rightarrow> 'a rb_node \<Rightarrow> 'a rb_node option" where
  "insert_rotate_left_parent NIL (RightOf pc pl p) gc g u = None"
| "insert_rotate_left_parent (Node nc nl n nr) (RightOf pc pl p) gc g u =
     Some (Node gc (Node RB_RED pl p (paint_black nl)) n (Node RB_RED (paint_black nr) g u))"
| "insert_rotate_left_parent node (LeftOf pc p pr) gc g u =
     Some (Node gc node p (Node RB_RED (paint_black pr) g u))"

fun insert_rotate_right_parent :: "'a rb_node \<Rightarrow> 'a rb_frame \<Rightarrow> color \<Rightarrow> 'a rb_node \<Rightarrow> 'a \<Rightarrow> 'a rb_node option" where
  "insert_rotate_right_parent NIL (LeftOf pc p pr) gc u g = None"
| "insert_rotate_right_parent (Node nc nl n nr) (LeftOf pc p pr) gc u g =
     Some (Node gc (Node RB_RED u g (paint_black nl)) n (Node RB_RED (paint_black nr) p pr))"
| "insert_rotate_right_parent node (RightOf pc pl p) gc u g =
     Some (Node gc (Node RB_RED u g (paint_black pl)) p node)"

text \<open>The loop of \<open>__rb_insert\<close>.\<close>

fun rb_insert_loop :: "'a rb_node \<Rightarrow> 'a rb_frame list \<Rightarrow> 'a rb_node option" where
  "rb_insert_loop NIL [] = None"
| "rb_insert_loop (Node c l a r) [] = Some (Node RB_BLACK l a r)"
| "rb_insert_loop node [f] =
     (if frame_color f = RB_BLACK then Some (plug node [f]) else None)"
| "rb_insert_loop node (f # LeftOf gc g u # fs) =
     (if frame_color f = RB_BLACK then Some (plug node (f # LeftOf gc g u # fs))
      else if u \<noteq> NIL \<and> rb_color u = RB_RED then
        rb_insert_loop (Node RB_RED (paint_black (up1 node f)) g (paint_black u)) fs
      else map_option (\<lambda>t. plug t fs) (insert_rotate_left_parent node f gc g u))"
| "rb_insert_loop node (f # RightOf gc u g # fs) =
     (if frame_color f = RB_BLACK then Some (plug node (f # RightOf gc u g # fs))
      else if u \<noteq> NIL \<and> rb_color u = RB_RED then
        rb_insert_loop (Node RB_RED (paint_black u) g (paint_black (up1 node f))) fs
      else map_option (\<lambda>t. plug t fs) (insert_rotate_right_parent node f gc u g))"

text \<open>\<open>rb_link_node\<close> hangs a new red leaf on the link that a descent found, and
  \<open>rb_insert_color\<close> rebalances from there.\<close>

definition rb_link_node :: "'a \<Rightarrow> 'a rb_node" where
  "rb_link_node x = Node RB_RED NIL x NIL"

definition rb_insert_color :: "'a rb_node \<Rightarrow> 'a rb_frame list \<Rightarrow> 'a rb_node option" where
  "rb_insert_color node fs = (if rb_color node = RB_RED then rb_insert_loop node fs else None)"

subsection \<open>Erasure\<close>

text \<open>One iteration of \<open>____rb_erase_color\<close> after case 1: the deficient node \<open>n\<close>, its parent, and a
  sibling.  \<open>Up t\<close> asks for another iteration one level up.\<close>

datatype 'a erase_step = Done "'a rb_node" | Up "'a rb_node"

fun erase_step_left :: "'a rb_node \<Rightarrow> color \<Rightarrow> 'a \<Rightarrow> 'a rb_node \<Rightarrow> 'a erase_step option" where
  "erase_step_left n pc p NIL = None"
| "erase_step_left n pc p (Node sc sl s sr) =
     (if rb_color sr = RB_BLACK then
        (case sl of
           Node RB_RED a x b \<Rightarrow> Some (Done (Node pc (Node RB_BLACK n p a) x (Node RB_BLACK (paint_black b) s sr)))
         | _ \<Rightarrow>
           if pc = RB_RED then Some (Done (Node RB_BLACK n p (Node RB_RED sl s sr)))
           else Some (Up (Node pc n p (Node RB_RED sl s sr))))
      else Some (Done (Node pc (Node RB_BLACK n p sl) s (paint_black sr))))"

fun erase_step_right :: "'a rb_node \<Rightarrow> color \<Rightarrow> 'a rb_node \<Rightarrow> 'a \<Rightarrow> 'a erase_step option" where
  "erase_step_right n pc NIL p = None"
| "erase_step_right n pc (Node sc sl s sr) p =
     (if rb_color sl = RB_BLACK then
        (case sr of
           Node RB_RED a x b \<Rightarrow> Some (Done (Node pc (Node RB_BLACK sl s (paint_black a)) x (Node RB_BLACK b p n)))
         | _ \<Rightarrow>
           if pc = RB_RED then Some (Done (Node RB_BLACK (Node RB_RED sl s sr) p n))
           else Some (Up (Node pc (Node RB_RED sl s sr) p n)))
      else Some (Done (Node pc (paint_black sl) s (Node RB_BLACK sr p n))))"

text \<open>The loop of \<open>____rb_erase_color\<close>.  After case 1 the parent is red, so the second branch of
  case 2 cannot ask for another iteration below the rotated sibling
  (\<open>erase_step_red_parent\<close> below).\<close>

definition finish_step :: "'a erase_step option \<Rightarrow> 'a rb_frame list \<Rightarrow> 'a rb_node option" where
  "finish_step st fs = (case st of Some (Done t) \<Rightarrow> Some (plug t fs) | _ \<Rightarrow> None)"

fun rb_erase_color :: "'a rb_node \<Rightarrow> 'a rb_frame list \<Rightarrow> 'a rb_node option" where
  "rb_erase_color n [] = Some n"
| "rb_erase_color n (LeftOf pc p sib # fs) =
     (case sib of
        Node RB_RED NIL s sr \<Rightarrow> None
      | Node RB_RED sl s sr \<Rightarrow> finish_step (erase_step_left n RB_RED p (paint_black sl)) (LeftOf pc s sr # fs)
      | _ \<Rightarrow> (case erase_step_left n pc p sib of
                None \<Rightarrow> None
              | Some (Done t) \<Rightarrow> Some (plug t fs)
              | Some (Up t) \<Rightarrow> rb_erase_color t fs))"
| "rb_erase_color n (RightOf pc sib p # fs) =
     (case sib of
        Node RB_RED sl s NIL \<Rightarrow> None
      | Node RB_RED sl s sr \<Rightarrow> finish_step (erase_step_right n RB_RED (paint_black sr) p) (RightOf pc sl s # fs)
      | _ \<Rightarrow> (case erase_step_right n pc sib p of
                None \<Rightarrow> None
              | Some (Done t) \<Rightarrow> Some (plug t fs)
              | Some (Up t) \<Rightarrow> rb_erase_color t fs))"

text \<open>The descent to the successor in \<open>__rb_erase_augmented\<close>: the leftmost node below a subtree
  with its colour, its right child and its parents up to that subtree.\<close>

fun leftmost :: "'a rb_node \<Rightarrow> 'a rb_frame list \<Rightarrow> (color \<times> 'a \<times> 'a rb_node \<times> 'a rb_frame list) option" where
  "leftmost NIL fs = None"
| "leftmost (Node c NIL a r) fs = Some (c, a, r, fs)"
| "leftmost (Node c l a r) fs = leftmost l (LeftOf c a r # fs)"

text \<open>\<open>rb_erase\<close> at a node: \<open>__rb_erase_augmented\<close> followed by \<open>____rb_erase_color\<close> when it
  returns a parent to rebalance.\<close>

definition rebalance_if :: "bool \<Rightarrow> 'a rb_frame list \<Rightarrow> 'a rb_node option" where
  "rebalance_if black fs = (if black \<and> fs \<noteq> [] then rb_erase_color NIL fs else Some (plug NIL fs))"

fun rb_erase_node :: "'a rb_node \<Rightarrow> 'a rb_frame list \<Rightarrow> 'a rb_node option" where
  "rb_erase_node NIL fs = None"
| "rb_erase_node (Node c NIL a (Node rc rl x rr)) fs = Some (plug (Node c rl x rr) fs)"
| "rb_erase_node (Node c NIL a NIL) fs = rebalance_if (c = RB_BLACK) fs"
| "rb_erase_node (Node c (Node lc ll x lr) a NIL) fs = Some (plug (Node c ll x lr) fs)"
| "rb_erase_node (Node c l a r) fs =
     (case leftmost r [] of
        None \<Rightarrow> None
      | Some (sc, s, child2, below) \<Rightarrow>
          (let path = below @ RightOf c l s # fs in
           if child2 \<noteq> NIL then Some (plug (paint_black child2) path)
           else rebalance_if (sc = RB_BLACK) path))"

text \<open>Following a pointer to the node of a key.\<close>

fun locate :: "'a \<Rightarrow> 'a rb_node \<Rightarrow> 'a rb_frame list \<Rightarrow> ('a rb_node \<times> 'a rb_frame list) option" where
  "locate x NIL fs = None"
| "locate x (Node c l a r) fs =
     (if x = a then Some (Node c l a r, fs)
      else case locate x l (LeftOf c a r # fs) of
             Some z \<Rightarrow> Some z
           | None \<Rightarrow> locate x r (RightOf c l a # fs))"

definition rb_erase :: "'a \<Rightarrow> 'a rb_node \<Rightarrow> 'a rb_node option" where
  "rb_erase x t = (case locate x t [] of None \<Rightarrow> None | Some (n, fs) \<Rightarrow> rb_erase_node n fs)"

subsection \<open>Traversal\<close>

fun rb_first :: "'a rb_node \<Rightarrow> 'a option" where
  "rb_first NIL = None"
| "rb_first (Node c NIL a r) = Some a"
| "rb_first (Node c l a r) = rb_first l"

fun rb_last :: "'a rb_node \<Rightarrow> 'a option" where
  "rb_last NIL = None"
| "rb_last (Node c l a NIL) = Some a"
| "rb_last (Node c l a r) = rb_last r"

fun up_to_left_child :: "'a rb_frame list \<Rightarrow> 'a option" where
  "up_to_left_child [] = None"
| "up_to_left_child (RightOf c l p # fs) = up_to_left_child fs"
| "up_to_left_child (LeftOf c p r # fs) = Some p"

fun up_to_right_child :: "'a rb_frame list \<Rightarrow> 'a option" where
  "up_to_right_child [] = None"
| "up_to_right_child (LeftOf c p r # fs) = up_to_right_child fs"
| "up_to_right_child (RightOf c l p # fs) = Some p"

fun rb_next_node :: "'a rb_node \<Rightarrow> 'a rb_frame list \<Rightarrow> 'a option" where
  "rb_next_node NIL fs = None"
| "rb_next_node (Node c l a r) fs = (if r \<noteq> NIL then rb_first r else up_to_left_child fs)"

fun rb_prev_node :: "'a rb_node \<Rightarrow> 'a rb_frame list \<Rightarrow> 'a option" where
  "rb_prev_node NIL fs = None"
| "rb_prev_node (Node c l a r) fs = (if l \<noteq> NIL then rb_last l else up_to_right_child fs)"

text \<open>\<open>rb_next\<close>, \<open>rb_prev\<close>: a key that is not in the tree is an empty node
  (\<open>RB_EMPTY_NODE\<close>), for which both return \<open>NULL\<close>.\<close>

definition rb_next :: "'a \<Rightarrow> 'a rb_node \<Rightarrow> 'a option" where
  "rb_next x t = (case locate x t [] of None \<Rightarrow> None | Some (n, fs) \<Rightarrow> rb_next_node n fs)"

definition rb_prev :: "'a \<Rightarrow> 'a rb_node \<Rightarrow> 'a option" where
  "rb_prev x t = (case locate x t [] of None \<Rightarrow> None | Some (n, fs) \<Rightarrow> rb_prev_node n fs)"

fun replace_at :: "'a \<Rightarrow> 'a rb_node \<Rightarrow> 'a rb_frame list \<Rightarrow> 'a rb_node option" where
  "replace_at new NIL fs = None"
| "replace_at new (Node c l a r) fs = Some (plug (Node c l new r) fs)"

definition rb_replace_node :: "'a \<Rightarrow> 'a \<Rightarrow> 'a rb_node \<Rightarrow> 'a rb_node option" where
  "rb_replace_node victim new t =
     (case locate victim t [] of None \<Rightarrow> None | Some (n, fs) \<Rightarrow> replace_at new n fs)"

subsection \<open>In-order sequence\<close>

fun inorder :: "'a rb_node \<Rightarrow> 'a list" where
  "inorder NIL = []"
| "inorder (Node c l a r) = inorder l @ a # inorder r"

fun before :: "'a rb_frame list \<Rightarrow> 'a list" where
  "before [] = []"
| "before (LeftOf c p r # fs) = before fs"
| "before (RightOf c l p # fs) = before fs @ inorder l @ [p]"

fun after :: "'a rb_frame list \<Rightarrow> 'a list" where
  "after [] = []"
| "after (LeftOf c p r # fs) = p # inorder r @ after fs"
| "after (RightOf c l p # fs) = after fs"

lemma inorder_plug [simp]: "inorder (plug n fs) = before fs @ inorder n @ after fs"
  by (induction fs arbitrary: n rule: before.induct) simp_all

lemma inorder_paint_black [simp]: "inorder (paint_black t) = inorder t"
  by (cases t) simp_all

lemma before_append [simp]: "before (fs @ gs) = before gs @ before fs"
  by (induction fs rule: before.induct) simp_all

lemma after_append [simp]: "after (fs @ gs) = after fs @ after gs"
  by (induction fs rule: after.induct) simp_all

lemma inorder_up1: "inorder (up1 n f) = before [f] @ inorder n @ after [f]"
  by (cases f) simp_all

lemma inorder_insert_rotate_left:
  "insert_rotate_left_parent n f gc g u = Some t \<Longrightarrow> inorder t = before [f] @ inorder n @ after [f] @ g # inorder u"
  by (induction n f gc g u rule: insert_rotate_left_parent.induct) auto

lemma inorder_insert_rotate_right:
  "insert_rotate_right_parent n f gc u g = Some t \<Longrightarrow> inorder t = inorder u @ g # before [f] @ inorder n @ after [f]"
  by (induction n f gc u g rule: insert_rotate_right_parent.induct) auto

lemma frame_before_after: "before (f # fs) = before fs @ before [f]" "after (f # fs) = after [f] @ after fs"
  by (cases f; simp)+

lemma inorder_insert_loop:
  "rb_insert_loop n fs = Some t \<Longrightarrow> inorder t = before fs @ inorder n @ after fs"
  by (induction n fs arbitrary: t rule: rb_insert_loop.induct)
    (auto simp: inorder_up1 frame_before_after [of f "_ # _" for f] dest!: inorder_insert_rotate_left inorder_insert_rotate_right split: if_splits)

lemma inorder_erase_step:
  "erase_step_left n pc p s = Some st \<Longrightarrow>
     (case st of Done t \<Rightarrow> inorder t | Up t \<Rightarrow> inorder t) = inorder n @ p # inorder s"
  "erase_step_right n pc s p = Some st \<Longrightarrow>
     (case st of Done t \<Rightarrow> inorder t | Up t \<Rightarrow> inorder t) = inorder s @ p # inorder n"
  by (cases s; auto split: if_splits rb_node.splits color.splits)+

declare erase_step_left.simps [simp del] erase_step_right.simps [simp del]

lemma rb_erase_color_left:
  assumes "rb_erase_color n (LeftOf pc p sib # fs) = Some t"
  obtains (red) sl s sr u where "sib = Node RB_RED sl s sr" "t = plug u (LeftOf pc s sr # fs)"
      "erase_step_left n RB_RED p (paint_black sl) = Some (Done u)"
    | (stop) u where "erase_step_left n pc p sib = Some (Done u)" "t = plug u fs"
    | (up) u where "erase_step_left n pc p sib = Some (Up u)" "rb_erase_color u fs = Some t"
  using assms
  by (auto simp: finish_step_def split: rb_node.splits color.splits erase_step.splits option.splits)

lemma rb_erase_color_right:
  assumes "rb_erase_color n (RightOf pc sib p # fs) = Some t"
  obtains (red) sl s sr u where "sib = Node RB_RED sl s sr" "t = plug u (RightOf pc sl s # fs)"
      "erase_step_right n RB_RED (paint_black sr) p = Some (Done u)"
    | (stop) u where "erase_step_right n pc sib p = Some (Done u)" "t = plug u fs"
    | (up) u where "erase_step_right n pc sib p = Some (Up u)" "rb_erase_color u fs = Some t"
  using assms
  by (auto simp: finish_step_def split: rb_node.splits color.splits erase_step.splits option.splits)

lemma inorder_erase_color:
  "rb_erase_color n fs = Some t \<Longrightarrow> inorder t = before fs @ inorder n @ after fs"
proof (induction fs arbitrary: n)
  case (Cons f fs)
  show ?case
  proof (cases f)
    case (LeftOf pc p sib)
    with Cons.prems have "rb_erase_color n (LeftOf pc p sib # fs) = Some t" by simp
    then show ?thesis
      using LeftOf by (cases rule: rb_erase_color_left) (auto dest!: inorder_erase_step Cons.IH)
  next
    case (RightOf pc sib p)
    with Cons.prems have "rb_erase_color n (RightOf pc sib p # fs) = Some t" by simp
    then show ?thesis
      using RightOf by (cases rule: rb_erase_color_right) (auto dest!: inorder_erase_step Cons.IH)
  qed
qed simp

lemma leftmost_inorder:
  "leftmost t fs = Some (c, a, r, fs') \<Longrightarrow>
     \<exists>gs. fs' = gs @ fs \<and> before gs = [] \<and> inorder t = a # inorder r @ after gs"
  by (induction t fs rule: leftmost.induct) (fastforce simp: append_eq_append_conv2)+

lemma leftmost_total: "t \<noteq> NIL \<Longrightarrow> \<exists>z. leftmost t fs = Some z"
  by (induction t fs rule: leftmost.induct) auto

lemma inorder_rebalance_if: "rebalance_if b fs = Some t \<Longrightarrow> inorder t = before fs @ after fs"
  by (auto simp: rebalance_if_def dest: inorder_erase_color split: if_splits)

lemma inorder_erase_node:
  assumes "rb_erase_node (Node c l a r) fs = Some t"
  shows "inorder t = before fs @ inorder l @ inorder r @ after fs"
  using assms
  by (cases l; cases r)
    (auto simp: Let_def dest!: inorder_rebalance_if leftmost_inorder split: option.splits if_splits)

lemma locate_plug: "locate x t fs = Some (n, gs) \<Longrightarrow> plug n gs = plug t fs \<and> (\<exists>c l r. n = Node c l x r)"
  by (induction t arbitrary: fs) (fastforce split: if_splits option.splits)+

lemma locate_None: "locate x t fs = None \<longleftrightarrow> x \<notin> set (inorder t)"
  by (induction t arbitrary: fs) (simp_all split: option.split, metis option.distinct(1))

lemma locate_inorder:
  assumes "locate x t [] = Some (n, fs)"
  obtains c l r where "n = Node c l x r" "inorder t = before fs @ inorder l @ x # inorder r @ after fs"
proof -
  obtain c l r where n: "n = Node c l x r" and p: "plug n fs = t" using locate_plug [OF assms] by auto
  have "inorder t = inorder (plug n fs)" by (simp add: p)
  with n that show thesis by simp
qed

lemma locate_Some: "x \<in> set (inorder t) \<Longrightarrow> \<exists>n fs. locate x t [] = Some (n, fs)"
  using locate_None [of x t "[]"] by (cases "locate x t []") auto

lemma inorder_rb_erase:
  assumes "rb_erase x t = Some t'" "distinct (inorder t)"
  shows "inorder t' = remove1 x (inorder t)"
proof -
  obtain n fs where l: "locate x t [] = Some (n, fs)" and e: "rb_erase_node n fs = Some t'"
    using assms(1) by (auto simp: rb_erase_def split: option.splits)
  obtain c l r where n: "n = Node c l x r" "inorder t = before fs @ inorder l @ x # inorder r @ after fs"
    using l by (rule locate_inorder)
  then have "inorder t' = before fs @ inorder l @ inorder r @ after fs"
    using inorder_erase_node [of c l x r fs t'] e by simp
  with n assms(2) show ?thesis by (auto simp: remove1_append)
qed

subsection \<open>The red-black properties\<close>

fun bh :: "'a rb_node \<Rightarrow> nat" where
  "bh NIL = 0"
| "bh (Node c l a r) = (if c = RB_BLACK then Suc (bh l) else bh l)"

fun invh :: "'a rb_node \<Rightarrow> bool" where
  "invh NIL = True"
| "invh (Node c l a r) \<longleftrightarrow> invh l \<and> invh r \<and> bh l = bh r"

fun invc :: "'a rb_node \<Rightarrow> bool" where
  "invc NIL = True"
| "invc (Node c l a r) \<longleftrightarrow>
     invc l \<and> invc r \<and> (c = RB_RED \<longrightarrow> rb_color l = RB_BLACK \<and> rb_color r = RB_BLACK)"

definition rbt :: "'a rb_node \<Rightarrow> bool" where
  "rbt t \<longleftrightarrow> invc t \<and> invh t \<and> rb_color t = RB_BLACK"

text \<open>The same properties of the surroundings of a node: \<open>path_h h fs\<close> when the hole fits a tree of
  black height \<open>h\<close>, \<open>path_c c fs\<close> when it fits a node of colour \<open>c\<close>.\<close>

fun path_h :: "nat \<Rightarrow> 'a rb_frame list \<Rightarrow> bool" where
  "path_h h [] = True"
| "path_h h (LeftOf c p r # fs) \<longleftrightarrow> invh r \<and> bh r = h \<and> path_h (if c = RB_BLACK then Suc h else h) fs"
| "path_h h (RightOf c l p # fs) \<longleftrightarrow> invh l \<and> bh l = h \<and> path_h (if c = RB_BLACK then Suc h else h) fs"

fun path_c :: "color \<Rightarrow> 'a rb_frame list \<Rightarrow> bool" where
  "path_c b [] \<longleftrightarrow> b = RB_BLACK"
| "path_c b (LeftOf c p r # fs) \<longleftrightarrow>
     (c = RB_RED \<longrightarrow> b = RB_BLACK \<and> rb_color r = RB_BLACK) \<and> invc r \<and> path_c c fs"
| "path_c b (RightOf c l p # fs) \<longleftrightarrow>
     (c = RB_RED \<longrightarrow> b = RB_BLACK \<and> rb_color l = RB_BLACK) \<and> invc l \<and> path_c c fs"

lemma invh_plug: "invh (plug t fs) \<longleftrightarrow> invh t \<and> path_h (bh t) fs"
proof (induction fs arbitrary: t rule: before.induct)
  case (2 c p r fs)
  then show ?case by (cases "bh t = bh r") simp_all
next
  case (3 c l p fs)
  then show ?case by (cases "bh l = bh t") (simp_all, blast)
qed simp

lemma invc_plug: "invc (plug t fs) \<and> rb_color (plug t fs) = RB_BLACK \<longleftrightarrow> invc t \<and> path_c (rb_color t) fs"
  by (induction fs arbitrary: t rule: before.induct) auto

lemma rbt_plug: "rbt (plug t fs) \<longleftrightarrow> invc t \<and> invh t \<and> path_c (rb_color t) fs \<and> path_h (bh t) fs"
  using invh_plug [of t fs] invc_plug [of t fs] by (auto simp: rbt_def)

lemma color_not [simp]: "c \<noteq> RB_RED \<longleftrightarrow> c = RB_BLACK" "c \<noteq> RB_BLACK \<longleftrightarrow> c = RB_RED"
  by (cases c; simp)+

lemma path_c_weaken: "path_c c fs \<Longrightarrow> path_c RB_BLACK fs"
  by (cases "(c, fs)" rule: path_c.cases) auto

lemma invc_paint_black [simp]: "invc t \<Longrightarrow> invc (paint_black t)"
  by (cases t) auto

lemma invh_paint_black [simp]: "invh (paint_black t) = invh t"
  by (cases t) auto

lemma rb_color_paint_black [simp]: "rb_color (paint_black t) = RB_BLACK"
  by (cases t) auto

lemma paint_black_id [simp]: "rb_color t = RB_BLACK \<Longrightarrow> paint_black t = t"
  by (cases t) auto

lemma bh_paint_black: "bh (paint_black t) = (if rb_color t = RB_RED then Suc (bh t) else bh t)"
  by (cases t) auto

lemma up1_red:
  "frame_color f = RB_RED \<Longrightarrow> path_c RB_BLACK (f # fs) \<Longrightarrow> path_h (bh n) (f # fs) \<Longrightarrow> invc n \<Longrightarrow> invh n \<Longrightarrow>
   invc (paint_black (up1 n f)) \<and> invh (up1 n f) \<and> bh (up1 n f) = bh n \<and> rb_color (up1 n f) = RB_RED
   \<and> path_c RB_RED fs \<and> path_h (bh n) fs"
  by (cases f) auto

lemma rotate_left_parent_ok:
  assumes "frame_color f = RB_RED" "path_c RB_BLACK [f, LeftOf RB_BLACK g u]" "path_h (bh n) [f, LeftOf RB_BLACK g u]"
    "invc n" "invh n" "rb_color n = RB_RED" "rb_color u = RB_BLACK"
  shows "\<exists>t. insert_rotate_left_parent n f RB_BLACK g u = Some t \<and> invc t \<and> invh t \<and> rb_color t = RB_BLACK \<and> bh t = Suc (bh n)"
  using assms by (cases f; cases n) auto

lemma rotate_right_parent_ok:
  assumes "frame_color f = RB_RED" "path_c RB_BLACK [f, RightOf RB_BLACK u g]" "path_h (bh n) [f, RightOf RB_BLACK u g]"
    "invc n" "invh n" "rb_color n = RB_RED" "rb_color u = RB_BLACK"
  shows "\<exists>t. insert_rotate_right_parent n f RB_BLACK u g = Some t \<and> invc t \<and> invh t \<and> rb_color t = RB_BLACK \<and> bh t = Suc (bh n)"
  using assms by (cases f; cases n) auto

lemma black_parent_ok:
  assumes "frame_color f = RB_BLACK" "path_c RB_BLACK (f # fs)" "path_h (bh n) (f # fs)" "invc n" "invh n"
  shows "rbt (plug n (f # fs))"
  using assms unfolding rbt_plug by (cases f) auto

lemma rbt_insert_loop:
  assumes "invc n" "invh n" "rb_color n = RB_RED" "path_c RB_BLACK fs" "path_h (bh n) fs"
  shows "\<exists>t. rb_insert_loop n fs = Some t \<and> rbt t"
  using assms
proof (induction n fs rule: rb_insert_loop.induct)
  case (3 node f)
  then have "frame_color f = RB_BLACK" by (cases f) auto
  with 3 show ?case using black_parent_ok [of f "[]" node] by simp
next
  case (4 node f gc g u fs)
  show ?case
  proof (cases "frame_color f = RB_BLACK")
    case True
    with 4 show ?thesis using black_parent_ok [of f "LeftOf gc g u # fs" node] by simp
  next
    case False
    then have red: "frame_color f = RB_RED" by simp
    note up = up1_red [OF red 4(5,6,2,3)]
    then have gc: "gc = RB_BLACK" by auto
    show ?thesis
    proof (cases "rb_color u = RB_RED")
      case True
      then have "u \<noteq> NIL" by auto
      with True red up gc 4 show ?thesis by (auto simp: bh_paint_black dest: path_c_weaken)
    next
      case False
      then have u: "rb_color u = RB_BLACK" by simp
      obtain t where t: "insert_rotate_left_parent node f gc g u = Some t" "invc t" "invh t"
        "rb_color t = RB_BLACK" "bh t = Suc (bh node)"
        using rotate_left_parent_ok [OF red _ _ 4(2,3,4) u] 4(5,6) gc by (cases f) auto
      with u red up gc show ?thesis by (auto simp: rbt_plug)
    qed
  qed
next
  case (5 node f gc u g fs)
  show ?case
  proof (cases "frame_color f = RB_BLACK")
    case True
    with 5 show ?thesis using black_parent_ok [of f "RightOf gc u g # fs" node] by simp
  next
    case False
    then have red: "frame_color f = RB_RED" by simp
    note up = up1_red [OF red 5(5,6,2,3)]
    then have gc: "gc = RB_BLACK" by auto
    show ?thesis
    proof (cases "rb_color u = RB_RED")
      case True
      then have "u \<noteq> NIL" by auto
      with True red up gc 5 show ?thesis by (auto simp: bh_paint_black dest: path_c_weaken)
    next
      case False
      then have u: "rb_color u = RB_BLACK" by simp
      obtain t where t: "insert_rotate_right_parent node f gc u g = Some t" "invc t" "invh t"
        "rb_color t = RB_BLACK" "bh t = Suc (bh node)"
        using rotate_right_parent_ok [OF red _ _ 5(2,3,4) u] 5(5,6) gc by (cases f) auto
      with u red up gc show ?thesis by (auto simp: rbt_plug)
    qed
  qed
qed (auto simp: rbt_def)

text \<open>What one step of the erasure loop delivers: the subtree at the parent's place, with the
  parent's black height restored (\<open>Done\<close>), or still one short below a black parent (\<open>Up\<close>).\<close>

definition step_ok :: "nat \<Rightarrow> color \<Rightarrow> 'a erase_step \<Rightarrow> bool" where
  "step_ok h pc st =
     (case st of
        Done t \<Rightarrow> invc t \<and> invh t \<and> bh t = (if pc = RB_BLACK then Suc (Suc h) else Suc h)
                  \<and> (rb_color t = pc \<or> rb_color t = RB_BLACK)
      | Up t \<Rightarrow> pc = RB_BLACK \<and> invc t \<and> invh t \<and> bh t = Suc h \<and> rb_color t = RB_BLACK)"

lemma erase_step_left_ok:
  assumes "invc n" "invh n" "rb_color n = RB_BLACK"
    "invc s" "invh s" "rb_color s = RB_BLACK" "bh s = Suc (bh n)"
  shows "\<exists>st. erase_step_left n pc p s = Some st \<and> step_ok (bh n) pc st"
  using assms
  by (cases s) (auto simp: erase_step_left.simps step_ok_def bh_paint_black split: rb_node.splits color.splits)

lemma erase_step_right_ok:
  assumes "invc n" "invh n" "rb_color n = RB_BLACK"
    "invc s" "invh s" "rb_color s = RB_BLACK" "bh s = Suc (bh n)"
  shows "\<exists>st. erase_step_right n pc s p = Some st \<and> step_ok (bh n) pc st"
  using assms
  by (cases s) (auto simp: erase_step_right.simps step_ok_def bh_paint_black split: rb_node.splits color.splits)

lemma rb_erase_color_left_red:
  "sl \<noteq> NIL \<Longrightarrow> rb_erase_color n (LeftOf pc p (Node RB_RED sl s sr) # fs) =
     finish_step (erase_step_left n RB_RED p (paint_black sl)) (LeftOf pc s sr # fs)"
  by (cases sl) simp_all

lemma rb_erase_color_right_red:
  "sr \<noteq> NIL \<Longrightarrow> rb_erase_color n (RightOf pc (Node RB_RED sl s sr) p # fs) =
     finish_step (erase_step_right n RB_RED (paint_black sr) p) (RightOf pc sl s # fs)"
  by (cases sr) simp_all

lemma rb_erase_color_black:
  "rb_color sib = RB_BLACK \<Longrightarrow> rb_erase_color n (LeftOf pc p sib # fs) =
     (case erase_step_left n pc p sib of
        None \<Rightarrow> None | Some (Done t) \<Rightarrow> Some (plug t fs) | Some (Up t) \<Rightarrow> rb_erase_color t fs)"
  "rb_color sib = RB_BLACK \<Longrightarrow> rb_erase_color n (RightOf pc sib p # fs) =
     (case erase_step_right n pc sib p of
        None \<Rightarrow> None | Some (Done t) \<Rightarrow> Some (plug t fs) | Some (Up t) \<Rightarrow> rb_erase_color t fs)"
  by (cases sib; simp)+

lemma erase_step_red_parent: "step_ok h RB_RED st \<Longrightarrow> \<exists>t. st = Done t"
  by (cases st) (simp_all add: step_ok_def)

lemma path_c_step: "path_c pc fs \<Longrightarrow> c = pc \<or> c = RB_BLACK \<Longrightarrow> path_c c fs"
  using path_c_weaken by blast

lemma finish_red_step:
  assumes "st = Some stp" "step_ok h RB_RED stp" "path_c RB_RED fs" "path_h (Suc h) fs"
  shows "\<exists>t. finish_step st fs = Some t \<and> rbt t"
proof -
  obtain t where t: "stp = Done t" using erase_step_red_parent [OF assms(2)] by blast
  with assms have "path_c (rb_color t) fs" by (auto simp: step_ok_def intro: path_c_weaken)
  with assms t show ?thesis by (auto simp: finish_step_def step_ok_def rbt_plug)
qed

lemma done_step:
  assumes "step_ok h pc (Done t)" "path_c pc fs" "path_h (if pc = RB_BLACK then Suc (Suc h) else Suc h) fs"
  shows "rbt (plug t fs)"
  using assms path_c_step [OF assms(2), of "rb_color t"] by (auto simp: step_ok_def rbt_plug)

lemma rbt_erase_color:
  assumes "invc n" "invh n" "rb_color n = RB_BLACK" "path_c RB_BLACK fs" "path_h (Suc (bh n)) fs"
  shows "\<exists>t. rb_erase_color n fs = Some t \<and> rbt t"
  using assms
proof (induction fs arbitrary: n)
  case (Cons f fs)
  note n = Cons.prems(1-3)
  show ?case
  proof (cases f)
    case [simp]: (LeftOf pc p sib)
    have sib: "invc sib" "invh sib" "bh sib = Suc (bh n)" using Cons.prems by auto
    show ?thesis
    proof (cases "rb_color sib")
      case RB_RED
      with sib obtain sl s sr where [simp]: "sib = Node RB_RED sl s sr" by (cases sib) auto
      have sl: "invc sl" "invh sl" "rb_color sl = RB_BLACK" "bh sl = Suc (bh n)" using sib by auto
      obtain st where "erase_step_left n RB_RED p sl = Some st" "step_ok (bh n) RB_RED st"
        using erase_step_left_ok [OF n sl] by blast
      moreover have "sl \<noteq> NIL" using sl by auto
      ultimately show ?thesis
        using sl Cons.prems(4,5) finish_red_step [of _ st "bh n" "LeftOf pc s sr # fs"]
        by (auto simp: rb_erase_color_left_red simp del: rb_erase_color.simps)
    next
      case RB_BLACK
      obtain st where st: "erase_step_left n pc p sib = Some st" "step_ok (bh n) pc st"
        using erase_step_left_ok [OF n sib(1,2) RB_BLACK sib(3)] by blast
      then show ?thesis
        using RB_BLACK Cons.prems(4,5) Cons.IH done_step [of "bh n" pc _ fs]
        by (cases st) (auto simp: rb_erase_color_black step_ok_def simp del: rb_erase_color.simps)
    qed
  next
    case [simp]: (RightOf pc sib p)
    have sib: "invc sib" "invh sib" "bh sib = Suc (bh n)" using Cons.prems by auto
    show ?thesis
    proof (cases "rb_color sib")
      case RB_RED
      with sib obtain sl s sr where [simp]: "sib = Node RB_RED sl s sr" by (cases sib) auto
      have sr: "invc sr" "invh sr" "rb_color sr = RB_BLACK" "bh sr = Suc (bh n)" using sib by auto
      obtain st where "erase_step_right n RB_RED sr p = Some st" "step_ok (bh n) RB_RED st"
        using erase_step_right_ok [OF n sr] by blast
      moreover have "sr \<noteq> NIL" using sr by auto
      ultimately show ?thesis
        using sr sib Cons.prems(4,5) finish_red_step [of _ st "bh n" "RightOf pc sl s # fs"]
        by (auto simp: rb_erase_color_right_red simp del: rb_erase_color.simps)
    next
      case RB_BLACK
      obtain st where st: "erase_step_right n pc sib p = Some st" "step_ok (bh n) pc st"
        using erase_step_right_ok [OF n sib(1,2) RB_BLACK sib(3)] by blast
      then show ?thesis
        using RB_BLACK Cons.prems(4,5) Cons.IH done_step [of "bh n" pc _ fs]
        by (cases st) (auto simp: rb_erase_color_black step_ok_def simp del: rb_erase_color.simps)
    qed
  qed
qed (simp add: rbt_def)

lemma rbt_rebalance_if:
  assumes "path_c RB_BLACK fs" "path_c (if b then RB_BLACK else RB_RED) fs" "path_h (if b then Suc 0 else 0) fs"
  shows "\<exists>t. rebalance_if b fs = Some t \<and> rbt t"
proof (cases "b \<and> fs \<noteq> []")
  case True
  then show ?thesis using assms rbt_erase_color [of NIL fs] by (simp add: rebalance_if_def)
next
  case False
  then show ?thesis using assms by (auto simp: rebalance_if_def rbt_plug)
qed

lemma leftmost_path:
  assumes "leftmost t fs = Some (c, a, r, gs)" "invc t" "invh t" "path_h (bh t) fs" "path_c (rb_color t) fs"
  shows "invc r \<and> invh r \<and> bh r = 0 \<and> path_h (if c = RB_BLACK then Suc 0 else 0) gs \<and> path_c c gs
    \<and> (c = RB_RED \<longrightarrow> r = NIL)"
  using assms
proof (induction t fs rule: leftmost.induct)
  case (2 c a r fs)
  then show ?case by (cases r) auto
next
  case (3 c lc ll x lr a r fs)
  let ?l = "Node lc ll x lr"
  have "path_h (bh ?l) (LeftOf c a r # fs)"
    using 3(4,5) unfolding invh.simps(2) [of c ?l] bh.simps(2) [of c ?l] path_h.simps by metis
  moreover have "path_c (rb_color ?l) (LeftOf c a r # fs)" using 3(3,6) by simp
  ultimately show ?case using 3(1,2,3,4) by simp
qed simp

lemma leftmost_append: "leftmost t (gs @ fs) = map_option (\<lambda>(c, a, r, hs). (c, a, r, hs @ fs)) (leftmost t gs)"
  by (induction t gs rule: leftmost.induct) simp_all

lemma rbt_erase_node:
  assumes "rbt (plug (Node c l a r) fs)"
  shows "\<exists>t. rb_erase_node (Node c l a r) fs = Some t \<and> rbt t"
proof -
  have inv: "invc l" "invc r" "invh l" "invh r" "bh l = bh r" "path_c c fs" "path_h (bh (Node c l a r)) fs"
      "c = RB_RED \<longrightarrow> rb_color l = RB_BLACK \<and> rb_color r = RB_BLACK"
    using assms by (auto simp: rbt_plug)
  note weak = path_c_weaken [OF inv(6)]
  consider (leaf) "l = NIL" "r = NIL" | (left) "l \<noteq> NIL" "r = NIL" | (right) "l = NIL" "r \<noteq> NIL"
    | (both) "l \<noteq> NIL" "r \<noteq> NIL" by blast
  then show ?thesis
  proof cases
    case leaf
    then show ?thesis using inv weak rbt_rebalance_if [of fs "c = RB_BLACK"]
      by (cases c) simp_all
  next
    case left
    then obtain lc ll x lr where l: "l = Node lc ll x lr" by (cases l) auto
    have "lc = RB_RED" "c = RB_BLACK" using inv left l by (auto split: if_splits)
    then show ?thesis using left l inv by (auto simp: rbt_plug)
  next
    case right
    then obtain rc rl x rr where r: "r = Node rc rl x rr" by (cases r) auto
    have "rc = RB_RED" "c = RB_BLACK" using inv right r by (auto split: if_splits)
    then show ?thesis using right r inv by (auto simp: rbt_plug)
  next
    case both
    obtain sc s child2 gs where lm: "leftmost r [] = Some (sc, s, child2, gs)"
      using leftmost_total [OF both(2), of "[]"] by (metis prod_cases4)
    let ?path = "gs @ RightOf c l s # fs"
    have lm': "leftmost r ([] @ [RightOf c l s] @ fs) = Some (sc, s, child2, ?path)"
      unfolding leftmost_append lm by simp
    have h: "path_h (bh r) ([] @ [RightOf c l s] @ fs)" using inv by (cases c) simp_all
    have c: "path_c (rb_color r) ([] @ [RightOf c l s] @ fs)" using inv by (cases c) simp_all
    have p: "invc child2" "invh child2" "bh child2 = 0" "path_h (if sc = RB_BLACK then Suc 0 else 0) ?path"
        "path_c sc ?path" "sc = RB_RED \<longrightarrow> child2 = NIL"
      using leftmost_path [OF lm' inv(2,4) h c] by simp_all
    have e: "rb_erase_node (Node c l a r) fs =
        (if child2 \<noteq> NIL then Some (plug (paint_black child2) ?path) else rebalance_if (sc = RB_BLACK) ?path)"
      using both lm by (cases l; cases r) (simp_all add: Let_def)
    show ?thesis
    proof (cases "child2 = NIL")
      case True
      then show ?thesis
        unfolding e using p path_c_weaken [OF p(5)] rbt_rebalance_if [of ?path "sc = RB_BLACK"] by (cases sc) simp_all
    next
      case False
      then have "rb_color child2 = RB_RED" using p(3) by (cases child2) (auto split: if_splits)
      then show ?thesis unfolding e using p False by (auto simp: rbt_plug bh_paint_black)
    qed
  qed
qed

subsection \<open>Traversal\<close>

definition first_of :: "'a list \<Rightarrow> 'a option" where
  "first_of xs = (case xs of [] \<Rightarrow> None | x # _ \<Rightarrow> Some x)"

definition last_of :: "'a list \<Rightarrow> 'a option" where
  "last_of xs = (if xs = [] then None else Some (last xs))"

lemma first_of_simps [simp]: "first_of [] = None" "first_of (x # xs) = Some x"
  by (simp_all add: first_of_def)

lemma last_of_simps [simp]: "last_of [] = None" "last_of (xs @ [x]) = Some x" "last_of (xs @ y # ys) = last_of (y # ys)"
  by (simp_all add: last_of_def)

lemma inorder_Nil [simp]: "inorder t = [] \<longleftrightarrow> t = NIL"
  by (cases t) simp_all

lemma first_of_append: "first_of (xs @ ys) = (if xs = [] then first_of ys else first_of xs)"
  by (cases xs) simp_all

lemma last_of_append: "last_of (xs @ ys) = (if ys = [] then last_of xs else last_of ys)"
  by (simp add: last_of_def)

lemma rb_first_inorder: "rb_first t = first_of (inorder t)"
  by (induction t rule: rb_first.induct) (simp_all add: first_of_append)

lemma rb_last_inorder: "rb_last t = last_of (inorder t)"
  by (induction t rule: rb_last.induct) (simp_all add: last_of_def)

lemma up_to_left_child_after: "up_to_left_child fs = first_of (after fs)"
  by (induction fs rule: up_to_left_child.induct) simp_all

lemma up_to_right_child_before: "up_to_right_child fs = last_of (before fs)"
  by (induction fs rule: up_to_right_child.induct) (simp_all add: last_of_def)

lemma locate_split:
  assumes "inorder t = xs @ x # ys" "distinct (inorder t)"
  obtains c l r fs where "locate x t [] = Some (Node c l x r, fs)" "plug (Node c l x r) fs = t"
    "xs = before fs @ inorder l" "ys = inorder r @ after fs"
proof -
  obtain n fs where loc: "locate x t [] = Some (n, fs)" using locate_Some [of x t] assms(1) by auto
  then obtain c l r where n: "n = Node c l x r" and p: "plug n fs = t" using locate_plug [OF loc] by auto
  have "xs @ x # ys = (before fs @ inorder l) @ x # (inorder r @ after fs)"
    using p n assms(1) inorder_plug [of n fs] by simp
  moreover have "x \<notin> set xs" "x \<notin> set ys" using assms by auto
  ultimately have "xs = before fs @ inorder l \<and> ys = inorder r @ after fs"
    using append_Cons_eq_iff [of x xs ys] by blast
  with loc n p that show thesis by blast
qed

lemma rb_next_inorder:
  assumes "inorder t = xs @ x # ys" "distinct (inorder t)"
  shows "rb_next x t = first_of ys"
  using assms by (rule locate_split)
    (simp add: rb_next_def rb_first_inorder up_to_left_child_after first_of_append)

lemma rb_prev_inorder:
  assumes "inorder t = xs @ x # ys" "distinct (inorder t)"
  shows "rb_prev x t = last_of xs"
  using assms by (rule locate_split)
    (simp add: rb_prev_def rb_last_inorder up_to_right_child_before last_of_append)

lemma inorder_replace_node:
  assumes "inorder t = xs @ x # ys" "distinct (inorder t)" "rbt t"
  shows "\<exists>t'. rb_replace_node x y t = Some t' \<and> inorder t' = xs @ y # ys \<and> rbt t'"
  using assms(1,2)
proof (rule locate_split)
  fix c l r fs
  assume "locate x t [] = Some (Node c l x r, fs)" "plug (Node c l x r) fs = t"
    "xs = before fs @ inorder l" "ys = inorder r @ after fs"
  moreover from this assms(3) have "rbt (plug (Node c l y r) fs)" by (auto simp: rbt_plug)
  ultimately show ?thesis by (simp add: rb_replace_node_def)
qed

subsection \<open>Insertion and erasure\<close>

lemma rb_insert_ok:
  assumes "rbt (plug NIL fs)"
  shows "\<exists>t. rb_insert_color (rb_link_node x) fs = Some t \<and> rbt t \<and> inorder t = before fs @ x # after fs"
proof -
  have "path_c RB_BLACK fs" "path_h 0 fs" using assms by (simp_all add: rbt_plug)
  then obtain t where t: "rb_insert_loop (rb_link_node x) fs = Some t" "rbt t"
    using rbt_insert_loop [of "rb_link_node x" fs] by (auto simp: rb_link_node_def)
  moreover have "inorder t = before fs @ x # after fs"
    using inorder_insert_loop [OF t(1)] by (simp add: rb_link_node_def)
  ultimately show ?thesis by (simp add: rb_insert_color_def rb_link_node_def)
qed

lemma rb_erase_ok:
  assumes "rbt t" "distinct (inorder t)" "x \<in> set (inorder t)"
  shows "\<exists>t'. rb_erase x t = Some t' \<and> rbt t' \<and> inorder t' = remove1 x (inorder t)"
proof -
  obtain n fs where l: "locate x t [] = Some (n, fs)" using locate_Some [OF assms(3)] by blast
  then obtain c tl tr where n: "n = Node c tl x tr" and p: "plug n fs = t" using locate_plug [OF l] by auto
  have "rbt (plug (Node c tl x tr) fs)" using p n assms(1) by simp
  from rbt_erase_node [OF this] obtain t' where e: "rb_erase_node n fs = Some t'" and r: "rbt t'"
    unfolding n by (elim exE conjE)
  have "rb_erase x t = Some t'" using l e by (simp add: rb_erase_def)
  with r inorder_rb_erase [OF this assms(2)] show ?thesis by simp
qed

subsection \<open>Properties\<close>

text \<open>C4. Insertion at any link of a red-black tree succeeds without a \<open>NULL\<close> dereference: the
  result is a red-black tree and its in-order sequence is the old one with the new node at the
  position of the link.\<close>

theorem rb_insert_correct:
  assumes "rbt (plug NIL fs)"
  shows "\<exists>t. rb_insert_color (rb_link_node x) fs = Some t \<and> rbt t \<and> inorder t = before fs @ x # after fs"
  using assms by (rule rb_insert_ok)

theorem rb_insert_correct_witness:
  "\<exists>t. rb_insert_color (rb_link_node (3 :: nat)) [RightOf RB_RED NIL 2, RightOf RB_BLACK NIL 1] = Some t
     \<and> inorder t = [1, 2, 3]"
  using rb_insert_correct [of "[RightOf RB_RED NIL 2, RightOf RB_BLACK NIL (1 :: nat)]" 3]
  by (auto simp: rbt_def)

text \<open>C3. Erasing a node of a red-black tree succeeds without a \<open>NULL\<close> dereference: the result is a
  red-black tree whose in-order sequence is the old one without that node.\<close>

theorem rb_erase_correct:
  assumes "rbt t" "distinct (inorder t)" "x \<in> set (inorder t)"
  shows "\<exists>t'. rb_erase x t = Some t' \<and> rbt t' \<and> inorder t' = remove1 x (inorder t)"
  using assms by (rule rb_erase_ok)

theorem rb_erase_correct_witness:
  "\<exists>t'. rb_erase (2 :: nat) (Node RB_BLACK (Node RB_BLACK NIL 1 NIL) 2 (Node RB_BLACK NIL 3 NIL)) = Some t'
     \<and> rbt t' \<and> inorder t' = [1, 3]"
  using rb_erase_correct [of "Node RB_BLACK (Node RB_BLACK NIL 1 NIL) 2 (Node RB_BLACK NIL (3 :: nat) NIL)" 2]
  by (simp add: rbt_def)

text \<open>C27. \<open>rb_first\<close> and \<open>rb_last\<close> are the ends of the in-order sequence, and \<open>rb_next\<close> and
  \<open>rb_prev\<close> step along it, returning \<open>NULL\<close> past its ends.\<close>

theorem rb_walk_correct:
  assumes "inorder t = xs @ x # ys" "distinct (inorder t)"
  shows "rb_first t = Some (hd (xs @ [x])) \<and> rb_last t = Some (last (x # ys)) \<and>
    rb_next x t = (if ys = [] then None else Some (hd ys)) \<and>
    rb_prev x t = (if xs = [] then None else Some (last xs))"
  unfolding rb_next_inorder [OF assms] rb_prev_inorder [OF assms] rb_first_inorder rb_last_inorder assms(1)
  by (cases xs; cases ys) (simp_all add: last_of_def)

theorem rb_walk_correct_witness:
  "rb_next (2 :: nat) (Node RB_BLACK (Node RB_BLACK NIL 1 NIL) 2 (Node RB_BLACK NIL 3 NIL)) = Some 3"
  using rb_walk_correct [of "Node RB_BLACK (Node RB_BLACK NIL 1 NIL) 2 (Node RB_BLACK NIL (3 :: nat) NIL)" "[1]" 2 "[3]"]
  by simp

end
