(* ===== verification/Vruntime.thy ===== *)
theory Vruntime
  imports Load_Weight
begin

text \<open>
  Virtual time (\<open>kernel/sched/fair.c\<close>): \<open>max_vruntime\<close>, \<open>min_vruntime\<close> and the comparison behind
  \<open>entity_before\<close>.  The code compares 64-bit counters by the sign of their wrapped difference.
  That relation is not transitive on all 64-bit values; it is the order of the positions
  \<open>v - base\<close> as long as all compared values lie in one half-range window above some \<open>base\<close>.
  Every later result about the timeline is stated for such a window.
\<close>

definition max_vruntime :: "u64 \<Rightarrow> u64 \<Rightarrow> u64" where
  "max_vruntime mx vruntime = (if s64_pos (vruntime - mx) then vruntime else mx)"

definition min_vruntime :: "u64 \<Rightarrow> u64 \<Rightarrow> u64" where
  "min_vruntime mn vruntime = (if s64_neg (vruntime - mn) then vruntime else mn)"

definition vruntime_before :: "u64 \<Rightarrow> u64 \<Rightarrow> bool" where
  "vruntime_before a b = s64_neg (a - b)"

text \<open>The position of a value above a base, and the half-range window.\<close>

definition vpos :: "u64 \<Rightarrow> u64 \<Rightarrow> nat" where
  "vpos base v = unat (v - base)"

definition in_window :: "u64 \<Rightarrow> u64 \<Rightarrow> bool" where
  "in_window base v \<longleftrightarrow> vpos base v < 9223372036854775808"

subsection \<open>Comparison in a window\<close>

lemma unat_diff_wrap:
  "unat ((a :: u64) - b) =
     (if unat b \<le> unat a then unat a - unat b else unat a + 18446744073709551616 - unat b)"
proof -
  have "unat b < 18446744073709551616" by (rule unat_lt_64)
  then show ?thesis by (simp add: unat_sub_if_size word_size)
qed

lemma vruntime_diff: "a - b = (a - base) - ((b :: u64) - base)"
  by simp

lemma vruntime_before_vpos:
  assumes "in_window base a" "in_window base b"
  shows "vruntime_before a b \<longleftrightarrow> vpos base a < vpos base b"
  using assms unat_diff_wrap [of "a - base" "b - base"]
  unfolding vruntime_before_def s64_neg_unat vruntime_diff [of a b base] in_window_def vpos_def
  by auto

lemma s64_pos_vpos:
  assumes "in_window base a" "in_window base b"
  shows "s64_pos (a - b) \<longleftrightarrow> vpos base b < vpos base a"
proof -
  have "a - b \<noteq> 0 \<longleftrightarrow> unat (a - base) \<noteq> unat (b - base)"
    by (metis diff_add_cancel eq_iff_diff_eq_0 word_unat_eq_iff)
  then show ?thesis
    using assms unat_diff_wrap [of "a - base" "b - base"]
    unfolding s64_pos_unat vruntime_diff [of a b base] in_window_def vpos_def
    by auto
qed

lemma max_vruntime_vpos:
  assumes "in_window base a" "in_window base b"
  shows "vpos base (max_vruntime a b) = max (vpos base a) (vpos base b) \<and> in_window base (max_vruntime a b)"
  using assms s64_pos_vpos [OF assms(2,1)] by (auto simp: max_vruntime_def)

lemma min_vruntime_vpos:
  assumes "in_window base a" "in_window base b"
  shows "vpos base (min_vruntime a b) = min (vpos base a) (vpos base b) \<and> in_window base (min_vruntime a b)"
  using assms vruntime_before_vpos [OF assms(2,1)] by (auto simp: min_vruntime_def vruntime_before_def)

lemma vpos_inj: "vpos base a = vpos base b \<longleftrightarrow> a = b"
  by (metis vpos_def diff_add_cancel word_unat_eq_iff)

lemma max_vruntime_cases: "max_vruntime a b = a \<or> max_vruntime a b = b"
  by (simp add: max_vruntime_def)

text \<open>C33. \<open>max_vruntime\<close> never moves a queue's clock backwards: whatever the second argument, the
  result is the first argument or lies less than half the 64-bit range after it.\<close>

theorem max_vruntime_forward:
  "in_window mx (max_vruntime mx v) \<and> \<not> vruntime_before (max_vruntime mx v) mx"
proof (cases "s64_pos (v - mx)")
  case True
  then have "unat (v - mx) < 9223372036854775808" by (simp add: s64_pos_unat)
  with True show ?thesis by (simp add: max_vruntime_def in_window_def vpos_def vruntime_before_def s64_neg_unat)
next
  case False
  then show ?thesis by (simp add: max_vruntime_def in_window_def vpos_def vruntime_before_def s64_neg_unat)
qed

end
