(* ===== verification/Sched_State.thy ===== *)
theory Sched_State
  imports Pelt Kernel_Rbtree Vruntime "HOL-Library.Monad_Syntax"
begin

text \<open>
  The scheduler state: the structures of \<open>include/linux/sched.h\<close> and \<open>kernel/sched/sched.h\<close> that the
  modelled code reads or writes, and the walks over the entity hierarchy of \<open>kernel/sched/fair.c\<close>.

  Objects live in total functions from identifiers (addresses) to records; a pointer that may be
  \<open>NULL\<close> is an option.  A task and the entity embedded in it have the same identifier, so \<open>task_of\<close>
  is the identity; on a group entity it yields the record of a task that does not exist, like the
  \<open>container_of\<close> of the C code.  A run queue is named by its CPU.  Field names carry a prefix for the
  structure they belong to.  Operations that can dereference \<open>NULL\<close> or walk a chain without end
  return \<^const>\<open>None\<close> in that case.

  The configuration is \<open>src/backup/config\<close>: SMP and group scheduling on, CFS bandwidth control off.
\<close>

subsection \<open>Structures\<close>

record sched_statistics =
  wait_start :: u64
  wait_max :: u64
  wait_count :: u64
  wait_sum :: u64
  iowait_count :: u64
  iowait_sum :: u64
  sleep_start :: u64
  sleep_max :: u64
  sum_sleep_runtime :: s64
  block_start :: u64
  block_max :: u64
  exec_max :: u64
  slice_max :: u64
  nr_migrations_cold :: u64
  nr_failed_migrations_affine :: u64
  nr_failed_migrations_running :: u64
  nr_failed_migrations_hot :: u64
  nr_forced_migrations :: u64
  nr_wakeups :: u64
  nr_wakeups_sync :: u64
  nr_wakeups_migrate :: u64
  nr_wakeups_local :: u64
  nr_wakeups_remote :: u64
  nr_wakeups_affine :: u64
  nr_wakeups_affine_attempts :: u64
  nr_wakeups_passive :: u64
  nr_wakeups_idle :: u64

record sched_entity =
  se_load :: load_weight
  se_on_rq :: bool
  se_exec_start :: u64
  se_sum_exec_runtime :: u64
  se_vruntime :: u64
  se_prev_sum_exec_runtime :: u64
  se_nr_migrations :: u64
  se_statistics :: sched_statistics
  se_parent :: "nat option"
  se_cfs_rq :: nat
  se_my_q :: "nat option"
  se_avg :: sched_avg

record cfs_rq =
  cfs_load :: load_weight
  cfs_nr_running :: u32
  cfs_h_nr_running :: u32
  cfs_exec_clock :: u64
  cfs_min_vruntime :: u64
  cfs_tasks_timeline :: "nat rb_node"
  cfs_rb_leftmost :: "nat option"
  cfs_curr :: "nat option"
  cfs_next :: "nat option"
  cfs_last :: "nat option"
  cfs_skip :: "nat option"
  cfs_avg :: sched_avg
  cfs_runnable_load_avg :: u64
  cfs_blocked_load_avg :: u64
  cfs_decay_counter :: u64
  cfs_removed_load :: u64
  cfs_last_decay :: u64
  cfs_tg_runnable_contrib :: u32
  cfs_tg_usage_contrib :: u32
  cfs_tg_load_contrib :: u64
  cfs_h_load :: u64
  cfs_rq_cpu :: nat
  cfs_on_list :: bool
  cfs_tg :: nat

record task_group =
  tg_se :: "nat \<Rightarrow> nat option"
  tg_cfs_rq :: "nat \<Rightarrow> nat"
  tg_shares :: u64
  tg_load_avg :: u64
  tg_runnable_avg :: u32
  tg_usage_avg :: u32
  tg_parent :: "nat option"

record rq =
  rq_nr_running :: u32
  rq_load :: load_weight
  rq_cfs :: nat
  rq_leaf_cfs_rq_list :: "nat list"
  rq_cfs_tasks :: "nat list"
  rq_curr :: nat
  rq_idle :: nat
  rq_clock :: u64
  rq_clock_task :: u64
  rq_cpu_power :: u64
  rq_active_balance :: bool
  rq_push_cpu :: nat
  rq_migrate_task :: "nat option"
  rq_wake_for_idle_pull :: bool
  rq_skip_clock_update :: bool
  rq_nr_uninterruptible :: u64
  rq_avg :: sched_avg

text \<open>The scheduling classes, in the order of \<open>for_each_class\<close>.\<close>

datatype sched_class = stop_sched_class | rt_sched_class | fair_sched_class | idle_sched_class

record task_struct =
  p_prio :: int
  p_static_prio :: int
  p_policy :: policy
  p_state :: u64
  p_in_iowait :: bool
  p_on_cpu :: bool
  p_cpu :: nat
  p_cpus_allowed :: "nat \<Rightarrow> bool"
  p_need_resched :: bool
  p_has_mm :: bool
  p_parent_pid :: "int option"
  p_on_rq :: bool
  p_sched_class :: sched_class
  p_sched_task_group :: nat
  p_flags :: u32

text \<open>The globals of the scheduler: the tunables of \<open>fair.c\<close> and the objects.\<close>

record sched_state =
  ses :: "nat \<Rightarrow> sched_entity"
  cfs_rqs :: "nat \<Rightarrow> cfs_rq"
  tgs :: "nat \<Rightarrow> task_group"
  rqs :: "nat \<Rightarrow> rq"
  tasks :: "nat \<Rightarrow> task_struct"
  sysctl_sched_latency :: u32
  sysctl_sched_min_granularity :: u32
  sysctl_sched_wakeup_granularity :: u32
  sched_nr_latency :: u32
  sysctl_sched_child_runs_first :: u32
  nohz_idle_cpus_mask :: "nat \<Rightarrow> bool"
  hmp_multiplier :: s32
  hmp_curr_scale :: "nat \<Rightarrow> u32 option"
  hmp_up_prio :: int

subsection \<open>Updates of one object\<close>

definition upd_se :: "nat \<Rightarrow> (sched_entity \<Rightarrow> sched_entity) \<Rightarrow> sched_state \<Rightarrow> sched_state" where
  "upd_se e f st = st\<lparr>ses := (ses st)(e := f (ses st e))\<rparr>"

definition upd_cfs :: "nat \<Rightarrow> (cfs_rq \<Rightarrow> cfs_rq) \<Rightarrow> sched_state \<Rightarrow> sched_state" where
  "upd_cfs c f st = st\<lparr>cfs_rqs := (cfs_rqs st)(c := f (cfs_rqs st c))\<rparr>"

definition upd_tg :: "nat \<Rightarrow> (task_group \<Rightarrow> task_group) \<Rightarrow> sched_state \<Rightarrow> sched_state" where
  "upd_tg t f st = st\<lparr>tgs := (tgs st)(t := f (tgs st t))\<rparr>"

definition upd_rq :: "nat \<Rightarrow> (rq \<Rightarrow> rq) \<Rightarrow> sched_state \<Rightarrow> sched_state" where
  "upd_rq cpu f st = st\<lparr>rqs := (rqs st)(cpu := f (rqs st cpu))\<rparr>"

definition upd_task :: "nat \<Rightarrow> (task_struct \<Rightarrow> task_struct) \<Rightarrow> sched_state \<Rightarrow> sched_state" where
  "upd_task p f st = st\<lparr>tasks := (tasks st)(p := f (tasks st p))\<rparr>"

lemmas upd_defs = upd_se_def upd_cfs_def upd_tg_def upd_rq_def upd_task_def

lemma upd_se_simps [simp]:
  "ses (upd_se e f st) = (ses st)(e := f (ses st e))" "cfs_rqs (upd_se e f st) = cfs_rqs st"
  "tgs (upd_se e f st) = tgs st" "rqs (upd_se e f st) = rqs st" "tasks (upd_se e f st) = tasks st"
  "sched_state.more (upd_se e f st) = sched_state.more st"
  by (simp_all add: upd_se_def)

lemma upd_cfs_simps [simp]:
  "ses (upd_cfs c g st) = ses st" "cfs_rqs (upd_cfs c g st) = (cfs_rqs st)(c := g (cfs_rqs st c))"
  "tgs (upd_cfs c g st) = tgs st" "rqs (upd_cfs c g st) = rqs st" "tasks (upd_cfs c g st) = tasks st"
  by (simp_all add: upd_cfs_def)

lemma upd_tg_simps [simp]:
  "ses (upd_tg t h st) = ses st" "cfs_rqs (upd_tg t h st) = cfs_rqs st"
  "tgs (upd_tg t h st) = (tgs st)(t := h (tgs st t))" "rqs (upd_tg t h st) = rqs st" "tasks (upd_tg t h st) = tasks st"
  by (simp_all add: upd_tg_def)

lemma upd_rq_simps [simp]:
  "ses (upd_rq r k st) = ses st" "cfs_rqs (upd_rq r k st) = cfs_rqs st" "tgs (upd_rq r k st) = tgs st"
  "rqs (upd_rq r k st) = (rqs st)(r := k (rqs st r))" "tasks (upd_rq r k st) = tasks st"
  by (simp_all add: upd_rq_def)

lemma upd_task_simps [simp]:
  "ses (upd_task p j st) = ses st" "cfs_rqs (upd_task p j st) = cfs_rqs st" "tgs (upd_task p j st) = tgs st"
  "rqs (upd_task p j st) = rqs st" "tasks (upd_task p j st) = (tasks st)(p := j (tasks st p))"
  by (simp_all add: upd_task_def)

text \<open>The tunables, as one value that no operation changes.\<close>

definition tunables :: "sched_state \<Rightarrow> u32 \<times> u32 \<times> u32 \<times> u32 \<times> s32 \<times> (nat \<Rightarrow> u32 option) \<times> int" where
  "tunables st = (sysctl_sched_latency st, sysctl_sched_min_granularity st, sysctl_sched_wakeup_granularity st,
     sched_nr_latency st, hmp_multiplier st, hmp_curr_scale st, hmp_up_prio st)"

lemma tunables_upd [simp]:
  "tunables (upd_se e f st) = tunables st" "tunables (upd_cfs c g st) = tunables st"
  "tunables (upd_tg t h st) = tunables st" "tunables (upd_rq r k st) = tunables st"
  "tunables (upd_task p j st) = tunables st"
  by (simp_all add: tunables_def upd_defs)

subsection \<open>Hierarchy\<close>

definition entity_is_task :: "sched_state \<Rightarrow> nat \<Rightarrow> bool" where
  "entity_is_task st se = (se_my_q (ses st se) = None)"

definition task_of :: "nat \<Rightarrow> nat" where
  "task_of se = se"

definition cfs_rq_of :: "sched_state \<Rightarrow> nat \<Rightarrow> nat" where
  "cfs_rq_of st se = se_cfs_rq (ses st se)"

definition rq_of :: "sched_state \<Rightarrow> nat \<Rightarrow> nat" where
  "rq_of st c = cfs_rq_cpu (cfs_rqs st c)"

definition group_cfs_rq :: "sched_state \<Rightarrow> nat \<Rightarrow> nat option" where
  "group_cfs_rq st se = se_my_q (ses st se)"

definition parent_entity :: "sched_state \<Rightarrow> nat \<Rightarrow> nat option" where
  "parent_entity st se = se_parent (ses st se)"

definition is_same_group :: "sched_state \<Rightarrow> nat \<Rightarrow> nat \<Rightarrow> bool" where
  "is_same_group st se pse = (se_cfs_rq (ses st se) = se_cfs_rq (ses st pse))"

text \<open>\<open>for_each_sched_entity\<close>: the entities from one up to the root.  A cyclic hierarchy never
  ends, which is \<^const>\<open>None\<close>.\<close>

partial_function (option) ancestors :: "(nat \<Rightarrow> nat option) \<Rightarrow> nat option \<Rightarrow> nat list option" where
  "ancestors par se =
     (case se of
        None \<Rightarrow> Some []
      | Some e \<Rightarrow> do { es \<leftarrow> ancestors par (par e); Some (e # es) })"

definition for_each_sched_entity :: "sched_state \<Rightarrow> nat option \<Rightarrow> nat list option" where
  "for_each_sched_entity st se = ancestors (parent_entity st) se"

definition depth_se :: "sched_state \<Rightarrow> nat \<Rightarrow> nat option" where
  "depth_se st se = map_option length (for_each_sched_entity st (Some se))"

text \<open>\<open>find_matching_se\<close>: the three loops.  Stepping above the root is a \<open>NULL\<close> dereference.\<close>

fun climb :: "sched_state \<Rightarrow> nat \<Rightarrow> nat option \<Rightarrow> nat option option" where
  "climb st 0 se = Some se"
| "climb st (Suc n) None = None"
| "climb st (Suc n) (Some e) = climb st n (parent_entity st e)"

partial_function (option) climb_both :: "(nat \<Rightarrow> nat option) \<Rightarrow> (nat \<Rightarrow> nat) \<Rightarrow> nat option \<Rightarrow> nat option \<Rightarrow> (nat \<times> nat) option" where
  "climb_both par grp se pse =
     (case (se, pse) of
        (Some e, Some pe) \<Rightarrow> if grp e = grp pe then Some (e, pe) else climb_both par grp (par e) (par pe)
      | _ \<Rightarrow> None)"

definition find_matching_se :: "sched_state \<Rightarrow> nat \<Rightarrow> nat \<Rightarrow> (nat \<times> nat) option" where
  "find_matching_se st se pse = do {
     se_depth \<leftarrow> depth_se st se;
     pse_depth \<leftarrow> depth_se st pse;
     se' \<leftarrow> climb st (se_depth - pse_depth) (Some se);
     pse' \<leftarrow> climb st (pse_depth - se_depth) (Some pse);
     climb_both (parent_entity st) (\<lambda>e. se_cfs_rq (ses st e)) se' pse' }"

lemmas hierarchy_defs = entity_is_task_def task_of_def cfs_rq_of_def rq_of_def group_cfs_rq_def parent_entity_def

declare ancestors.simps [simp del, code]
declare climb_both.simps [simp del, code]

lemma ancestors_None [simp]: "ancestors par None = Some []"
  by (subst ancestors.simps) simp

lemma ancestors_Some: "ancestors par (Some e) = do { es \<leftarrow> ancestors par (par e); Some (e # es) }"
  by (subst ancestors.simps) simp

subsection \<open>Walks terminate on a well-founded hierarchy\<close>

lemma ancestors_total:
  assumes "\<And>e p. par e = Some p \<Longrightarrow> rank p < (rank e :: nat)"
  shows "\<exists>es. ancestors par se = Some es"
proof (cases se)
  case (Some e)
  have "\<exists>es. ancestors par (Some e) = Some es"
  proof (induction "rank e" arbitrary: e rule: less_induct)
    case less
    show ?case
    proof (cases "par e")
      case None
      then show ?thesis by (simp add: ancestors_Some)
    next
      case (Some p)
      then obtain es where "ancestors par (Some p) = Some es" using less assms by blast
      with Some show ?thesis by (simp add: ancestors_Some)
    qed
  qed
  with Some show ?thesis by simp
qed simp

lemma ancestors_Cons:
  assumes "ancestors par (Some e) = Some es"
  obtains es' where "es = e # es'" "ancestors par (par e) = Some es'"
  using assms by (auto simp: ancestors_Some split: bind_splits)

lemma ancestors_drop:
  "ancestors par (Some e) = Some es \<Longrightarrow> n < length es \<Longrightarrow> ancestors par (Some (es ! n)) = Some (drop n es)"
proof (induction n arbitrary: e es)
  case 0
  from 0(1) obtain es' where "es = e # es'" by (rule ancestors_Cons)
  with 0 show ?case by simp
next
  case (Suc n)
  from Suc.prems(1) obtain es' where es: "es = e # es'" "ancestors par (par e) = Some es'" by (rule ancestors_Cons)
  with Suc.prems(2) obtain p where p: "par e = Some p" by (cases "par e") auto
  show ?case using Suc.IH [of p es'] es p Suc.prems(2) by simp
qed

lemma climb_ancestors:
  "ancestors (parent_entity st) (Some e) = Some es \<Longrightarrow> n < length es \<Longrightarrow> climb st n (Some e) = Some (Some (es ! n))"
proof (induction n arbitrary: e es)
  case 0
  then show ?case by (auto elim: ancestors_Cons)
next
  case (Suc n)
  from Suc.prems(1) obtain es' where es: "es = e # es'" "ancestors (parent_entity st) (parent_entity st e) = Some es'"
    by (rule ancestors_Cons)
  with Suc.prems(2) obtain p where p: "parent_entity st e = Some p" by (cases "parent_entity st e") auto
  show ?case using Suc.IH [of p es'] es p Suc.prems(2) by simp
qed

lemma climb_both_ancestors:
  assumes "ancestors par (Some e) = Some es" "ancestors par (Some pe) = Some pes"
    "length es = length pes" "grp (last es) = grp (last pes)"
  shows "\<exists>a b. climb_both par grp (Some e) (Some pe) = Some (a, b) \<and> a \<in> set es \<and> b \<in> set pes \<and> grp a = grp b"
  using assms
proof (induction es arbitrary: e pe pes)
  case Nil
  then show ?case by (auto elim: ancestors_Cons)
next
  case (Cons x es)
  from Cons.prems(1) have x: "x = e" "ancestors par (par e) = Some es" by (auto elim: ancestors_Cons)
  from Cons.prems(2) obtain pes' where pe: "pes = pe # pes'" "ancestors par (par pe) = Some pes'" by (rule ancestors_Cons)
  show ?case
  proof (cases "grp e = grp pe")
    case True
    then show ?thesis using x pe by (subst climb_both.simps) simp
  next
    case False
    then have "es \<noteq> []" using Cons.prems(3,4) x pe by auto
    then obtain f pf where f: "par e = Some f" "par pe = Some pf"
      using x(2) pe(2) Cons.prems(3) pe(1) by (cases "par e"; cases "par pe") auto
    have "\<exists>a b. climb_both par grp (Some f) (Some pf) = Some (a, b) \<and> a \<in> set es \<and> b \<in> set pes' \<and> grp a = grp b"
    proof (rule Cons.IH)
      show "length es = length pes'" using Cons.prems(3) pe by simp
      then show "grp (last es) = grp (last pes')" using Cons.prems(4) pe \<open>es \<noteq> []\<close> by auto
    qed (use x pe f in simp_all)
    with False f pe show ?thesis by (subst climb_both.simps) auto
  qed
qed

lemma find_matching_se_ok:
  assumes "for_each_sched_entity st (Some se) = Some es" "for_each_sched_entity st (Some pse) = Some pes"
    "is_same_group st (last es) (last pes)"
  shows "\<exists>a b. find_matching_se st se pse = Some (a, b) \<and> a \<in> set es \<and> b \<in> set pes \<and> is_same_group st a b"
proof -
  let ?par = "parent_entity st" and ?n = "length es - length pes" and ?m = "length pes - length es"
  have a: "ancestors ?par (Some se) = Some es" "ancestors ?par (Some pse) = Some pes"
    using assms(1,2) by (simp_all add: for_each_sched_entity_def)
  then have ne: "0 < length es" "0 < length pes" by (auto elim: ancestors_Cons)
  then have nm: "?n < length es" "?m < length pes" by simp_all
  have "\<exists>x y. climb_both ?par (\<lambda>e. se_cfs_rq (ses st e)) (Some (es ! ?n)) (Some (pes ! ?m)) = Some (x, y) \<and>
      x \<in> set (drop ?n es) \<and> y \<in> set (drop ?m pes) \<and> se_cfs_rq (ses st x) = se_cfs_rq (ses st y)"
    using ancestors_drop [OF a(1) nm(1)] ancestors_drop [OF a(2) nm(2)] assms(3) nm
    by (intro climb_both_ancestors) (auto simp: is_same_group_def)
  then show ?thesis
    using climb_ancestors [OF a(1) nm(1)] climb_ancestors [OF a(2) nm(2)] a
    by (auto simp: find_matching_se_def depth_se_def for_each_sched_entity_def is_same_group_def dest: in_set_dropD)
qed

text \<open>C34. On a finite hierarchy whose two roots are queued on the same run queue,
  \<open>find_matching_se\<close> ends without leaving the hierarchy and returns two entities of one run queue,
  each an ancestor (or the entity itself) of its argument.\<close>

theorem find_matching_se_correct:
  assumes "for_each_sched_entity st (Some se) = Some es" "for_each_sched_entity st (Some pse) = Some pes"
    "is_same_group st (last es) (last pes)"
  shows "\<exists>a b. find_matching_se st se pse = Some (a, b) \<and> a \<in> set es \<and> b \<in> set pes \<and> is_same_group st a b"
  using assms by (rule find_matching_se_ok)


subsection \<open>A concrete state\<close>

text \<open>Four CPUs' worth of zeroed structures, for concrete instances: tasks 1 and 2 in the root run queue 0,
  the group entity 3 with its own run queue 1, and task 4 inside that group.  Everything runs on CPU 0.\<close>

definition zero_avg :: sched_avg where
  "zero_avg = sample_avg 0 0 0"

definition zero_stats :: sched_statistics where
  "zero_stats = \<lparr>wait_start = 0, wait_max = 0, wait_count = 0, wait_sum = 0, iowait_count = 0, iowait_sum = 0,
     sleep_start = 0, sleep_max = 0, sum_sleep_runtime = 0, block_start = 0, block_max = 0, exec_max = 0,
     slice_max = 0, nr_migrations_cold = 0, nr_failed_migrations_affine = 0, nr_failed_migrations_running = 0,
     nr_failed_migrations_hot = 0, nr_forced_migrations = 0, nr_wakeups = 0, nr_wakeups_sync = 0,
     nr_wakeups_migrate = 0, nr_wakeups_local = 0, nr_wakeups_remote = 0, nr_wakeups_affine = 0,
     nr_wakeups_affine_attempts = 0, nr_wakeups_passive = 0, nr_wakeups_idle = 0\<rparr>"

definition sample_se :: "nat option \<Rightarrow> nat \<Rightarrow> nat option \<Rightarrow> sched_entity" where
  "sample_se par c q = \<lparr>se_load = \<lparr>weight = 1024, inv_weight = 0\<rparr>, se_on_rq = False, se_exec_start = 0,
     se_sum_exec_runtime = 0, se_vruntime = 0, se_prev_sum_exec_runtime = 0, se_nr_migrations = 0, se_statistics = zero_stats,
     se_parent = par, se_cfs_rq = c, se_my_q = q, se_avg = zero_avg\<rparr>"

definition sample_cfs :: "nat \<Rightarrow> cfs_rq" where
  "sample_cfs tg = \<lparr>cfs_load = \<lparr>weight = 0, inv_weight = 0\<rparr>, cfs_nr_running = 0, cfs_h_nr_running = 0,
     cfs_exec_clock = 0, cfs_min_vruntime = 0, cfs_tasks_timeline = NIL, cfs_rb_leftmost = None, cfs_curr = None,
     cfs_next = None, cfs_last = None, cfs_skip = None, cfs_avg = zero_avg, cfs_runnable_load_avg = 0,
     cfs_blocked_load_avg = 0, cfs_decay_counter = 1, cfs_removed_load = 0, cfs_last_decay = 0,
     cfs_tg_runnable_contrib = 0, cfs_tg_usage_contrib = 0, cfs_tg_load_contrib = 0, cfs_h_load = 0, cfs_rq_cpu = 0,
     cfs_on_list = False, cfs_tg = tg\<rparr>"

definition sample_rq :: "nat \<Rightarrow> rq" where
  "sample_rq cpu = \<lparr>rq_nr_running = 0, rq_load = \<lparr>weight = 0, inv_weight = 0\<rparr>, rq_cfs = 0,
     rq_leaf_cfs_rq_list = [], rq_cfs_tasks = [], rq_curr = 0, rq_idle = 0, rq_clock = 1000000, rq_clock_task = 1000000,
     rq_cpu_power = 1024, rq_active_balance = False, rq_push_cpu = 0, rq_migrate_task = None,
     rq_wake_for_idle_pull = False, rq_skip_clock_update = False, rq_nr_uninterruptible = 0, rq_avg = zero_avg\<rparr>"

definition sample_task :: task_struct where
  "sample_task = \<lparr>p_prio = 120, p_static_prio = 120, p_policy = SCHED_NORMAL, p_state = 0, p_in_iowait = False,
     p_on_cpu = False, p_cpu = 0, p_cpus_allowed = (\<lambda>_. True), p_need_resched = False, p_has_mm = True,
     p_parent_pid = Some 100, p_on_rq = False, p_sched_class = fair_sched_class, p_sched_task_group = 0, p_flags = 0\<rparr>"

definition sample_state :: sched_state where
  "sample_state = \<lparr>
     ses = (\<lambda>e. if e = 3 then sample_se None 0 (Some 1) else if e = 4 then sample_se (Some 3) 1 None else sample_se None 0 None),
     cfs_rqs = sample_cfs,
     tgs = (\<lambda>t. \<lparr>tg_se = (\<lambda>_. if t = 1 then Some 3 else None), tg_cfs_rq = (\<lambda>_. t), tg_shares = 1024, tg_load_avg = 0,
       tg_runnable_avg = 0, tg_usage_avg = 0, tg_parent = (if t = 1 then Some 0 else None)\<rparr>),
     rqs = sample_rq, tasks = (\<lambda>_. sample_task),
     sysctl_sched_latency = 6000000, sysctl_sched_min_granularity = 750000, sysctl_sched_wakeup_granularity = 1000000,
     sched_nr_latency = 8, sysctl_sched_child_runs_first = 0,
     nohz_idle_cpus_mask = (\<lambda>_. False), hmp_multiplier = 65536, hmp_curr_scale = (\<lambda>_. None), hmp_up_prio = 125\<rparr>"

lemmas sample_defs = sample_state_def sample_se_def sample_cfs_def sample_rq_def sample_task_def zero_avg_def zero_stats_def

theorem find_matching_se_correct_witness:
  "\<exists>a b. find_matching_se sample_state 4 1 = Some (a, b) \<and> a \<in> {4, 3} \<and> b = 1"
  using find_matching_se_correct [of sample_state 4 "[4, 3]" 1 "[1]"]
  by (auto simp: for_each_sched_entity_def ancestors_Some parent_entity_def is_same_group_def sample_defs)

end
