(* ===== verification/CFS_Timeline.thy ===== *)
theory CFS_Timeline
  imports Sched_State
begin

text \<open>
  The timeline of a CFS run queue (\<open>__enqueue_entity\<close>, \<open>__dequeue_entity\<close>, \<open>__pick_first_entity\<close>,
  \<open>__pick_next_entity\<close> and \<open>update_min_vruntime\<close> of \<open>kernel/sched/fair.c\<close>): a red-black tree keyed by
  virtual runtime with a cached leftmost node.

  The locale \<open>timeline\<close> is the contract the scheduling code relies on: insertion and removal on a
  sequence of entities ordered by virtual runtime.  It is interpreted by the kernel's red-black tree
  with the leftmost cache, and the lemmas proved from the contract are what the picking and
  placement results use.
\<close>

subsection \<open>Operations\<close>

definition entity_before :: "sched_state \<Rightarrow> nat \<Rightarrow> nat \<Rightarrow> bool" where
  "entity_before st a b = vruntime_before (se_vruntime (ses st a)) (se_vruntime (ses st b))"

text \<open>The descent of \<open>__enqueue_entity\<close>, with its \<open>leftmost\<close> flag.\<close>

fun find_link :: "(nat \<Rightarrow> u64) \<Rightarrow> nat \<Rightarrow> nat rb_node \<Rightarrow> nat rb_frame list \<Rightarrow> bool \<Rightarrow> nat rb_frame list \<times> bool" where
  "find_link v se NIL fs lm = (fs, lm)"
| "find_link v se (Node c l entry r) fs lm =
     (if vruntime_before (v se) (v entry) then find_link v se l (LeftOf c entry r # fs) lm
      else find_link v se r (RightOf c l entry # fs) False)"

type_synonym tree_cache = "nat rb_node \<times> nat option"

fun tree_insert :: "(nat \<Rightarrow> u64) \<Rightarrow> nat \<Rightarrow> tree_cache \<Rightarrow> tree_cache option" where
  "tree_insert v se (root, cached) = do {
     let (fs, lm) = find_link v se root [] True;
     root' \<leftarrow> rb_insert_color (rb_link_node se) fs;
     Some (root', if lm then Some se else cached) }"

fun tree_erase :: "nat \<Rightarrow> tree_cache \<Rightarrow> tree_cache option" where
  "tree_erase se (root, cached) = do {
     let next_node = (if cached = Some se then rb_next se root else cached);
     root' \<leftarrow> rb_erase se root;
     Some (root', next_node) }"

definition timeline_of :: "cfs_rq \<Rightarrow> tree_cache" where
  "timeline_of q = (cfs_tasks_timeline q, cfs_rb_leftmost q)"

definition set_timeline :: "tree_cache \<Rightarrow> cfs_rq \<Rightarrow> cfs_rq" where
  "set_timeline tc q = q\<lparr>cfs_tasks_timeline := fst tc, cfs_rb_leftmost := snd tc\<rparr>"

definition enqueue_entity_tree :: "nat \<Rightarrow> nat \<Rightarrow> sched_state \<Rightarrow> sched_state option" where
  "enqueue_entity_tree c se st = do {
     tc \<leftarrow> tree_insert (\<lambda>e. se_vruntime (ses st e)) se (timeline_of (cfs_rqs st c));
     Some (upd_cfs c (set_timeline tc) st) }"

definition dequeue_entity_tree :: "nat \<Rightarrow> nat \<Rightarrow> sched_state \<Rightarrow> sched_state option" where
  "dequeue_entity_tree c se st = do {
     tc \<leftarrow> tree_erase se (timeline_of (cfs_rqs st c));
     Some (upd_cfs c (set_timeline tc) st) }"

definition pick_first_entity :: "sched_state \<Rightarrow> nat \<Rightarrow> nat option" where
  "pick_first_entity st c = cfs_rb_leftmost (cfs_rqs st c)"

definition pick_next_in_tree :: "sched_state \<Rightarrow> nat \<Rightarrow> nat option" where
  "pick_next_in_tree st se = rb_next se (cfs_tasks_timeline (cfs_rqs st (se_cfs_rq (ses st se))))"

definition update_min_vruntime :: "nat \<Rightarrow> sched_state \<Rightarrow> sched_state" where
  "update_min_vruntime c st =
     (let q = cfs_rqs st c;
          vruntime = (case cfs_curr q of None \<Rightarrow> cfs_min_vruntime q | Some cur \<Rightarrow> se_vruntime (ses st cur));
          vruntime = (case cfs_rb_leftmost q of
              None \<Rightarrow> vruntime
            | Some se \<Rightarrow> (if cfs_curr q = None then se_vruntime (ses st se)
                          else min_vruntime vruntime (se_vruntime (ses st se))))
      in upd_cfs c (\<lambda>q. q\<lparr>cfs_min_vruntime := max_vruntime (cfs_min_vruntime q) vruntime\<rparr>) st)"

subsection \<open>The timeline contract\<close>

text \<open>Sequences ordered by virtual runtime inside one half-range window, and the place of a new
  entity: after every entity that is not later.\<close>

definition vsorted :: "u64 \<Rightarrow> (nat \<Rightarrow> u64) \<Rightarrow> nat list \<Rightarrow> bool" where
  "vsorted base v xs \<longleftrightarrow> sorted (map (\<lambda>x. vpos base (v x)) xs) \<and> (\<forall>x\<in>set xs. in_window base (v x))"

definition vinsert :: "u64 \<Rightarrow> (nat \<Rightarrow> u64) \<Rightarrow> nat \<Rightarrow> nat list \<Rightarrow> nat list" where
  "vinsert base v x xs =
     filter (\<lambda>y. vpos base (v y) \<le> vpos base (v x)) xs @ x # filter (\<lambda>y. vpos base (v x) < vpos base (v y)) xs"

lemma vsorted_split:
  assumes "sorted (map f (xs @ ys))" "\<forall>y\<in>set xs. f y \<le> k" "\<forall>y\<in>set ys. k < (f y :: nat)"
  shows "filter (\<lambda>y. f y \<le> k) (xs @ ys) = xs" "filter (\<lambda>y. k < f y) (xs @ ys) = ys"
  using assms by (auto simp: filter_empty_conv filter_id_conv not_le not_less intro!: filter_True)

lemma vsorted_vinsert:
  assumes "vsorted base v xs" "in_window base (v x)"
  shows "vsorted base v (vinsert base v x xs)"
proof -
  let ?p = "\<lambda>y. vpos base (v y)"
  have "sorted (map ?p (filter P xs))" for P using assms(1) by (simp add: vsorted_def sorted_filter)
  then show ?thesis using assms by (auto simp: vsorted_def vinsert_def sorted_append)
qed

lemma set_vinsert: "set (vinsert base v x xs) = insert x (set xs)"
  by (auto simp: vinsert_def)

lemma distinct_vinsert: "distinct xs \<Longrightarrow> x \<notin> set xs \<Longrightarrow> distinct (vinsert base v x xs)"
  by (auto simp: vinsert_def)

lemma length_vinsert: "length (vinsert base v x xs) = Suc (length xs)"
proof -
  have "length (filter (\<lambda>y. vpos base (v y) \<le> vpos base (v x)) xs)
      + length (filter (\<lambda>y. \<not> vpos base (v y) \<le> vpos base (v x)) xs) = length xs"
    by (rule sum_length_filter_compl)
  then show ?thesis by (simp add: vinsert_def not_le)
qed

lemma vsorted_remove1: "vsorted base v xs \<Longrightarrow> vsorted base v (remove1 x xs)"
  by (auto simp: vsorted_def sorted_map_remove1 dest: notin_set_remove1 set_mp [OF set_remove1_subset])

locale timeline =
  fixes ins :: "(nat \<Rightarrow> u64) \<Rightarrow> nat \<Rightarrow> 't \<Rightarrow> 't option"
    and del :: "nat \<Rightarrow> 't \<Rightarrow> 't option"
    and leftmost_of :: "'t \<Rightarrow> nat option"
    and seq :: "'t \<Rightarrow> nat list"
    and inv :: "'t \<Rightarrow> bool"
  assumes ins_total: "inv t \<Longrightarrow> x \<notin> set (seq t) \<Longrightarrow> \<exists>t'. ins v x t = Some t'"
    and ins_inv: "inv t \<Longrightarrow> x \<notin> set (seq t) \<Longrightarrow> ins v x t = Some t' \<Longrightarrow> inv t'"
    and ins_seq: "inv t \<Longrightarrow> x \<notin> set (seq t) \<Longrightarrow> ins v x t = Some t' \<Longrightarrow>
      \<exists>xs ys. seq t = xs @ ys \<and> seq t' = xs @ x # ys"
    and ins_sorted: "inv t \<Longrightarrow> x \<notin> set (seq t) \<Longrightarrow> ins v x t = Some t' \<Longrightarrow>
      vsorted base v (seq t) \<Longrightarrow> in_window base (v x) \<Longrightarrow> seq t' = vinsert base v x (seq t)"
    and del_total: "inv t \<Longrightarrow> x \<in> set (seq t) \<Longrightarrow> \<exists>t'. del x t = Some t'"
    and del_inv: "inv t \<Longrightarrow> x \<in> set (seq t) \<Longrightarrow> del x t = Some t' \<Longrightarrow> inv t'"
    and del_seq: "inv t \<Longrightarrow> x \<in> set (seq t) \<Longrightarrow> del x t = Some t' \<Longrightarrow> seq t' = remove1 x (seq t)"
    and leftmost_seq: "inv t \<Longrightarrow> leftmost_of t = first_of (seq t)"
    and seq_distinct: "inv t \<Longrightarrow> distinct (seq t)"
begin

lemma leftmost_min:
  assumes "inv t" "vsorted base v (seq t)" "leftmost_of t = Some x" "y \<in> set (seq t)"
  shows "vpos base (v x) \<le> vpos base (v y)"
  using assms by (cases "seq t") (auto simp: leftmost_seq vsorted_def)

lemma leftmost_exists: "inv t \<Longrightarrow> seq t \<noteq> [] \<Longrightarrow> \<exists>x. leftmost_of t = Some x \<and> x \<in> set (seq t)"
  by (cases "seq t") (auto simp: leftmost_seq)

lemma ins_set:
  assumes "inv t" "x \<notin> set (seq t)" "ins v x t = Some t'"
  shows "set (seq t') = insert x (set (seq t))" "length (seq t') = Suc (length (seq t))"
  using ins_seq [OF assms] by auto

lemma del_set:
  assumes "inv t" "x \<in> set (seq t)" "del x t = Some t'"
  shows "set (seq t') = set (seq t) - {x}" "Suc (length (seq t')) = length (seq t)"
  using del_seq [OF assms] seq_distinct [OF assms(1)] assms(2)
  by (auto simp: length_remove1 dest: length_pos_if_in_set)

lemma ins_vsorted:
  assumes "inv t" "x \<notin> set (seq t)" "ins v x t = Some t'" "vsorted base v (seq t)" "in_window base (v x)"
  shows "vsorted base v (seq t')"
  using ins_sorted [OF assms] vsorted_vinsert [OF assms(4,5)] by simp

text \<open>Inserting an entity and removing it again gives back the sequence.\<close>

lemma ins_del:
  assumes "inv t" "x \<notin> set (seq t)" "ins v x t = Some t'"
  shows "\<exists>t''. del x t' = Some t'' \<and> inv t'' \<and> seq t'' = seq t"
proof -
  obtain xs ys where s: "seq t = xs @ ys" "seq t' = xs @ x # ys" using ins_seq [OF assms] by blast
  have i: "inv t'" using ins_inv [OF assms] .
  moreover have "x \<in> set (seq t')" using s by simp
  ultimately obtain t'' where d: "del x t' = Some t''" using del_total by blast
  have "seq t'' = remove1 x (seq t')" using del_seq [OF i _ d] s by simp
  moreover have "x \<notin> set xs" using assms(2) s by simp
  ultimately have "seq t'' = seq t" using s by (simp add: remove1_append)
  moreover have "inv t''" using del_inv [OF i _ d] s by simp
  ultimately show ?thesis using d by simp
qed

text \<open>An entity whose virtual runtime is not before everyone else's is not picked first.\<close>

lemma ins_leftmost:
  assumes "inv t" "x \<notin> set (seq t)" "ins v x t = Some t'" "vsorted base v (seq t)" "in_window base (v x)"
  shows "leftmost_of t' = Some x \<longleftrightarrow> (\<forall>y\<in>set (seq t). vpos base (v x) < vpos base (v y))"
proof -
  have s: "seq t' = vinsert base v x (seq t)" using ins_sorted [OF assms] .
  have l: "leftmost_of t' = first_of (vinsert base v x (seq t))"
    using leftmost_seq [OF ins_inv [OF assms(1-3)]] s by simp
  let ?le = "filter (\<lambda>y. vpos base (v y) \<le> vpos base (v x)) (seq t)"
  show ?thesis
  proof (cases ?le)
    case Nil
    then show ?thesis using l by (auto simp: vinsert_def filter_empty_conv not_le)
  next
    case (Cons z zs)
    then have "z \<in> set ?le" by simp
    then have "z \<in> set (seq t)" "vpos base (v z) \<le> vpos base (v x)" by auto
    then show ?thesis using l Cons assms(2) by (auto simp: vinsert_def not_less)
  qed
qed

end

subsection \<open>The red-black tree implements the contract\<close>

lemma find_link_path:
  "find_link v x t fs lm = (gs, lm') \<Longrightarrow>
   \<exists>hs. gs = hs @ fs \<and> plug NIL gs = plug t fs \<and> inorder t = before hs @ after hs \<and> (lm' \<longleftrightarrow> lm \<and> before hs = [])"
proof (induction t arbitrary: fs lm)
  case NIL
  then show ?case by auto
next
  case (Node c l a r)
  show ?case
  proof (cases "vruntime_before (v x) (v a)")
    case True
    with Node.prems Node.IH(1) [of "LeftOf c a r # fs" lm]
    obtain hs where "gs = hs @ LeftOf c a r # fs" "plug NIL gs = plug l (LeftOf c a r # fs)"
        "inorder l = before hs @ after hs" "lm' \<longleftrightarrow> lm \<and> before hs = []" by auto
    then show ?thesis by (intro exI [of _ "hs @ [LeftOf c a r]"]) simp
  next
    case False
    with Node.prems Node.IH(2) [of "RightOf c l a # fs" False]
    obtain hs where "gs = hs @ RightOf c l a # fs" "plug NIL gs = plug r (RightOf c l a # fs)"
        "inorder r = before hs @ after hs" "\<not> lm'" by auto
    then show ?thesis by (intro exI [of _ "hs @ [RightOf c l a]"]) simp
  qed
qed

lemma find_link_sorted:
  assumes "find_link v x t fs lm = (hs @ fs, lm')" "vsorted base v (inorder t)" "in_window base (v x)"
  shows "(\<forall>y\<in>set (before hs). vpos base (v y) \<le> vpos base (v x)) \<and>
    (\<forall>y\<in>set (after hs). vpos base (v x) < vpos base (v y))"
  using assms
proof (induction t arbitrary: fs lm hs)
  case (Node c l a r)
  have w: "in_window base (v a)" "vsorted base v (inorder l)" "vsorted base v (inorder r)"
      "\<And>y. y \<in> set (inorder l) \<Longrightarrow> vpos base (v y) \<le> vpos base (v a)"
      "\<And>y. y \<in> set (inorder r) \<Longrightarrow> vpos base (v a) \<le> vpos base (v y)"
    using Node.prems(2) by (auto simp: vsorted_def sorted_append)
  show ?case
  proof (cases "vruntime_before (v x) (v a)")
    case True
    then have lt: "vpos base (v x) < vpos base (v a)" using vruntime_before_vpos [OF Node.prems(3) w(1)] by simp
    have f: "find_link v x l (LeftOf c a r # fs) lm = (hs @ fs, lm')" using Node.prems(1) True by simp
    then obtain ks where "hs @ fs = ks @ LeftOf c a r # fs" using find_link_path [OF f] by blast
    then have hs: "hs = ks @ [LeftOf c a r]" by simp
    with Node.IH(1) [of "LeftOf c a r # fs" lm ks] f w(2) Node.prems(3) lt w(5)
    show ?thesis by (auto intro: less_le_trans)
  next
    case False
    then have le: "vpos base (v a) \<le> vpos base (v x)" using vruntime_before_vpos [OF Node.prems(3) w(1)] by simp
    have f: "find_link v x r (RightOf c l a # fs) False = (hs @ fs, lm')" using Node.prems(1) False by simp
    then obtain ks where "hs @ fs = ks @ RightOf c l a # fs" using find_link_path [OF f] by blast
    then have hs: "hs = ks @ [RightOf c l a]" by simp
    with Node.IH(2) [of "RightOf c l a # fs" False ks] f w(3) Node.prems(3) le w(4)
    show ?thesis by (auto intro: order_trans)
  qed
qed simp

definition tree_seq :: "tree_cache \<Rightarrow> nat list" where
  "tree_seq tc = inorder (fst tc)"

definition tree_inv :: "tree_cache \<Rightarrow> bool" where
  "tree_inv tc \<longleftrightarrow> rbt (fst tc) \<and> distinct (inorder (fst tc)) \<and> snd tc = first_of (inorder (fst tc))"

lemma tree_insert_ok:
  assumes "tree_inv tc" "x \<notin> set (tree_seq tc)"
  obtains tc' xs ys where "tree_insert v x tc = Some tc'" "tree_inv tc'" "tree_seq tc = xs @ ys" "tree_seq tc' = xs @ x # ys"
    "\<And>base. vsorted base v (tree_seq tc) \<Longrightarrow> in_window base (v x) \<Longrightarrow>
       (\<forall>y\<in>set xs. vpos base (v y) \<le> vpos base (v x)) \<and> (\<forall>y\<in>set ys. vpos base (v x) < vpos base (v y))"
proof -
  obtain root cached where tc: "tc = (root, cached)" by fastforce
  obtain fs lm where f: "find_link v x root [] True = (fs, lm)" by fastforce
  from find_link_path [OF f] have p: "plug NIL fs = root" "inorder root = before fs @ after fs" "lm \<longleftrightarrow> before fs = []"
    by auto
  have r: "rbt (plug NIL fs)" using assms(1) tc p by (simp add: tree_inv_def)
  obtain root' where i: "rb_insert_color (rb_link_node x) fs = Some root'" "rbt root'"
      "inorder root' = before fs @ x # after fs" using rb_insert_ok [OF r] by blast
  let ?tc = "(root', if lm then Some x else cached)"
  have "tree_insert v x tc = Some ?tc" using f i by (simp add: tc)
  moreover have "tree_inv ?tc"
    using assms i p by (cases "before fs") (auto simp: tree_inv_def tree_seq_def tc)
  moreover have "tree_seq tc = before fs @ after fs" "tree_seq ?tc = before fs @ x # after fs"
    using p i by (simp_all add: tree_seq_def tc)
  moreover have "(\<forall>y\<in>set (before fs). vpos base (v y) \<le> vpos base (v x)) \<and> (\<forall>y\<in>set (after fs). vpos base (v x) < vpos base (v y))"
    if "vsorted base v (tree_seq tc)" "in_window base (v x)" for base
    using find_link_sorted [of v x root "[]" True fs lm base] f that by (simp add: tree_seq_def tc)
  ultimately show thesis using that by blast
qed

lemma tree_erase_ok:
  assumes "tree_inv tc" "x \<in> set (tree_seq tc)"
  shows "\<exists>tc'. tree_erase x tc = Some tc' \<and> tree_inv tc' \<and> tree_seq tc' = remove1 x (tree_seq tc)"
proof -
  obtain root cached where tc: "tc = (root, cached)" by fastforce
  have inv: "rbt root" "distinct (inorder root)" "cached = first_of (inorder root)" "x \<in> set (inorder root)"
    using assms by (simp_all add: tc tree_inv_def tree_seq_def)
  obtain root' where e: "rb_erase x root = Some root'" "rbt root'" "inorder root' = remove1 x (inorder root)"
    using rb_erase_ok [OF inv(1,2,4)] by blast
  obtain xs ys where s: "inorder root = xs @ x # ys" "x \<notin> set xs" using split_list_first [OF inv(4)] by blast
  have n: "rb_next x root = first_of ys" by (rule rb_next_inorder [OF s(1) inv(2)])
  have "(if cached = Some x then rb_next x root else cached) = first_of (remove1 x (inorder root))"
    using s inv(3) n by (cases xs) (auto simp: remove1_append)
  with e inv(2) show ?thesis by (auto simp: tc tree_inv_def tree_seq_def)
qed

interpretation tl: timeline tree_insert tree_erase snd tree_seq tree_inv
proof unfold_locales
  fix t :: tree_cache and x :: nat and v :: "nat \<Rightarrow> u64" and t' :: tree_cache and base :: u64
  assume a: "tree_inv t"
  show "snd t = first_of (tree_seq t)" "distinct (tree_seq t)"
    using a by (simp_all add: tree_inv_def tree_seq_def)
  {
    assume x: "x \<notin> set (tree_seq t)"
    obtain t1 xs ys where t1: "tree_insert v x t = Some t1" "tree_inv t1" "tree_seq t = xs @ ys" "tree_seq t1 = xs @ x # ys"
      "\<And>base. vsorted base v (tree_seq t) \<Longrightarrow> in_window base (v x) \<Longrightarrow>
       (\<forall>y\<in>set xs. vpos base (v y) \<le> vpos base (v x)) \<and> (\<forall>y\<in>set ys. vpos base (v x) < vpos base (v y))"
      by (rule tree_insert_ok [OF a x, of v]) blast
    show "\<exists>t'. tree_insert v x t = Some t'" using t1(1) by simp
    assume "tree_insert v x t = Some t'"
    with t1 have t': "tree_inv t'" "tree_seq t' = xs @ x # ys" by simp_all
    then show "tree_inv t'" "\<exists>xs ys. tree_seq t = xs @ ys \<and> tree_seq t' = xs @ x # ys" using t1(3) by auto
    assume s: "vsorted base v (tree_seq t)" "in_window base (v x)"
    have "filter (\<lambda>y. vpos base (v y) \<le> vpos base (v x)) (xs @ ys) = xs"
      "filter (\<lambda>y. vpos base (v x) < vpos base (v y)) (xs @ ys) = ys"
      using vsorted_split [of "\<lambda>y. vpos base (v y)" xs ys "vpos base (v x)"] t1(5) [OF s] s(1)
      unfolding t1(3) vsorted_def by blast+
    with t' show "tree_seq t' = vinsert base v x (tree_seq t)" by (simp add: vinsert_def t1(3))
  }
  {
    assume x: "x \<in> set (tree_seq t)"
    from tree_erase_ok [OF a x] show "\<exists>t'. tree_erase x t = Some t'" by blast
    assume "tree_erase x t = Some t'"
    with tree_erase_ok [OF a x] show "tree_inv t'" "tree_seq t' = remove1 x (tree_seq t)" by auto
  }
qed

subsection \<open>The timeline of a run queue\<close>

definition queued :: "sched_state \<Rightarrow> nat \<Rightarrow> nat list" where
  "queued st c = tree_seq (timeline_of (cfs_rqs st c))"

definition timeline_ok :: "sched_state \<Rightarrow> nat \<Rightarrow> bool" where
  "timeline_ok st c \<longleftrightarrow> tree_inv (timeline_of (cfs_rqs st c))"

abbreviation vruntimes :: "sched_state \<Rightarrow> nat \<Rightarrow> u64" where
  "vruntimes st \<equiv> \<lambda>e. se_vruntime (ses st e)"

lemma timeline_of_set [simp]: "timeline_of (set_timeline tc q) = tc"
  by (simp add: timeline_of_def set_timeline_def)

lemma set_timeline_simps [simp]:
  "cfs_nr_running (set_timeline tc q) = cfs_nr_running q" "cfs_curr (set_timeline tc q) = cfs_curr q"
  "cfs_min_vruntime (set_timeline tc q) = cfs_min_vruntime q" "cfs_load (set_timeline tc q) = cfs_load q"
  "cfs_rq_cpu (set_timeline tc q) = cfs_rq_cpu q"
  by (simp_all add: set_timeline_def)

lemma timeline_ok_distinct: "timeline_ok st c \<Longrightarrow> distinct (queued st c)"
  using tl.seq_distinct by (simp add: timeline_ok_def queued_def)

lemma pick_first_queued: "timeline_ok st c \<Longrightarrow> pick_first_entity st c = first_of (queued st c)"
  using tl.leftmost_seq [of "timeline_of (cfs_rqs st c)"]
  by (simp add: timeline_ok_def queued_def pick_first_entity_def timeline_of_def)

lemma enqueue_entity_tree_ok:
  assumes "timeline_ok st c" "se \<notin> set (queued st c)"
  obtains tc where "enqueue_entity_tree c se st = Some (upd_cfs c (set_timeline tc) st)"
    "tree_insert (vruntimes st) se (timeline_of (cfs_rqs st c)) = Some tc" "tree_inv tc"
    "set (tree_seq tc) = insert se (set (queued st c))" "length (tree_seq tc) = Suc (length (queued st c))"
proof -
  let ?t = "timeline_of (cfs_rqs st c)"
  have a: "tree_inv ?t" "se \<notin> set (tree_seq ?t)" using assms by (simp_all add: timeline_ok_def queued_def)
  obtain tc where tc: "tree_insert (vruntimes st) se ?t = Some tc" using tl.ins_total [OF a] by blast
  show thesis
    by (rule that [of tc]) (use tc tl.ins_set [OF a tc] tl.ins_inv [OF a tc] in
      \<open>simp_all add: enqueue_entity_tree_def queued_def\<close>)
qed

lemma dequeue_entity_tree_ok:
  assumes "timeline_ok st c" "se \<in> set (queued st c)"
  obtains tc where "dequeue_entity_tree c se st = Some (upd_cfs c (set_timeline tc) st)"
    "tree_erase se (timeline_of (cfs_rqs st c)) = Some tc" "tree_inv tc" "tree_seq tc = remove1 se (queued st c)"
proof -
  let ?t = "timeline_of (cfs_rqs st c)"
  have a: "tree_inv ?t" "se \<in> set (tree_seq ?t)" using assms by (simp_all add: timeline_ok_def queued_def)
  obtain tc where tc: "tree_erase se ?t = Some tc" using tl.del_total [OF a] by blast
  show thesis
    by (rule that [of tc]) (use tc tl.del_seq [OF a tc] tl.del_inv [OF a tc] in
      \<open>simp_all add: dequeue_entity_tree_def queued_def\<close>)
qed

text \<open>C17. The red-black timeline refines a list ordered by virtual runtime: \<open>__enqueue_entity\<close>
  succeeds, keeps the tree and its leftmost cache well formed, and inserts the entity behind every
  queued entity whose virtual runtime is not later (first in, first out among equals) and before
  every later one.  Nothing else changes: the new state is the old one with another tree and another
  leftmost entity in this one queue.\<close>

theorem enqueue_refines_sorted_list:
  assumes "timeline_ok st c" "se \<notin> set (queued st c)"
    "vsorted base (vruntimes st) (queued st c)" "in_window base (se_vruntime (ses st se))"
  shows "\<exists>st'. enqueue_entity_tree c se st = Some st' \<and> timeline_ok st' c \<and>
    queued st' c = vinsert base (vruntimes st) se (queued st c) \<and>
    vsorted base (vruntimes st') (queued st' c) \<and>
    st' = st\<lparr>cfs_rqs := (cfs_rqs st)(c := (cfs_rqs st c)\<lparr>
      cfs_tasks_timeline := cfs_tasks_timeline (cfs_rqs st' c), cfs_rb_leftmost := cfs_rb_leftmost (cfs_rqs st' c)\<rparr>)\<rparr>"
proof -
  obtain tc where tc: "enqueue_entity_tree c se st = Some (upd_cfs c (set_timeline tc) st)"
    "tree_insert (vruntimes st) se (timeline_of (cfs_rqs st c)) = Some tc" "tree_inv tc"
    using enqueue_entity_tree_ok [OF assms(1,2)] by metis
  have a: "tree_inv (timeline_of (cfs_rqs st c))" "se \<notin> set (tree_seq (timeline_of (cfs_rqs st c)))"
    "vsorted base (vruntimes st) (tree_seq (timeline_of (cfs_rqs st c)))"
    using assms by (simp_all add: timeline_ok_def queued_def)
  let ?s = "upd_cfs c (set_timeline tc) st"
  have "?s = st\<lparr>cfs_rqs := (cfs_rqs st)(c := (cfs_rqs st c)\<lparr>
      cfs_tasks_timeline := cfs_tasks_timeline (cfs_rqs ?s c), cfs_rb_leftmost := cfs_rb_leftmost (cfs_rqs ?s c)\<rparr>)\<rparr>"
    by (simp add: upd_cfs_def set_timeline_def)
  moreover have "timeline_ok ?s c \<and> queued ?s c = vinsert base (vruntimes st) se (queued st c) \<and>
      vsorted base (vruntimes ?s) (queued ?s c)"
    using tc tl.ins_sorted [OF a(1,2) tc(2) a(3) assms(4)] tl.ins_vsorted [OF a(1,2) tc(2) a(3) assms(4)]
    by (simp add: timeline_ok_def queued_def)
  ultimately show ?thesis using tc(1) by blast
qed

text \<open>The sample state with entities 1 and 2 at virtual runtimes 10 and 5.\<close>

definition two_tasks :: sched_state where
  "two_tasks = upd_se 1 (\<lambda>e. e\<lparr>se_vruntime := 10\<rparr>) (upd_se 2 (\<lambda>e. e\<lparr>se_vruntime := 5\<rparr>)
     (upd_cfs 0 (\<lambda>q. q\<lparr>cfs_tasks_timeline := Node RB_BLACK NIL 1 NIL, cfs_rb_leftmost := Some 1\<rparr>) sample_state))"

lemma two_tasks_simps:
  "timeline_ok two_tasks 0" "queued two_tasks 0 = [1]" "vruntimes two_tasks 1 = 10" "vruntimes two_tasks 2 = 5"
  "vruntimes two_tasks (Suc 0) = 10" "cfs_rb_leftmost (cfs_rqs two_tasks 0) = Some 1" "cfs_curr (cfs_rqs two_tasks 0) = None"
  "cfs_min_vruntime (cfs_rqs two_tasks 0) = 0"
  by (simp_all add: two_tasks_def sample_defs timeline_ok_def queued_def tree_inv_def tree_seq_def timeline_of_def rbt_def)

theorem enqueue_refines_sorted_list_witness:
  "\<exists>st'. enqueue_entity_tree 0 2 two_tasks = Some st' \<and> queued st' 0 = [2, 1]"
  using enqueue_refines_sorted_list [of two_tasks 0 2 0]
  by (auto simp: two_tasks_simps vsorted_def in_window_def vpos_def vinsert_def)

text \<open>C18. Enqueueing an entity and dequeueing it again gives back the same sequence of queued
  entities and the same leftmost entity, for any virtual runtimes.\<close>

theorem enqueue_dequeue_roundtrip:
  assumes "timeline_ok st c" "se \<notin> set (queued st c)"
  shows "\<exists>st1 st2. enqueue_entity_tree c se st = Some st1 \<and> dequeue_entity_tree c se st1 = Some st2 \<and>
    timeline_ok st2 c \<and> queued st2 c = queued st c \<and> pick_first_entity st2 c = pick_first_entity st c"
proof -
  have a: "tree_inv (timeline_of (cfs_rqs st c))" "se \<notin> set (tree_seq (timeline_of (cfs_rqs st c)))"
    using assms by (simp_all add: timeline_ok_def queued_def)
  obtain tc where tc: "enqueue_entity_tree c se st = Some (upd_cfs c (set_timeline tc) st)"
    "tree_insert (vruntimes st) se (timeline_of (cfs_rqs st c)) = Some tc"
    using enqueue_entity_tree_ok [OF assms] by metis
  obtain t2 where t2: "tree_erase se tc = Some t2" "tree_inv t2" "tree_seq t2 = tree_seq (timeline_of (cfs_rqs st c))"
    using tl.ins_del [OF a tc(2)] by blast
  let ?st1 = "upd_cfs c (set_timeline tc) st"
  have d: "dequeue_entity_tree c se ?st1 = Some (upd_cfs c (set_timeline t2) ?st1)"
    using t2(1) by (simp add: dequeue_entity_tree_def)
  have ok: "timeline_ok (upd_cfs c (set_timeline t2) ?st1) c" "queued (upd_cfs c (set_timeline t2) ?st1) c = queued st c"
    using t2 by (simp_all add: timeline_ok_def queued_def)
  show ?thesis using tc(1) d ok pick_first_queued [OF ok(1)] pick_first_queued [OF assms(1)] by simp
qed

theorem enqueue_dequeue_roundtrip_witness:
  "\<exists>st1 st2. enqueue_entity_tree 0 2 two_tasks = Some st1 \<and> dequeue_entity_tree 0 2 st1 = Some st2 \<and> queued st2 0 = [1]"
  using enqueue_dequeue_roundtrip [of two_tasks 0 2] by (auto simp: two_tasks_simps)

definition contenders :: "sched_state \<Rightarrow> nat \<Rightarrow> nat list" where
  "contenders st c = (case cfs_curr (cfs_rqs st c) of None \<Rightarrow> [] | Some e \<Rightarrow> [e]) @ queued st c"

lemma queued_window:
  "timeline_ok st c \<Longrightarrow> vsorted base (vruntimes st) (queued st c) \<Longrightarrow> cfs_rb_leftmost (cfs_rqs st c) = Some x \<Longrightarrow>
   x \<in> set (queued st c) \<and> in_window base (vruntimes st x) \<and>
   Min ((\<lambda>e. vpos base (vruntimes st e)) ` set (queued st c)) = vpos base (vruntimes st x)"
  using pick_first_queued [of st c] unfolding pick_first_entity_def
  by (cases "queued st c") (auto simp: vsorted_def intro!: Min_eqI)

lemma contender_min:
  assumes "timeline_ok st c" "vsorted base (vruntimes st) (queued st c)"
    "\<And>e. cfs_curr (cfs_rqs st c) = Some e \<Longrightarrow> in_window base (vruntimes st e)"
    "contenders st c \<noteq> []"
  shows "\<exists>v. update_min_vruntime c st = upd_cfs c (\<lambda>q. q\<lparr>cfs_min_vruntime := max_vruntime (cfs_min_vruntime q) v\<rparr>) st \<and>
    in_window base v \<and> vpos base v = Min ((\<lambda>e. vpos base (vruntimes st e)) ` set (contenders st c))"
proof (cases "cfs_rb_leftmost (cfs_rqs st c)")
  case None
  then have "queued st c = []" using pick_first_queued [OF assms(1)] by (cases "queued st c") (simp_all add: pick_first_entity_def)
  with None assms(3,4) show ?thesis by (auto simp: update_min_vruntime_def contenders_def split: option.splits)
next
  case (Some x)
  note x = queued_window [OF assms(1,2) Some]
  show ?thesis
  proof (cases "cfs_curr (cfs_rqs st c)")
    case None
    with Some x show ?thesis by (auto simp: update_min_vruntime_def contenders_def)
  next
    case (Some e)
    from x have ne: "(\<lambda>e. vpos base (vruntimes st e)) ` set (queued st c) \<noteq> {}" by auto
    show ?thesis
      using x Some assms(3) [OF Some] \<open>cfs_rb_leftmost _ = Some x\<close> ne
        min_vruntime_vpos [of base "vruntimes st e" "vruntimes st x"]
      by (auto simp: update_min_vruntime_def contenders_def)
  qed
qed

text \<open>C22. The queue clock: \<open>update_min_vruntime\<close> never moves \<open>min_vruntime\<close> backwards, and moves it no
  further than the earliest entity: within a window, the new value is the larger of the old one and
  the smallest virtual runtime among the running and the queued entities.\<close>

theorem update_min_vruntime_clock:
  assumes "timeline_ok st c" "vsorted base (vruntimes st) (queued st c)" "in_window base (cfs_min_vruntime (cfs_rqs st c))"
    "\<And>e. cfs_curr (cfs_rqs st c) = Some e \<Longrightarrow> in_window base (vruntimes st e)"
  shows "let old = cfs_min_vruntime (cfs_rqs st c); new = cfs_min_vruntime (cfs_rqs (update_min_vruntime c st) c) in
    \<not> vruntime_before new old \<and>
    (contenders st c = [] \<longrightarrow> new = old) \<and>
    (contenders st c \<noteq> [] \<longrightarrow>
       vpos base new = max (vpos base old) (Min ((\<lambda>e. vpos base (vruntimes st e)) ` set (contenders st c))))"
proof (cases "contenders st c = []")
  case True
  then have e: "queued st c = []" "cfs_curr (cfs_rqs st c) = None" by (auto simp: contenders_def split: option.splits)
  then have "cfs_rb_leftmost (cfs_rqs st c) = None" using pick_first_queued [OF assms(1)] by (simp add: pick_first_entity_def)
  with True e show ?thesis by (simp add: update_min_vruntime_def max_vruntime_def Let_def vruntime_before_def s64_neg_unat)
next
  case False
  obtain v where v: "update_min_vruntime c st = upd_cfs c (\<lambda>q. q\<lparr>cfs_min_vruntime := max_vruntime (cfs_min_vruntime q) v\<rparr>) st"
    "in_window base v" "vpos base v = Min ((\<lambda>e. vpos base (vruntimes st e)) ` set (contenders st c))"
    using contender_min [OF assms(1,2,4) False] by blast
  have m: "vpos base (max_vruntime (cfs_min_vruntime (cfs_rqs st c)) v) = max (vpos base (cfs_min_vruntime (cfs_rqs st c))) (vpos base v)"
    "in_window base (max_vruntime (cfs_min_vruntime (cfs_rqs st c)) v)"
    using max_vruntime_vpos [OF assms(3) v(2)] by simp_all
  then show ?thesis using False v vruntime_before_vpos [OF m(2) assms(3)] by (simp add: Let_def)
qed

theorem update_min_vruntime_clock_witness:
  "vpos 0 (cfs_min_vruntime (cfs_rqs (update_min_vruntime 0 two_tasks) 0)) = 10"
  using update_min_vruntime_clock [of two_tasks 0 0]
  by (simp add: two_tasks_simps contenders_def vsorted_def in_window_def vpos_def Let_def)

end
