(* ===== verification/Pelt_Entity.thy ===== *)
theory Pelt_Entity
  imports CFS_Timeline
begin

text \<open>
  Per-entity load tracking on the scheduler state (\<open>kernel/sched/fair.c\<close>, from
  \<open>__synchronize_entity_decay\<close> to \<open>idle_exit_fair\<close>, and the leaf list of run queues): how the sums of
  the load-tracking arithmetic become load contributions of entities, run queues and task groups.

  The two accounting results are that \<open>runnable_load_avg\<close> of a run queue is the sum of the load
  contributions of the entities accounted on it, and that \<open>load_avg_ratio\<close> of a CPU, which the HMP
  code balances by, is the sum of the ratios of its entities.  The relation \<open>queue_view\<close> says that
  none of these operations touches the queues themselves.
\<close>

subsection \<open>Operations\<close>

definition upd_avg :: "nat \<Rightarrow> (sched_avg \<Rightarrow> sched_avg) \<Rightarrow> sched_state \<Rightarrow> sched_state" where
  "upd_avg se f st = upd_se se (\<lambda>e. e\<lparr>se_avg := f (se_avg e)\<rparr>) st"

definition upd_rq_avg :: "nat \<Rightarrow> (sched_avg \<Rightarrow> sched_avg) \<Rightarrow> sched_state \<Rightarrow> sched_state" where
  "upd_rq_avg cpu f st = upd_rq cpu (\<lambda>r. r\<lparr>rq_avg := f (rq_avg r)\<rparr>) st"

definition upd_cfs_avg :: "nat \<Rightarrow> (sched_avg \<Rightarrow> sched_avg) \<Rightarrow> sched_state \<Rightarrow> sched_state" where
  "upd_cfs_avg c f st = upd_cfs c (\<lambda>q. q\<lparr>cfs_avg := f (cfs_avg q)\<rparr>) st"

definition cfs_rq_clock_task :: "sched_state \<Rightarrow> nat \<Rightarrow> u64" where
  "cfs_rq_clock_task st c = rq_clock_task (rqs st (rq_of st c))"

definition task_low_priority :: "sched_state \<Rightarrow> int \<Rightarrow> bool" where
  "task_low_priority st prio = (hmp_up_prio st \<le> prio mod 4294967296)"

definition abs64 :: "s64 \<Rightarrow> s64" where
  "abs64 x = (if s64_neg x then - x else x)"

definition synchronize_entity_decay :: "nat \<Rightarrow> sched_state \<Rightarrow> u64 \<times> sched_state" where
  "synchronize_entity_decay se st =
     (let decays = cfs_decay_counter (cfs_rqs st (cfs_rq_of st se)) - decay_count (se_avg (ses st se));
          st = (if decays \<noteq> 0
                then upd_avg se (\<lambda>a. a\<lparr>load_avg_contrib := decay_load (load_avg_contrib a) decays\<rparr>) st
                else st)
      in (decays, upd_avg se (\<lambda>a. a\<lparr>decay_count := 0\<rparr>) st))"

definition update_cfs_rq_tg_load_contrib :: "nat \<Rightarrow> bool \<Rightarrow> sched_state \<Rightarrow> sched_state" where
  "update_cfs_rq_tg_load_contrib c force_update st =
     (let q = cfs_rqs st c;
          tg_contrib = cfs_runnable_load_avg q + cfs_blocked_load_avg q - cfs_tg_load_contrib q
      in if force_update \<or> cfs_tg_load_contrib q div 8 < abs64 tg_contrib
         then upd_cfs c (\<lambda>q. q\<lparr>cfs_tg_load_contrib := cfs_tg_load_contrib q + tg_contrib\<rparr>)
               (upd_tg (cfs_tg q) (\<lambda>t. t\<lparr>tg_load_avg := tg_load_avg t + tg_contrib\<rparr>) st)
         else st)"

definition update_tg_runnable_avg :: "sched_avg \<Rightarrow> nat \<Rightarrow> sched_state \<Rightarrow> sched_state" where
  "update_tg_runnable_avg sa c st =
     (let q = cfs_rqs st c;
          contrib = (ucast (push_bit 10 (runnable_avg_sum sa)) :: s64) div ucast (runnable_avg_period sa + 1);
          contrib = contrib - ucast (cfs_tg_runnable_contrib q);
          usage_contrib = (ucast (push_bit 10 (usage_avg_sum sa)) :: s64) div ucast (runnable_avg_period sa + 1);
          usage_contrib = usage_contrib - ucast (cfs_tg_usage_contrib q)
      in if sint (abs64 contrib) > uint (cfs_tg_runnable_contrib q div 64) \<or>
            sint (abs64 usage_contrib) > uint (cfs_tg_usage_contrib q div 64)
         then upd_cfs c (\<lambda>q. q\<lparr>cfs_tg_runnable_contrib := cfs_tg_runnable_contrib q + ucast contrib,
                                cfs_tg_usage_contrib := cfs_tg_usage_contrib q + ucast usage_contrib\<rparr>)
               (upd_tg (cfs_tg q) (\<lambda>t. t\<lparr>tg_runnable_avg := tg_runnable_avg t + ucast contrib,
                                        tg_usage_avg := tg_usage_avg t + ucast usage_contrib\<rparr>) st)
         else st)"

text \<open>\<open>__update_group_entity_contrib\<close>; the run queue \<open>c\<close> is the one the entity owns.\<close>

definition update_group_entity_contrib :: "nat \<Rightarrow> nat \<Rightarrow> sched_state \<Rightarrow> sched_state" where
  "update_group_entity_contrib se c st =
     (let q = cfs_rqs st c;
          tg = tgs st (cfs_tg q);
          contrib = cfs_tg_load_contrib q * tg_shares tg div (tg_load_avg tg + 1);
          runnable_avg = tg_runnable_avg tg;
          contrib = (if sint runnable_avg < 1024 then drop_bit 10 (contrib * scast runnable_avg) else contrib)
      in upd_avg se (\<lambda>a. a\<lparr>load_avg_contrib := contrib\<rparr>) st)"

definition update_task_entity_contrib :: "nat \<Rightarrow> sched_state \<Rightarrow> sched_state" where
  "update_task_entity_contrib se st =
     (let e = ses st se;
          contrib = (ucast (ucast (runnable_avg_sum (se_avg e)) * weight (se_load e)) :: u32);
          contrib = contrib div (runnable_avg_period (se_avg e) + 1)
      in upd_avg se (\<lambda>a. a\<lparr>load_avg_contrib := ucast contrib\<rparr>) st)"

text \<open>Returns the change of the contribution and, through its pointer argument, of the ratio, which
  this function does not recompute.\<close>

definition update_entity_load_avg_contrib :: "nat \<Rightarrow> sched_state \<Rightarrow> s64 \<times> s64 \<times> sched_state" where
  "update_entity_load_avg_contrib se st =
     (let old_contrib = load_avg_contrib (se_avg (ses st se));
          old_ratio = load_avg_ratio (se_avg (ses st se));
          st = (case group_cfs_rq st se of
                  None \<Rightarrow> update_task_entity_contrib se st
                | Some c \<Rightarrow> update_group_entity_contrib se c (update_tg_runnable_avg (se_avg (ses st se)) c st))
      in (load_avg_contrib (se_avg (ses st se)) - old_contrib, load_avg_ratio (se_avg (ses st se)) - old_ratio, st))"

definition update_task_entity_ratio :: "nat \<Rightarrow> sched_state \<Rightarrow> s64 \<times> sched_state" where
  "update_task_entity_ratio se st =
     (let sa = se_avg (ses st se);
          ratio = (ucast ((ucast (runnable_avg_sum sa) :: u64) * 1024) :: u32);
          ratio = ratio div (runnable_avg_period sa + 1)
      in (ucast ratio - load_avg_ratio sa, upd_avg se (\<lambda>a. a\<lparr>load_avg_ratio := ucast ratio\<rparr>) st))"

definition subtract_blocked_load_contrib :: "nat \<Rightarrow> s64 \<Rightarrow> sched_state \<Rightarrow> sched_state" where
  "subtract_blocked_load_contrib c load_contrib st =
     upd_cfs c (\<lambda>q. q\<lparr>cfs_blocked_load_avg :=
       (if load_contrib < cfs_blocked_load_avg q then cfs_blocked_load_avg q - load_contrib else 0)\<rparr>) st"

definition update_entity_load_avg :: "nat \<Rightarrow> bool \<Rightarrow> sched_state \<Rightarrow> sched_state" where
  "update_entity_load_avg se update_cfs_rq st =
     (let c = cfs_rq_of st se;
          now = (case group_cfs_rq st se of None \<Rightarrow> cfs_rq_clock_task st c | Some q \<Rightarrow> cfs_rq_clock_task st q);
          (decayed, sa) = update_entity_runnable_avg (hmp_multiplier st) (hmp_curr_scale st (rq_of st c)) now
             (se_avg (ses st se)) (se_on_rq (ses st se)) (cfs_curr (cfs_rqs st c) = Some se);
          st = upd_avg se (\<lambda>_. sa) st
      in if \<not> decayed then st
         else
           (let (contrib_delta, ratio_delta, st) = update_entity_load_avg_contrib se st;
                (ratio_delta, st) =
                  (if entity_is_task st se then update_task_entity_ratio se st else (ratio_delta, st))
            in if \<not> update_cfs_rq then st
               else if se_on_rq (ses st se)
               then upd_rq_avg (rq_of st c) (\<lambda>a. a\<lparr>load_avg_ratio := load_avg_ratio a + ratio_delta,
                                                    load_avg_contrib := load_avg_contrib a + contrib_delta\<rparr>)
                     (upd_cfs c (\<lambda>q. q\<lparr>cfs_runnable_load_avg := cfs_runnable_load_avg q + contrib_delta\<rparr>) st)
               else subtract_blocked_load_contrib c (- contrib_delta) st))"

definition update_cfs_rq_blocked_load :: "nat \<Rightarrow> bool \<Rightarrow> sched_state \<Rightarrow> sched_state" where
  "update_cfs_rq_blocked_load c force_update st =
     (let now = drop_bit 20 (cfs_rq_clock_task st c);
          decays = now - cfs_last_decay (cfs_rqs st c)
      in if decays = 0 \<and> \<not> force_update then st
         else
           (let removed_load = cfs_removed_load (cfs_rqs st c);
                st = (if removed_load \<noteq> 0
                      then subtract_blocked_load_contrib c removed_load (upd_cfs c (\<lambda>q. q\<lparr>cfs_removed_load := 0\<rparr>) st)
                      else st);
                st = (if decays \<noteq> 0
                      then upd_cfs c (\<lambda>q. q\<lparr>cfs_blocked_load_avg := decay_load (cfs_blocked_load_avg q) decays,
                             cfs_decay_counter := cfs_decay_counter q + decays, cfs_last_decay := now\<rparr>) st
                      else st)
            in update_cfs_rq_tg_load_contrib c force_update st))"

definition update_rq_runnable_avg :: "nat \<Rightarrow> bool \<Rightarrow> sched_state \<Rightarrow> sched_state" where
  "update_rq_runnable_avg cpu runnable st =
     (let (_, sa) = update_entity_runnable_avg (hmp_multiplier st) (hmp_curr_scale st cpu)
             (rq_clock_task (rqs st cpu)) (rq_avg (rqs st cpu)) runnable runnable
      in update_tg_runnable_avg sa (rq_cfs (rqs st cpu)) (upd_rq_avg cpu (\<lambda>_. sa) st))"

text \<open>The first part of \<open>enqueue_entity_load_avg\<close>: bring the decay of the entity up to date.  The
  result says whether the entity is still a wake-up on its old CPU.\<close>

definition enqueue_sync :: "nat \<Rightarrow> nat \<Rightarrow> bool \<Rightarrow> sched_state \<Rightarrow> bool \<times> sched_state" where
  "enqueue_sync cpu se wakeup st =
     (let dc = decay_count (se_avg (ses st se)) in
      if sint dc \<le> 0 then
        (let st = upd_avg se (\<lambda>a. a\<lparr>last_runnable_update := rq_clock_task (rqs st cpu)\<rparr>) st in
         if dc \<noteq> 0 then
           (let st = upd_avg se (\<lambda>a. a\<lparr>last_runnable_update := last_runnable_update a - push_bit 20 (- dc)\<rparr>) st;
                st = update_entity_load_avg se False st
            in (False, upd_avg se (\<lambda>a. a\<lparr>decay_count := 0\<rparr>) st))
         else (False, st))
      else (wakeup, snd (synchronize_entity_decay se st)))"

definition enqueue_entity_load_avg :: "nat \<Rightarrow> nat \<Rightarrow> bool \<Rightarrow> sched_state \<Rightarrow> sched_state" where
  "enqueue_entity_load_avg c se wakeup st =
     (let cpu = rq_of st c;
          (wakeup, st) = enqueue_sync cpu se wakeup st;
          st = (if wakeup
                then update_entity_load_avg se False
                       (subtract_blocked_load_contrib c (load_avg_contrib (se_avg (ses st se))) st)
                else st);
          st = upd_cfs c (\<lambda>q. q\<lparr>cfs_runnable_load_avg := cfs_runnable_load_avg q + load_avg_contrib (se_avg (ses st se))\<rparr>) st;
          st = upd_rq_avg cpu (\<lambda>a. a\<lparr>load_avg_ratio := load_avg_ratio a + load_avg_ratio (se_avg (ses st se))\<rparr>) st;
          st = upd_cfs_avg (rq_cfs (rqs st cpu)) (\<lambda>a. a\<lparr>nr_pending := 0, pending_load := 0\<rparr>) st;
          st = (if \<not> task_low_priority st (p_prio (tasks st (task_of se)))
                then upd_cfs_avg (rq_cfs (rqs st cpu)) (\<lambda>a. a\<lparr>nr_normal_prio := nr_normal_prio a + 1\<rparr>) st
                else st)
      in update_cfs_rq_blocked_load c (\<not> wakeup) st)"

definition dequeue_entity_load_avg :: "nat \<Rightarrow> nat \<Rightarrow> bool \<Rightarrow> sched_state \<Rightarrow> sched_state" where
  "dequeue_entity_load_avg c se sleep st =
     (let cpu = rq_of st c;
          st = update_entity_load_avg se True st;
          st = update_cfs_rq_blocked_load c (\<not> sleep) st;
          st = upd_cfs c (\<lambda>q. q\<lparr>cfs_runnable_load_avg := cfs_runnable_load_avg q - load_avg_contrib (se_avg (ses st se))\<rparr>) st;
          st = upd_rq_avg cpu (\<lambda>a. a\<lparr>load_avg_ratio := load_avg_ratio a - load_avg_ratio (se_avg (ses st se))\<rparr>) st;
          st = upd_cfs_avg (rq_cfs (rqs st cpu)) (\<lambda>a. a\<lparr>nr_dequeuing_low_prio := 0\<rparr>) st;
          st = (if \<not> task_low_priority st (p_prio (tasks st (task_of se)))
                then upd_cfs_avg (rq_cfs (rqs st cpu)) (\<lambda>a. a\<lparr>nr_normal_prio := nr_normal_prio a - 1\<rparr>) st
                else st)
      in if sleep
         then upd_avg se (\<lambda>a. a\<lparr>decay_count := cfs_decay_counter (cfs_rqs st c)\<rparr>)
               (upd_cfs c (\<lambda>q. q\<lparr>cfs_blocked_load_avg := cfs_blocked_load_avg q + load_avg_contrib (se_avg (ses st se))\<rparr>) st)
         else st)"

definition idle_enter_fair :: "nat \<Rightarrow> sched_state \<Rightarrow> sched_state" where
  "idle_enter_fair this_rq st = update_rq_runnable_avg this_rq True st"

definition idle_exit_fair :: "nat \<Rightarrow> sched_state \<Rightarrow> sched_state" where
  "idle_exit_fair this_rq st = update_rq_runnable_avg this_rq False st"

text \<open>The list of leaf run queues of a CPU: a queue goes before its parent.\<close>

definition list_add_leaf_cfs_rq :: "nat \<Rightarrow> sched_state \<Rightarrow> sched_state" where
  "list_add_leaf_cfs_rq c st =
     (if cfs_on_list (cfs_rqs st c) then st
      else
        (let cpu = rq_of st c;
             parent_listed = (case tg_parent (tgs st (cfs_tg (cfs_rqs st c))) of
                 None \<Rightarrow> False
               | Some p \<Rightarrow> cfs_on_list (cfs_rqs st (tg_cfs_rq (tgs st p) cpu)));
             st = upd_rq cpu (\<lambda>r. r\<lparr>rq_leaf_cfs_rq_list :=
                    (if parent_listed then c # rq_leaf_cfs_rq_list r else rq_leaf_cfs_rq_list r @ [c])\<rparr>) st;
             st = upd_cfs c (\<lambda>q. q\<lparr>cfs_on_list := True\<rparr>) st
         in update_cfs_rq_blocked_load c False st))"

definition list_del_leaf_cfs_rq :: "nat \<Rightarrow> sched_state \<Rightarrow> sched_state" where
  "list_del_leaf_cfs_rq c st =
     (if cfs_on_list (cfs_rqs st c)
      then upd_cfs c (\<lambda>q. q\<lparr>cfs_on_list := False\<rparr>)
            (upd_rq (rq_of st c) (\<lambda>r. r\<lparr>rq_leaf_cfs_rq_list := remove1 c (rq_leaf_cfs_rq_list r)\<rparr>) st)
      else st)"

lemmas pelt_upd_defs = upd_avg_def upd_rq_avg_def upd_cfs_avg_def

lemma upd_avg_simps [simp]:
  "ses (upd_avg se f st) = (ses st)(se := (ses st se)\<lparr>se_avg := f (se_avg (ses st se))\<rparr>)"
  "cfs_rqs (upd_avg se f st) = cfs_rqs st" "tgs (upd_avg se f st) = tgs st" "rqs (upd_avg se f st) = rqs st"
  "tasks (upd_avg se f st) = tasks st"
  by (simp_all add: upd_avg_def)

lemma upd_rq_avg_simps [simp]:
  "ses (upd_rq_avg cpu f st) = ses st" "cfs_rqs (upd_rq_avg cpu f st) = cfs_rqs st" "tgs (upd_rq_avg cpu f st) = tgs st"
  "rqs (upd_rq_avg cpu f st) = (rqs st)(cpu := (rqs st cpu)\<lparr>rq_avg := f (rq_avg (rqs st cpu))\<rparr>)"
  "tasks (upd_rq_avg cpu f st) = tasks st"
  by (simp_all add: upd_rq_avg_def)

lemma upd_cfs_avg_simps [simp]:
  "ses (upd_cfs_avg c f st) = ses st" "tgs (upd_cfs_avg c f st) = tgs st" "rqs (upd_cfs_avg c f st) = rqs st"
  "cfs_rqs (upd_cfs_avg c f st) = (cfs_rqs st)(c := (cfs_rqs st c)\<lparr>cfs_avg := f (cfs_avg (cfs_rqs st c))\<rparr>)"
  "tasks (upd_cfs_avg c f st) = tasks st"
  by (simp_all add: upd_cfs_avg_def)


subsection \<open>Frames\<close>

text \<open>What the load-tracking operations leave alone: everything but the averages.\<close>

definition se_part :: "sched_entity \<Rightarrow> sched_entity" where
  "se_part e = e\<lparr>se_avg := zero_avg\<rparr>"

definition cfs_part :: "cfs_rq \<Rightarrow> cfs_rq" where
  "cfs_part q = q\<lparr>cfs_avg := zero_avg, cfs_runnable_load_avg := 0, cfs_blocked_load_avg := 0, cfs_decay_counter := 0,
     cfs_removed_load := 0, cfs_last_decay := 0, cfs_tg_runnable_contrib := 0, cfs_tg_usage_contrib := 0,
     cfs_tg_load_contrib := 0\<rparr>"

definition tg_part :: "task_group \<Rightarrow> task_group" where
  "tg_part t = t\<lparr>tg_load_avg := 0, tg_runnable_avg := 0, tg_usage_avg := 0\<rparr>"

definition rq_part :: "rq \<Rightarrow> rq" where
  "rq_part r = r\<lparr>rq_avg := zero_avg\<rparr>"

lemmas part_defs = se_part_def cfs_part_def tg_part_def rq_part_def

definition queue_view :: "sched_state \<Rightarrow> sched_state" where
  "queue_view st = st\<lparr>ses := (\<lambda>e. se_part (ses st e)), cfs_rqs := (\<lambda>c. cfs_part (cfs_rqs st c)),
     tgs := (\<lambda>t. tg_part (tgs st t)), rqs := (\<lambda>r. rq_part (rqs st r))\<rparr>"

lemma queue_view_upd:
  "(\<And>x. se_part (f x) = se_part x) \<Longrightarrow> queue_view (upd_se e f st) = queue_view st"
  "(\<And>x. cfs_part (g x) = cfs_part x) \<Longrightarrow> queue_view (upd_cfs c g st) = queue_view st"
  "(\<And>x. tg_part (h x) = tg_part x) \<Longrightarrow> queue_view (upd_tg t h st) = queue_view st"
  "(\<And>x. rq_part (k x) = rq_part x) \<Longrightarrow> queue_view (upd_rq r k st) = queue_view st"
  by (auto simp: queue_view_def upd_defs fun_eq_iff intro!: sched_state.equality)

lemma queue_view_avg [simp]:
  "queue_view (upd_avg se f1 st) = queue_view st" "queue_view (upd_rq_avg cpu f2 st) = queue_view st"
  "queue_view (upd_cfs_avg c f3 st) = queue_view st"
  by (simp_all add: pelt_upd_defs queue_view_upd part_defs)

lemma queue_view_sel:
  "se_load (ses (queue_view st) e) = se_load (ses st e)" "se_on_rq (ses (queue_view st) e) = se_on_rq (ses st e)"
  "se_exec_start (ses (queue_view st) e) = se_exec_start (ses st e)" "se_sum_exec_runtime (ses (queue_view st) e) = se_sum_exec_runtime (ses st e)"
  "se_vruntime (ses (queue_view st) e) = se_vruntime (ses st e)" "se_prev_sum_exec_runtime (ses (queue_view st) e) = se_prev_sum_exec_runtime (ses st e)"
  "se_statistics (ses (queue_view st) e) = se_statistics (ses st e)" "se_parent (ses (queue_view st) e) = se_parent (ses st e)"
  "se_cfs_rq (ses (queue_view st) e) = se_cfs_rq (ses st e)" "se_my_q (ses (queue_view st) e) = se_my_q (ses st e)"
  "cfs_load (cfs_rqs (queue_view st) c) = cfs_load (cfs_rqs st c)" "cfs_nr_running (cfs_rqs (queue_view st) c) = cfs_nr_running (cfs_rqs st c)"
  "cfs_h_nr_running (cfs_rqs (queue_view st) c) = cfs_h_nr_running (cfs_rqs st c)" "cfs_min_vruntime (cfs_rqs (queue_view st) c) = cfs_min_vruntime (cfs_rqs st c)"
  "cfs_tasks_timeline (cfs_rqs (queue_view st) c) = cfs_tasks_timeline (cfs_rqs st c)" "cfs_rb_leftmost (cfs_rqs (queue_view st) c) = cfs_rb_leftmost (cfs_rqs st c)"
  "cfs_curr (cfs_rqs (queue_view st) c) = cfs_curr (cfs_rqs st c)" "cfs_next (cfs_rqs (queue_view st) c) = cfs_next (cfs_rqs st c)"
  "cfs_last (cfs_rqs (queue_view st) c) = cfs_last (cfs_rqs st c)" "cfs_skip (cfs_rqs (queue_view st) c) = cfs_skip (cfs_rqs st c)"
  "cfs_rq_cpu (cfs_rqs (queue_view st) c) = cfs_rq_cpu (cfs_rqs st c)" "cfs_tg (cfs_rqs (queue_view st) c) = cfs_tg (cfs_rqs st c)"
  "cfs_on_list (cfs_rqs (queue_view st) c) = cfs_on_list (cfs_rqs st c)" "tg_se (tgs (queue_view st) t) = tg_se (tgs st t)"
  "tg_cfs_rq (tgs (queue_view st) t) = tg_cfs_rq (tgs st t)" "tg_shares (tgs (queue_view st) t) = tg_shares (tgs st t)"
  "tg_parent (tgs (queue_view st) t) = tg_parent (tgs st t)" "rq_nr_running (rqs (queue_view st) r) = rq_nr_running (rqs st r)"
  "rq_load (rqs (queue_view st) r) = rq_load (rqs st r)" "rq_cfs (rqs (queue_view st) r) = rq_cfs (rqs st r)"
  "rq_cfs_tasks (rqs (queue_view st) r) = rq_cfs_tasks (rqs st r)" "rq_curr (rqs (queue_view st) r) = rq_curr (rqs st r)"
  "rq_clock (rqs (queue_view st) r) = rq_clock (rqs st r)" "rq_clock_task (rqs (queue_view st) r) = rq_clock_task (rqs st r)"
  "rq_leaf_cfs_rq_list (rqs (queue_view st) r) = rq_leaf_cfs_rq_list (rqs st r)" "tasks (queue_view st) = tasks st"
  "tunables (queue_view st) = tunables st"
  by (simp_all add: queue_view_def part_defs tunables_def)

lemma queue_view_eq:
  assumes "queue_view st = queue_view st'"
  shows
  "se_load (ses st e) = se_load (ses st' e)" "se_on_rq (ses st e) = se_on_rq (ses st' e)"
  "se_exec_start (ses st e) = se_exec_start (ses st' e)" "se_sum_exec_runtime (ses st e) = se_sum_exec_runtime (ses st' e)"
  "se_vruntime (ses st e) = se_vruntime (ses st' e)" "se_prev_sum_exec_runtime (ses st e) = se_prev_sum_exec_runtime (ses st' e)"
  "se_statistics (ses st e) = se_statistics (ses st' e)" "se_parent (ses st e) = se_parent (ses st' e)"
  "se_cfs_rq (ses st e) = se_cfs_rq (ses st' e)" "se_my_q (ses st e) = se_my_q (ses st' e)"
  "cfs_load (cfs_rqs st c) = cfs_load (cfs_rqs st' c)" "cfs_nr_running (cfs_rqs st c) = cfs_nr_running (cfs_rqs st' c)"
  "cfs_h_nr_running (cfs_rqs st c) = cfs_h_nr_running (cfs_rqs st' c)" "cfs_min_vruntime (cfs_rqs st c) = cfs_min_vruntime (cfs_rqs st' c)"
  "cfs_tasks_timeline (cfs_rqs st c) = cfs_tasks_timeline (cfs_rqs st' c)" "cfs_rb_leftmost (cfs_rqs st c) = cfs_rb_leftmost (cfs_rqs st' c)"
  "cfs_curr (cfs_rqs st c) = cfs_curr (cfs_rqs st' c)" "cfs_next (cfs_rqs st c) = cfs_next (cfs_rqs st' c)"
  "cfs_last (cfs_rqs st c) = cfs_last (cfs_rqs st' c)" "cfs_skip (cfs_rqs st c) = cfs_skip (cfs_rqs st' c)"
  "cfs_rq_cpu (cfs_rqs st c) = cfs_rq_cpu (cfs_rqs st' c)" "cfs_tg (cfs_rqs st c) = cfs_tg (cfs_rqs st' c)"
  "cfs_on_list (cfs_rqs st c) = cfs_on_list (cfs_rqs st' c)" "tg_se (tgs st t) = tg_se (tgs st' t)"
  "tg_cfs_rq (tgs st t) = tg_cfs_rq (tgs st' t)" "tg_shares (tgs st t) = tg_shares (tgs st' t)"
  "tg_parent (tgs st t) = tg_parent (tgs st' t)" "rq_nr_running (rqs st r) = rq_nr_running (rqs st' r)"
  "rq_load (rqs st r) = rq_load (rqs st' r)" "rq_cfs (rqs st r) = rq_cfs (rqs st' r)"
  "rq_cfs_tasks (rqs st r) = rq_cfs_tasks (rqs st' r)" "rq_curr (rqs st r) = rq_curr (rqs st' r)"
  "rq_clock (rqs st r) = rq_clock (rqs st' r)" "rq_clock_task (rqs st r) = rq_clock_task (rqs st' r)"
  "rq_leaf_cfs_rq_list (rqs st r) = rq_leaf_cfs_rq_list (rqs st' r)" "tasks st = tasks st'"
  "tunables st = tunables st'"
  using assms by (metis queue_view_sel)+


lemma view_task_ratio [simp]: "queue_view (snd (update_task_entity_ratio se st)) = queue_view st"
  by (simp add: update_task_entity_ratio_def Let_def)

lemma view_task_contrib [simp]: "queue_view (update_task_entity_contrib se st) = queue_view st"
  by (simp add: update_task_entity_contrib_def Let_def)

lemma view_tg_load_contrib [simp]: "queue_view (update_cfs_rq_tg_load_contrib c b st) = queue_view st"
  by (simp add: update_cfs_rq_tg_load_contrib_def Let_def queue_view_upd part_defs)

lemma view_tg_runnable [simp]: "queue_view (update_tg_runnable_avg sa c st) = queue_view st"
  by (simp add: update_tg_runnable_avg_def Let_def queue_view_upd part_defs)

lemma view_group_contrib [simp]: "queue_view (update_group_entity_contrib se c st) = queue_view st"
  by (simp add: update_group_entity_contrib_def Let_def)

lemma view_load_avg_contrib [simp]: "queue_view (snd (snd (update_entity_load_avg_contrib se st))) = queue_view st"
  by (simp add: update_entity_load_avg_contrib_def Let_def split: option.split)

lemma view_subtract_blocked [simp]: "queue_view (subtract_blocked_load_contrib c d st) = queue_view st"
  by (simp add: subtract_blocked_load_contrib_def queue_view_upd part_defs)

lemma view_synchronize [simp]: "queue_view (snd (synchronize_entity_decay se st)) = queue_view st"
  by (simp add: synchronize_entity_decay_def Let_def)

text \<open>The arithmetic changes only the sums.\<close>

lemma runnable_avg_keeps:
  "load_avg_contrib (snd (update_entity_runnable_avg m cs now sa rn ru)) = load_avg_contrib sa"
  "load_avg_ratio (snd (update_entity_runnable_avg m cs now sa rn ru)) = load_avg_ratio sa"
  "decay_count (snd (update_entity_runnable_avg m cs now sa rn ru)) = decay_count sa"
  by (simp_all add: update_entity_runnable_avg_def period_rollover_def accrue_def decay_sums_def Let_def)

text \<open>\<open>update_entity_load_avg\<close> taken apart: the averages of the entity change, and the totals of its
  run queue and CPU follow by the same amounts when it is queued and the caller asks for it.\<close>

lemma ses_tg_runnable [simp]: "ses (update_tg_runnable_avg sa c st) = ses st" "rqs (update_tg_runnable_avg sa c st) = rqs st"
  "cfs_runnable_load_avg (cfs_rqs (update_tg_runnable_avg sa c st) d) = cfs_runnable_load_avg (cfs_rqs st d)"
  by (simp_all add: update_tg_runnable_avg_def Let_def)

lemma load_avg_contrib_step:
  "\<exists>st1 v. update_entity_load_avg_contrib se st = (v - load_avg_contrib (se_avg (ses st se)), 0, st1) \<and>
     ses st1 = (ses st)(se := (ses st se)\<lparr>se_avg := (se_avg (ses st se))\<lparr>load_avg_contrib := v\<rparr>\<rparr>) \<and> rqs st1 = rqs st \<and>
     (\<forall>d. cfs_runnable_load_avg (cfs_rqs st1 d) = cfs_runnable_load_avg (cfs_rqs st d)) \<and> queue_view st1 = queue_view st"
proof -
  define st1 where "st1 = (case group_cfs_rq st se of None \<Rightarrow> update_task_entity_contrib se st
    | Some c \<Rightarrow> update_group_entity_contrib se c (update_tg_runnable_avg (se_avg (ses st se)) c st))"
  have v: "queue_view st1 = queue_view st" by (simp add: st1_def split: option.split)
  have s: "\<exists>v. ses st1 = (ses st)(se := (ses st se)\<lparr>se_avg := (se_avg (ses st se))\<lparr>load_avg_contrib := v\<rparr>\<rparr>)"
    unfolding st1_def
    by (cases "group_cfs_rq st se") (auto simp: update_task_entity_contrib_def update_group_entity_contrib_def Let_def)
  have r: "rqs st1 = rqs st" "\<forall>d. cfs_runnable_load_avg (cfs_rqs st1 d) = cfs_runnable_load_avg (cfs_rqs st d)"
    by (simp_all add: st1_def update_task_entity_contrib_def update_group_entity_contrib_def Let_def split: option.split)
  from s obtain v where s: "ses st1 = (ses st)(se := (ses st se)\<lparr>se_avg := (se_avg (ses st se))\<lparr>load_avg_contrib := v\<rparr>\<rparr>)" by blast
  have "update_entity_load_avg_contrib se st = (v - load_avg_contrib (se_avg (ses st se)), 0, st1)"
    unfolding update_entity_load_avg_contrib_def Let_def st1_def [symmetric] by (simp add: s)
  with s r v show ?thesis by blast
qed

definition contrib_of :: "sched_state \<Rightarrow> nat \<Rightarrow> u64" where
  "contrib_of st e = load_avg_contrib (se_avg (ses st e))"

definition ratio_of :: "sched_state \<Rightarrow> nat \<Rightarrow> u64" where
  "ratio_of st e = load_avg_ratio (se_avg (ses st e))"

lemma update_entity_load_avg_step:
  fixes st se b
  defines "st' \<equiv> update_entity_load_avg se b st" and "c \<equiv> cfs_rq_of st se"
  defines "tracked \<equiv> b \<and> se_on_rq (ses st se)"
  shows "queue_view st' = queue_view st"
    and "e \<noteq> se \<Longrightarrow> ses st' e = ses st e"
    and "decay_count (se_avg (ses st' se)) = decay_count (se_avg (ses st se))"
    and "cfs_runnable_load_avg (cfs_rqs st' d) = cfs_runnable_load_avg (cfs_rqs st d) +
      (if tracked \<and> d = c then contrib_of st' se - contrib_of st se else 0)"
    and "load_avg_ratio (rq_avg (rqs st' r)) = load_avg_ratio (rq_avg (rqs st r)) +
      (if tracked \<and> r = rq_of st c then ratio_of st' se - ratio_of st se else 0)"
    and "avg_ok (se_avg (ses st se)) \<Longrightarrow> scale_ok (hmp_curr_scale st (rq_of st c)) \<Longrightarrow>
      (cfs_curr (cfs_rqs st c) = Some se \<longrightarrow> se_on_rq (ses st se)) \<Longrightarrow> avg_ok (se_avg (ses st' se))"
proof -
  let ?now = "case group_cfs_rq st se of None \<Rightarrow> cfs_rq_clock_task st c | Some q \<Rightarrow> cfs_rq_clock_task st q"
  obtain dec sa where u: "update_entity_runnable_avg (hmp_multiplier st) (hmp_curr_scale st (rq_of st c)) ?now
      (se_avg (ses st se)) (se_on_rq (ses st se)) (cfs_curr (cfs_rqs st c) = Some se) = (dec, sa)" by fastforce
  let ?a = "se_avg (ses st se)"
  have sa: "load_avg_contrib sa = load_avg_contrib ?a" "load_avg_ratio sa = load_avg_ratio ?a" "decay_count sa = decay_count ?a"
    using runnable_avg_keeps [where sa = ?a] u by (metis snd_conv)+
  let ?s1 = "upd_avg se (\<lambda>_. sa) st"
  obtain s2 v where s2: "update_entity_load_avg_contrib se ?s1 = (v - load_avg_contrib ?a, 0, s2)"
      "ses s2 = (ses st)(se := (ses st se)\<lparr>se_avg := sa\<lparr>load_avg_contrib := v\<rparr>\<rparr>)" "rqs s2 = rqs st"
      "\<And>d. cfs_runnable_load_avg (cfs_rqs s2 d) = cfs_runnable_load_avg (cfs_rqs st d)" "queue_view s2 = queue_view st"
    using load_avg_contrib_step [of se ?s1] sa by auto
  define s3 where "s3 = (if entity_is_task s2 se then snd (update_task_entity_ratio se s2) else s2)"
  define rd where "rd = (if entity_is_task s2 se then fst (update_task_entity_ratio se s2) else 0)"
  obtain rt where s3: "ses s3 = (ses st)(se := (ses st se)\<lparr>se_avg := sa\<lparr>load_avg_contrib := v, load_avg_ratio := rt\<rparr>\<rparr>)"
      "rd = rt - load_avg_ratio ?a" "rqs s3 = rqs st"
      "\<And>d. cfs_runnable_load_avg (cfs_rqs s3 d) = cfs_runnable_load_avg (cfs_rqs st d)" "queue_view s3 = queue_view st"
  proof (cases "entity_is_task s2 se")
    case True
    let ?rt = "ucast ((ucast ((ucast (runnable_avg_sum sa) :: u64) * 1024) :: u32) div (runnable_avg_period sa + 1)) :: u64"
    have "s3 = upd_avg se (\<lambda>a. a\<lparr>load_avg_ratio := ?rt\<rparr>) s2" "rd = ?rt - load_avg_ratio ?a"
      using True s2(2) sa(2) by (simp_all add: s3_def rd_def update_task_entity_ratio_def Let_def)
    with s2 show ?thesis using that [of ?rt] by simp
  next
    case False
    have "ses s2 = (ses st)(se := (ses st se)\<lparr>se_avg := sa\<lparr>load_avg_contrib := v, load_avg_ratio := load_avg_ratio ?a\<rparr>\<rparr>)"
      using s2(2) sa by (cases sa) simp
    with False s2 show ?thesis using that [of "load_avg_ratio ?a"] unfolding s3_def rd_def by simp
  qed
  have o: "se_on_rq (ses s3 se) = se_on_rq (ses st se)" using s3(1) by simp
  have rqc: "rq_of s3 c = rq_of st c" using queue_view_eq [OF s3(5)] by (simp add: rq_of_def)
  have st': "st' = (if \<not> dec then ?s1 else if \<not> b then s3
      else if se_on_rq (ses s3 se)
      then upd_rq_avg (rq_of s3 c) (\<lambda>a. a\<lparr>load_avg_ratio := load_avg_ratio a + rd,
          load_avg_contrib := load_avg_contrib a + (v - load_avg_contrib ?a)\<rparr>)
        (upd_cfs c (\<lambda>q. q\<lparr>cfs_runnable_load_avg := cfs_runnable_load_avg q + (v - load_avg_contrib ?a)\<rparr>) s3)
      else subtract_blocked_load_contrib c (- (v - load_avg_contrib ?a)) s3)"
    unfolding st'_def update_entity_load_avg_def c_def [symmetric] Let_def u prod.case s2(1)
    by (simp add: s3_def rd_def Let_def split: prod.splits)
  have rq3: "rq_of (upd_cfs c (\<lambda>q. q\<lparr>cfs_runnable_load_avg := cfs_runnable_load_avg q + (v - load_avg_contrib ?a)\<rparr>) s3) c = rq_of st c"
    using rqc by (simp add: rq_of_def)
  show "queue_view st' = queue_view st"
    using s3(5) by (simp add: st' queue_view_upd part_defs)
  show "e \<noteq> se \<Longrightarrow> ses st' e = ses st e"
    using s3(1) by (simp add: st' subtract_blocked_load_contrib_def)
  show "decay_count (se_avg (ses st' se)) = decay_count (se_avg (ses st se))"
    using s3(1) sa by (simp add: st' subtract_blocked_load_contrib_def)
  show "cfs_runnable_load_avg (cfs_rqs st' d) = cfs_runnable_load_avg (cfs_rqs st d) +
      (if tracked \<and> d = c then contrib_of st' se - contrib_of st se else 0)"
    using s3(1,4) o sa by (simp add: st' tracked_def contrib_of_def subtract_blocked_load_contrib_def)
  show "load_avg_ratio (rq_avg (rqs st' r)) = load_avg_ratio (rq_avg (rqs st r)) +
      (if tracked \<and> r = rq_of st c then ratio_of st' se - ratio_of st se else 0)"
    using s3(1,2,3) o sa rqc by (simp add: st' tracked_def ratio_of_def subtract_blocked_load_contrib_def)
  show "avg_ok (se_avg (ses st' se))" if "avg_ok ?a" "scale_ok (hmp_curr_scale st (rq_of st c))"
    "cfs_curr (cfs_rqs st c) = Some se \<longrightarrow> se_on_rq (ses st se)"
  proof -
    have "avg_ok sa" using avg_ok_update [OF that, of "hmp_multiplier st" ?now] u by simp
    then show ?thesis using s3(1) by (simp add: st' subtract_blocked_load_contrib_def avg_ok_def avg_ord_def)
  qed
qed

text \<open>The same for the operations built from it.  \<open>same_totals\<close>: the queues, the other entities and the
  totals are unchanged.\<close>

definition same_totals :: "nat \<Rightarrow> sched_state \<Rightarrow> sched_state \<Rightarrow> bool" where
  "same_totals se st st' \<longleftrightarrow> queue_view st' = queue_view st \<and> (\<forall>e. e \<noteq> se \<longrightarrow> ses st' e = ses st e) \<and>
     (\<forall>d. cfs_runnable_load_avg (cfs_rqs st' d) = cfs_runnable_load_avg (cfs_rqs st d)) \<and>
     (\<forall>r. load_avg_ratio (rq_avg (rqs st' r)) = load_avg_ratio (rq_avg (rqs st r)))"

lemma same_totals_refl [simp]: "same_totals se st st"
  by (simp add: same_totals_def)

lemma same_totals_trans: "same_totals se st st1 \<Longrightarrow> same_totals se st1 st2 \<Longrightarrow> same_totals se st st2"
  by (simp add: same_totals_def)

lemma same_totals_upd_avg [simp]: "same_totals se st (upd_avg se f st)"
  by (simp add: same_totals_def)

lemma same_totals_update: "same_totals se st (update_entity_load_avg se False st)"
  using update_entity_load_avg_step(1,2,4,5) [where se = se and b = False and st = st] by (simp add: same_totals_def)

lemma same_totals_subtract: "same_totals se st (subtract_blocked_load_contrib c d st)"
  by (simp add: same_totals_def) (simp add: subtract_blocked_load_contrib_def)

lemma same_totals_synchronize: "same_totals se st (snd (synchronize_entity_decay se st))"
  by (simp add: same_totals_def) (simp add: synchronize_entity_decay_def Let_def)

lemma same_totals_sync: "same_totals se st (snd (enqueue_sync cpu se w st))"
proof -
  have "same_totals se st (upd_avg se f (update_entity_load_avg se False (upd_avg se g (upd_avg se h st))))" for f g h
    by (meson same_totals_trans same_totals_update same_totals_upd_avg)
  then show ?thesis by (simp add: enqueue_sync_def Let_def same_totals_synchronize)
qed

lemma blocked_load_frame:
  "queue_view (update_cfs_rq_blocked_load c b st) = queue_view st"
  "ses (update_cfs_rq_blocked_load c b st) = ses st" "rqs (update_cfs_rq_blocked_load c b st) = rqs st"
  "cfs_runnable_load_avg (cfs_rqs (update_cfs_rq_blocked_load c b st) d) = cfs_runnable_load_avg (cfs_rqs st d)"
  by (simp_all add: update_cfs_rq_blocked_load_def Let_def queue_view_upd part_defs)
    (simp_all add: update_cfs_rq_tg_load_contrib_def subtract_blocked_load_contrib_def Let_def)

lemma view_blocked_load [simp]: "queue_view (update_cfs_rq_blocked_load c b st) = queue_view st"
  by (rule blocked_load_frame)

lemma enqueue_load_avg_step:
  fixes c se w st
  defines "st' \<equiv> enqueue_entity_load_avg c se w st"
  shows "queue_view st' = queue_view st"
    and "e \<noteq> se \<Longrightarrow> ses st' e = ses st e"
    and "cfs_runnable_load_avg (cfs_rqs st' d) = cfs_runnable_load_avg (cfs_rqs st d) + (if d = c then contrib_of st' se else 0)"
    and "load_avg_ratio (rq_avg (rqs st' r)) = load_avg_ratio (rq_avg (rqs st r)) + (if r = rq_of st c then ratio_of st' se else 0)"
proof -
  obtain w1 s1 where s1: "enqueue_sync (rq_of st c) se w st = (w1, s1)" by fastforce
  define s2 where "s2 = (if w1 then update_entity_load_avg se False
      (subtract_blocked_load_contrib c (load_avg_contrib (se_avg (ses s1 se))) s1) else s1)"
  have "same_totals se st s1" using same_totals_sync [of se st "rq_of st c" w] s1 by simp
  moreover have "same_totals se s1 s2"
    unfolding s2_def by (auto intro: same_totals_trans same_totals_update same_totals_subtract)
  ultimately have t: "same_totals se st s2" by (rule same_totals_trans)
  show "queue_view st' = queue_view st" "e \<noteq> se \<Longrightarrow> ses st' e = ses st e"
    "cfs_runnable_load_avg (cfs_rqs st' d) = cfs_runnable_load_avg (cfs_rqs st d) + (if d = c then contrib_of st' se else 0)"
    "load_avg_ratio (rq_avg (rqs st' r)) = load_avg_ratio (rq_avg (rqs st r)) + (if r = rq_of st c then ratio_of st' se else 0)"
    using t unfolding st'_def enqueue_entity_load_avg_def Let_def s1 prod.case s2_def [symmetric]
    by (simp_all add: same_totals_def queue_view_upd part_defs blocked_load_frame contrib_of_def ratio_of_def)
qed

lemma dequeue_load_avg_step:
  fixes c se sl st
  defines "st' \<equiv> dequeue_entity_load_avg c se sl st"
  assumes "se_on_rq (ses st se)" "c = cfs_rq_of st se"
  shows "queue_view st' = queue_view st"
    and "e \<noteq> se \<Longrightarrow> ses st' e = ses st e"
    and "cfs_runnable_load_avg (cfs_rqs st' d) = cfs_runnable_load_avg (cfs_rqs st d) - (if d = c then contrib_of st se else 0)"
    and "load_avg_ratio (rq_avg (rqs st' r)) = load_avg_ratio (rq_avg (rqs st r)) - (if r = rq_of st c then ratio_of st se else 0)"
proof -
  note u = update_entity_load_avg_step [where se = se and b = True and st = st]
  note f = st'_def dequeue_entity_load_avg_def Let_def
  have a: "x + (y - z) - y = x - z" for x y z :: u64 by simp
  show "queue_view st' = queue_view st" "e \<noteq> se \<Longrightarrow> ses st' e = ses st e"
    using u(1) u(2) [where e = e] unfolding f by (simp_all add: queue_view_upd part_defs blocked_load_frame)
  show "cfs_runnable_load_avg (cfs_rqs st' d) = cfs_runnable_load_avg (cfs_rqs st d) - (if d = c then contrib_of st se else 0)"
    using assms(2,3) unfolding f
    by (cases "d = c") (simp_all add: u(4) blocked_load_frame contrib_of_def a)
  show "load_avg_ratio (rq_avg (rqs st' r)) = load_avg_ratio (rq_avg (rqs st r)) - (if r = rq_of st c then ratio_of st se else 0)"
    using assms(2,3) unfolding f
    by (cases "r = rq_of st c") (simp_all add: u(5) blocked_load_frame ratio_of_def a)
qed

subsection \<open>Accounting\<close>

text \<open>The totals of a CPU account for a set of entities: the load of each run queue is the sum of the
  contributions of its members, and the ratio of the CPU is the sum of their ratios.\<close>

definition accounted :: "sched_state \<Rightarrow> nat \<Rightarrow> nat set \<Rightarrow> bool" where
  "accounted st cpu R \<longleftrightarrow> finite R \<and> (\<forall>e\<in>R. rq_of st (cfs_rq_of st e) = cpu) \<and>
     (\<forall>c. cfs_runnable_load_avg (cfs_rqs st c) = (\<Sum>e | e \<in> R \<and> cfs_rq_of st e = c. contrib_of st e) \<or> rq_of st c \<noteq> cpu) \<and>
     load_avg_ratio (rq_avg (rqs st cpu)) = (\<Sum>e\<in>R. ratio_of st e)"

lemma view_hierarchy:
  assumes "queue_view st' = queue_view st"
  shows "cfs_rq_of st' e = cfs_rq_of st e" "rq_of st' c = rq_of st c"
  using queue_view_eq [OF assms] by (simp_all add: cfs_rq_of_def rq_of_def)

lemma contrib_same: "ses st' e = ses st e \<Longrightarrow> contrib_of st' e = contrib_of st e \<and> ratio_of st' e = ratio_of st e"
  by (simp add: contrib_of_def ratio_of_def)

text \<open>C15. The load totals are exact: when an entity is added, \<open>enqueue_entity_load_avg\<close> makes
  \<open>runnable_load_avg\<close> of its run queue the sum of the contributions of all accounted entities, the new
  one included, and \<open>load_avg_ratio\<close> of the CPU the sum of their ratios, whatever its decay state.\<close>

theorem enqueue_load_accounting:
  assumes "accounted st cpu R" "se \<notin> R" "cfs_rq_of st se = c" "rq_of st c = cpu"
  shows "accounted (enqueue_entity_load_avg c se wakeup st) cpu (insert se R)"
proof -
  let ?st = "enqueue_entity_load_avg c se wakeup st"
  note s = enqueue_load_avg_step [where c = c and se = se and w = wakeup and st = st]
  note h = view_hierarchy [OF s(1)]
  have fin: "finite R" using assms(1) by (simp add: accounted_def)
  have eq: "contrib_of ?st e = contrib_of st e \<and> ratio_of ?st e = ratio_of st e" if "e \<in> R" for e
    using s(2) [of e] assms(2) that by (intro contrib_same) auto
  have rsum: "(\<Sum>e\<in>R. ratio_of ?st e) = (\<Sum>e\<in>R. ratio_of st e)" by (rule sum.cong) (auto simp: eq)
  have csum: "(\<Sum>e | e \<in> R \<and> cfs_rq_of st e = d. contrib_of ?st e) = (\<Sum>e | e \<in> R \<and> cfs_rq_of st e = d. contrib_of st e)" for d
    by (rule sum.cong) (auto simp: eq)
  have ins: "{e. (e = se \<or> e \<in> R) \<and> cfs_rq_of st e = d} =
      (if d = c then insert se {e. e \<in> R \<and> cfs_rq_of st e = d} else {e. e \<in> R \<and> cfs_rq_of st e = d})" for d
    using assms(3) by auto
  show ?thesis
    using assms fin by (auto simp: accounted_def h s(3,4) rsum csum ins add.commute)
qed

text \<open>C16. The converse for removal: \<open>dequeue_entity_load_avg\<close> takes exactly the entity's contribution
  and ratio out of the totals, also when its averages are recomputed on the way.\<close>

theorem dequeue_load_accounting:
  assumes "accounted st cpu R" "se \<in> R" "se_on_rq (ses st se)" "cfs_rq_of st se = c"
  shows "accounted (dequeue_entity_load_avg c se sleep st) cpu (R - {se})"
proof -
  let ?st = "dequeue_entity_load_avg c se sleep st"
  note s = dequeue_load_avg_step [OF assms(3) assms(4) [symmetric], where sl = sleep]
  note h = view_hierarchy [OF s(1)]
  have fin: "finite R" and cpu: "rq_of st c = cpu" using assms by (auto simp: accounted_def)
  have eq: "contrib_of ?st e = contrib_of st e \<and> ratio_of ?st e = ratio_of st e" if "e \<in> R - {se}" for e
    using s(2) [of e] that by (intro contrib_same) auto
  have rsum: "(\<Sum>e\<in>R - {se}. ratio_of ?st e) = (\<Sum>e\<in>R. ratio_of st e) - ratio_of st se"
    using fin assms(2) by (simp add: sum.remove [OF fin assms(2)] eq)
  have csum: "(\<Sum>e | e \<in> R - {se} \<and> cfs_rq_of st e = d. contrib_of ?st e) =
      (\<Sum>e | e \<in> R \<and> cfs_rq_of st e = d. contrib_of st e) - (if d = c then contrib_of st se else 0)" for d
  proof -
    have "(\<Sum>e | e \<in> R - {se} \<and> cfs_rq_of st e = d. contrib_of ?st e) = (\<Sum>e | e \<in> R - {se} \<and> cfs_rq_of st e = d. contrib_of st e)"
      by (rule sum.cong) (auto simp: eq)
    also have "\<dots> = sum (contrib_of st) ({e. e \<in> R \<and> cfs_rq_of st e = d} - {se})" by (rule sum.cong) auto
    also have "\<dots> = sum (contrib_of st) {e. e \<in> R \<and> cfs_rq_of st e = d} - (if d = c then contrib_of st se else 0)"
      using fin assms(2,4) by (simp add: sum_diff1)
    finally show ?thesis .
  qed
  show ?thesis
    unfolding accounted_def
  proof (intro conjI ballI allI)
    show "finite (R - {se})" using fin by simp
    show "rq_of ?st (cfs_rq_of ?st e) = cpu" if "e \<in> R - {se}" for e
      using that assms(1) by (simp add: h accounted_def)
    show "load_avg_ratio (rq_avg (rqs ?st cpu)) = (\<Sum>e\<in>R - {se}. ratio_of ?st e)"
      unfolding rsum s(4) using assms(1) cpu by (simp add: accounted_def)
    show "cfs_runnable_load_avg (cfs_rqs ?st d) = (\<Sum>e | e \<in> R - {se} \<and> cfs_rq_of ?st e = d. contrib_of ?st e) \<or> rq_of ?st d \<noteq> cpu" for d
      unfolding h csum s(3) using assms(1) by (auto simp: accounted_def)
  qed
qed

lemma update_load_accounting:
  assumes "accounted st cpu R" "se \<in> R" "se_on_rq (ses st se)"
  shows "accounted (update_entity_load_avg se True st) cpu R"
proof -
  let ?st = "update_entity_load_avg se True st" and ?c = "cfs_rq_of st se"
  note s = update_entity_load_avg_step [where se = se and b = True and st = st]
  note h = view_hierarchy [OF s(1)]
  have fin: "finite R" and cpu: "rq_of st ?c = cpu" using assms by (auto simp: accounted_def)
  have eq: "contrib_of ?st e = contrib_of st e \<and> ratio_of ?st e = ratio_of st e" if "e \<noteq> se" for e
    using s(2) [OF that] by (rule contrib_same)
  have change: "sum f' S = sum f S + (f' se - f se)" if "finite S" "se \<in> S" "\<And>e. e \<noteq> se \<Longrightarrow> f' e = f e"
    for S and f f' :: "nat \<Rightarrow> u64"
  proof -
    have "sum f' S = f' se + sum f' (S - {se})" "sum f S = f se + sum f (S - {se})"
      using that(1,2) by (simp_all add: sum.remove)
    moreover have "sum f' (S - {se}) = sum f (S - {se})" by (rule sum.cong) (auto simp: that(3))
    ultimately show ?thesis by simp
  qed
  show ?thesis
    unfolding accounted_def
  proof (intro conjI ballI allI)
    show "finite R" by fact
    show "rq_of ?st (cfs_rq_of ?st e) = cpu" if "e \<in> R" for e
      using that assms(1) by (simp add: h accounted_def)
    show "load_avg_ratio (rq_avg (rqs ?st cpu)) = (\<Sum>e\<in>R. ratio_of ?st e)"
      using change [OF fin assms(2), of "ratio_of ?st" "ratio_of st"] eq assms(1,3) cpu
      unfolding s(5) by (simp add: accounted_def)
    show "cfs_runnable_load_avg (cfs_rqs ?st d) = (\<Sum>e | e \<in> R \<and> cfs_rq_of ?st e = d. contrib_of ?st e) \<or> rq_of ?st d \<noteq> cpu" for d
    proof (cases "d = ?c")
      case True
      have "(\<Sum>e | e \<in> R \<and> cfs_rq_of st e = d. contrib_of ?st e) =
          (\<Sum>e | e \<in> R \<and> cfs_rq_of st e = d. contrib_of st e) + (contrib_of ?st se - contrib_of st se)"
        using fin assms(2) True eq by (intro change) auto
      then show ?thesis unfolding h s(4) using assms(1,3) True by (auto simp: accounted_def)
    next
      case False
      have "(\<Sum>e | e \<in> R \<and> cfs_rq_of st e = d. contrib_of ?st e) = (\<Sum>e | e \<in> R \<and> cfs_rq_of st e = d. contrib_of st e)"
        by (rule sum.cong) (use False eq in \<open>auto intro!: eq [THEN conjunct1]\<close>)
      then show ?thesis unfolding h s(4) using assms(1,3) False by (auto simp: accounted_def)
    qed
  qed
qed

subsection \<open>Contributions\<close>

text \<open>C35. The HMP load of a task is a fraction of 1024: after any recomputation, \<open>load_avg_ratio\<close> is
  \<open>\<lfloor>1024 * runnable_avg_sum / (runnable_avg_period + 1)\<rfloor>\<close>, which fits the documented threshold range
  \<open>[0..1023]\<close> and never wraps.\<close>

theorem task_ratio_bounded:
  assumes "avg_ok (se_avg (ses st se))"
  shows "let sa = se_avg (ses st se); r = ratio_of (snd (update_task_entity_ratio se st)) se in
    unat r = 1024 * unat (runnable_avg_sum sa) div (unat (runnable_avg_period sa) + 1) \<and> unat r \<le> 1023"
proof -
  let ?sa = "se_avg (ses st se)"
  have b: "unat (runnable_avg_sum ?sa) \<le> unat (runnable_avg_period ?sa)" "unat (runnable_avg_period ?sa) < 49152"
    using assms by (simp_all add: avg_ok_def avg_ord_def)
  have m: "unat ((ucast (runnable_avg_sum ?sa) :: u64) * 1024) = unat (runnable_avg_sum ?sa) * 1024"
    using b by (subst unat_mult_64) simp_all
  have p: "unat (runnable_avg_period ?sa + 1) = unat (runnable_avg_period ?sa) + 1"
    using b by (subst unat_add_32) simp_all
  have r: "unat (ratio_of (snd (update_task_entity_ratio se st)) se) =
      unat (runnable_avg_sum ?sa) * 1024 div (unat (runnable_avg_period ?sa) + 1)"
    using m p b by (simp add: update_task_entity_ratio_def ratio_of_def Let_def unat_div_word unat_ucast_64_32)
  have "unat (runnable_avg_sum ?sa) * 1024 < 1024 * (unat (runnable_avg_period ?sa) + 1)" using b(1) by simp
  then have "unat (runnable_avg_sum ?sa) * 1024 div (unat (runnable_avg_period ?sa) + 1) < 1024"
    by (simp add: div_less_iff_less_mult)
  with r show ?thesis by (simp add: Let_def mult.commute)
qed

text \<open>C36. The weighted contribution of a task is computed in 32 bits.  It is the exact
  \<open>\<lfloor>runnable_avg_sum * weight / (runnable_avg_period + 1)\<rfloor>\<close>, at most the weight, as long as the product
  fits 32 bits.\<close>

theorem task_contrib_exact:
  assumes "avg_ok (se_avg (ses st se))"
    "unat (runnable_avg_sum (se_avg (ses st se))) * unat (weight (se_load (ses st se))) < 4294967296"
  shows "let sa = se_avg (ses st se); w = unat (weight (se_load (ses st se)));
      k = unat (contrib_of (update_task_entity_contrib se st) se) in
    k = unat (runnable_avg_sum sa) * w div (unat (runnable_avg_period sa) + 1) \<and> k \<le> w"
proof -
  let ?sa = "se_avg (ses st se)" and ?w = "weight (se_load (ses st se))"
  have b: "unat (runnable_avg_sum ?sa) \<le> unat (runnable_avg_period ?sa)" "unat (runnable_avg_period ?sa) < 49152"
    using assms by (simp_all add: avg_ok_def avg_ord_def)
  have m: "unat (ucast (runnable_avg_sum ?sa) * ?w) = unat (runnable_avg_sum ?sa) * unat ?w"
    using assms(2) by (subst unat_mult_64) simp_all
  have p: "unat (runnable_avg_period ?sa + 1) = unat (runnable_avg_period ?sa) + 1"
    using b by (subst unat_add_32) simp_all
  have r: "unat (contrib_of (update_task_entity_contrib se st) se) =
      unat (runnable_avg_sum ?sa) * unat ?w div (unat (runnable_avg_period ?sa) + 1)"
    using m p assms(2) by (simp add: update_task_entity_contrib_def contrib_of_def Let_def unat_div_word unat_ucast_64_32)
  have "unat (runnable_avg_sum ?sa) * unat ?w \<le> (unat (runnable_avg_period ?sa) + 1) * unat ?w"
    using b(1) by (intro mult_le_mono) simp_all
  then have "unat (runnable_avg_sum ?sa) * unat ?w div (unat (runnable_avg_period ?sa) + 1)
      \<le> (unat (runnable_avg_period ?sa) + 1) * unat ?w div (unat (runnable_avg_period ?sa) + 1)"
    by (rule div_le_mono)
  also have "\<dots> = unat ?w" by (rule nonzero_mult_div_cancel_left) simp
  finally have "unat (runnable_avg_sum ?sa) * unat ?w div (unat (runnable_avg_period ?sa) + 1) \<le> unat ?w" .
  with r show ?thesis by (simp add: Let_def)
qed

text \<open>C37. Where the product does not fit, the contribution of a task collapses: for a task of at most the
  weight of nice level \<open>-20\<close> whose product \<open>runnable_avg_sum * weight\<close> reaches \<open>2^32\<close>, the product wraps once.
  The contribution is the quotient of what is left, at most 1399, while the formula gives at least
  87381.  The witness is a task of nice level \<open>-20\<close> that has waited in a queue for 364 ms.\<close>

theorem task_contrib_wraps:
  assumes "avg_ok (se_avg (ses st se))" "unat (weight (se_load (ses st se))) \<le> 88761"
    "4294967296 \<le> unat (runnable_avg_sum (se_avg (ses st se))) * unat (weight (se_load (ses st se)))"
  shows "let sa = se_avg (ses st se); product = unat (runnable_avg_sum sa) * unat (weight (se_load (ses st se)));
      k = unat (contrib_of (update_task_entity_contrib se st) se) in
    k = (product - 4294967296) div (unat (runnable_avg_period sa) + 1) \<and> k \<le> 1399 \<and>
    87381 \<le> product div (unat (runnable_avg_period sa) + 1)"
proof -
  let ?sa = "se_avg (ses st se)" and ?w = "weight (se_load (ses st se))"
  let ?s = "unat (runnable_avg_sum ?sa)" and ?p = "unat (runnable_avg_period ?sa)"
  let ?prod = "?s * unat ?w"
  have b: "?s \<le> ?p" "?p < 49152" using assms(1) by (simp_all add: avg_ok_def avg_ord_def)
  have "?prod \<le> 49151 * 88761" using b assms(2) by (intro mult_le_mono) simp_all
  then have hi: "?prod \<le> 4362691911" by simp
  have m: "unat (ucast (runnable_avg_sum ?sa) * ?w) = ?prod" using hi by (subst unat_mult_64) simp_all
  have p: "unat (runnable_avg_period ?sa + 1) = ?p + 1" using b by (subst unat_add_32) simp_all
  have "?prod mod 4294967296 = ?prod - 4294967296" using assms(3) hi by (simp add: le_mod_geq)
  then have k: "unat (contrib_of (update_task_entity_contrib se st) se) = (?prod - 4294967296) div (?p + 1)"
    using m p by (simp add: update_task_entity_contrib_def contrib_of_def Let_def unat_div_word unat_ucast_64_32)
  have "?prod \<le> ?s * 88761" using assms(2) by (intro mult_le_mono) simp_all
  then have "48388 \<le> ?s" using assms(3) by linarith
  then have "(?prod - 4294967296) div (?p + 1) \<le> 67724615 div 48389" using b hi by (intro div_le_mono_both) linarith+
  moreover have "4294967296 div 49152 \<le> ?prod div (?p + 1)" using b assms(3) by (intro div_le_mono_both) linarith+
  ultimately show ?thesis using k by (simp add: Let_def)
qed

text \<open>A queued task of nice level \<open>-20\<close> with zero averages, before and after an update 364 ms later.\<close>

definition waiting_task :: sched_state where
  "waiting_task = upd_se 1 (\<lambda>e. e\<lparr>se_on_rq := True, se_load := \<lparr>weight = 88761, inv_weight = 48388\<rparr>\<rparr>)
     (upd_rq 0 (\<lambda>r. r\<lparr>rq_clock_task := 363854848\<rparr>) sample_state)"

lemma waiting_task_update:
  "se_avg (ses (upd_se 1 (\<lambda>e. e\<lparr>se_avg := snd (update_entity_runnable_avg 65536 None 363854848 (se_avg e) True False)\<rparr>) waiting_task) 1)
    = (sample_avg 48765 48765 0)\<lparr>last_runnable_update := 363854848\<rparr>"
  using long_wait_avg [of False] by (simp add: waiting_task_def upd_defs sample_defs sample_avg_def)

theorem task_contrib_wraps_witness:
  "let st = upd_se 1 (\<lambda>e. e\<lparr>se_avg := snd (update_entity_runnable_avg 65536 None 363854848 (se_avg e) True False)\<rparr>) waiting_task in
   unat (contrib_of (update_task_entity_contrib 1 st) 1) = 686"
proof -
  let ?st = "upd_se 1 (\<lambda>e. e\<lparr>se_avg := snd (update_entity_runnable_avg 65536 None 363854848 (se_avg e) True False)\<rparr>) waiting_task"
  have w: "weight (se_load (ses ?st 1)) = 88761" by (simp add: waiting_task_def upd_defs)
  have a: "se_avg (ses ?st 1) = (sample_avg 48765 48765 0)\<lparr>last_runnable_update := 363854848\<rparr>" by (rule waiting_task_update)
  have "avg_ok (se_avg (ses ?st 1))" unfolding a by (simp add: avg_ok_def avg_ord_def sample_avg_def)
  from task_contrib_wraps [OF this] show ?thesis unfolding w a Let_def by (simp add: sample_avg_def)
qed

text \<open>The sample state with task 1 queued and accounted.\<close>

definition loaded_state :: sched_state where
  "loaded_state = upd_se 1 (\<lambda>e. e\<lparr>se_on_rq := True, se_avg := (sample_avg 10 20 5)\<lparr>load_avg_contrib := 100, load_avg_ratio := 50\<rparr>\<rparr>)
     (upd_cfs 0 (\<lambda>q. q\<lparr>cfs_runnable_load_avg := 100\<rparr>) (upd_rq_avg 0 (\<lambda>a. a\<lparr>load_avg_ratio := 50\<rparr>) sample_state))"

lemma loaded_state_accounted: "accounted loaded_state 0 {1}" "se_on_rq (ses loaded_state 1)" "cfs_rq_of loaded_state 1 = 0"
    "cfs_rq_of loaded_state 2 = 0" "rq_of loaded_state 0 = 0" "avg_ok (se_avg (ses loaded_state 1))"
proof -
  have "{e. e = Suc 0 \<and> cfs_rq_of loaded_state e = c} = (if c = 0 then {Suc 0} else {})" for c
    by (auto simp: loaded_state_def sample_defs cfs_rq_of_def)
  then show "accounted loaded_state 0 {1}"
    by (auto simp: accounted_def) (auto simp: loaded_state_def sample_defs hierarchy_defs contrib_of_def ratio_of_def)
qed (simp_all add: loaded_state_def sample_defs hierarchy_defs sample_avg_def avg_ok_def avg_ord_def)

theorem enqueue_load_accounting_witness: "accounted (enqueue_entity_load_avg 0 2 True loaded_state) 0 {2, 1}"
  using enqueue_load_accounting [of loaded_state 0 "{1}" 2 0 True] loaded_state_accounted by simp

theorem dequeue_load_accounting_witness: "accounted (dequeue_entity_load_avg 0 1 True loaded_state) 0 {}"
  using dequeue_load_accounting [of loaded_state 0 "{1}" 1 0 True] loaded_state_accounted by simp

theorem task_ratio_bounded_witness: "unat (ratio_of (snd (update_task_entity_ratio 1 loaded_state)) 1) = 487"
  using task_ratio_bounded [of loaded_state 1] loaded_state_accounted(6)
  by (simp add: Let_def) (simp add: loaded_state_def sample_avg_def)

theorem task_contrib_exact_witness: "unat (contrib_of (update_task_entity_contrib 1 loaded_state) 1) = 487"
  using task_contrib_exact [of loaded_state 1] loaded_state_accounted(6)
  by (simp add: Let_def loaded_state_def sample_avg_def sample_defs)

end
