(* ===== verification/CFS_Entity.thy ===== *)
theory CFS_Entity
  imports Pelt_Entity
begin

text \<open>
  The queueing methods of CFS on entities (\<open>kernel/sched/fair.c\<close>): charging the running entity,
  slices, load accounting, group shares, enqueue and dequeue, buddies, picking and the tick.

  The views at the end say which parts of the run queues an operation leaves alone; the invariant
  over them is in the theory \<open>CFS_Invariant\<close>.

  \<open>cpuacct_charge\<close>, \<open>account_group_exec_runtime\<close>, \<open>account_scheduler_latency\<close> and the trace points
  only feed other subsystems and are left out.
\<close>

subsection \<open>Charging the running entity\<close>

definition calc_delta_fair :: "u64 \<Rightarrow> nat \<Rightarrow> sched_state \<Rightarrow> u64 \<times> sched_state" where
  "calc_delta_fair delta se st =
     (if weight (se_load (ses st se)) \<noteq> NICE_0_LOAD
      then (let (d, lw) = calc_delta_mine delta NICE_0_LOAD (se_load (ses st se))
            in (d, upd_se se (\<lambda>e. e\<lparr>se_load := lw\<rparr>) st))
      else (delta, st))"

definition sched_period :: "sched_state \<Rightarrow> u64 \<Rightarrow> u64" where
  "sched_period st nr_running =
     (if ucast (sched_nr_latency st) < nr_running
      then ucast (sysctl_sched_min_granularity st) * nr_running
      else ucast (sysctl_sched_latency st))"

fun slice_loop :: "nat list \<Rightarrow> u64 \<Rightarrow> sched_state \<Rightarrow> u64 \<times> sched_state" where
  "slice_loop [] s st = (s, st)"
| "slice_loop (se # es) s st =
     (let c = cfs_rq_of st se;
          w = weight (se_load (ses st se))
      in if se_on_rq (ses st se)
         then (let (s, lw) = calc_delta_mine s w (cfs_load (cfs_rqs st c))
               in slice_loop es s (upd_cfs c (\<lambda>q. q\<lparr>cfs_load := lw\<rparr>) st))
         else (let (s, _) = calc_delta_mine s w (update_load_add (cfs_load (cfs_rqs st c)) w)
               in slice_loop es s st))"

definition sched_slice :: "nat \<Rightarrow> nat \<Rightarrow> sched_state \<Rightarrow> (u64 \<times> sched_state) option" where
  "sched_slice c se st = do {
     es \<leftarrow> for_each_sched_entity st (Some se);
     let nr = cfs_nr_running (cfs_rqs st c) + (if se_on_rq (ses st se) then 0 else 1);
     Some (slice_loop es (sched_period st (ucast nr)) st) }"

definition sched_vslice :: "nat \<Rightarrow> nat \<Rightarrow> sched_state \<Rightarrow> (u64 \<times> sched_state) option" where
  "sched_vslice c se st = do {
     (s, st) \<leftarrow> sched_slice c se st;
     Some (calc_delta_fair s se st) }"

definition charge_curr :: "nat \<Rightarrow> nat \<Rightarrow> u64 \<Rightarrow> sched_state \<Rightarrow> sched_state" where
  "charge_curr c cur delta_exec st =
     (let st = upd_se cur (\<lambda>e. e\<lparr>se_statistics := (se_statistics e)\<lparr>exec_max := max delta_exec (exec_max (se_statistics e))\<rparr>,
                                 se_sum_exec_runtime := se_sum_exec_runtime e + delta_exec\<rparr>) st;
          st = upd_cfs c (\<lambda>q. q\<lparr>cfs_exec_clock := cfs_exec_clock q + delta_exec\<rparr>) st;
          (delta_exec_weighted, st) = calc_delta_fair delta_exec cur st;
          st = upd_se cur (\<lambda>e. e\<lparr>se_vruntime := se_vruntime e + delta_exec_weighted\<rparr>) st
      in update_min_vruntime c st)"

definition update_curr :: "nat \<Rightarrow> sched_state \<Rightarrow> sched_state" where
  "update_curr c st =
     (case cfs_curr (cfs_rqs st c) of
        None \<Rightarrow> st
      | Some cur \<Rightarrow>
          (let now = rq_clock_task (rqs st (rq_of st c));
               delta_exec = now - se_exec_start (ses st cur)
           in if delta_exec = 0 then st
              else upd_se cur (\<lambda>e. e\<lparr>se_exec_start := now\<rparr>) (charge_curr c cur delta_exec st)))"

subsection \<open>Statistics\<close>

definition upd_stats :: "nat \<Rightarrow> (sched_statistics \<Rightarrow> sched_statistics) \<Rightarrow> sched_state \<Rightarrow> sched_state" where
  "upd_stats se f st = upd_se se (\<lambda>e. e\<lparr>se_statistics := f (se_statistics e)\<rparr>) st"

definition update_stats_wait_start :: "nat \<Rightarrow> nat \<Rightarrow> sched_state \<Rightarrow> sched_state" where
  "update_stats_wait_start c se st = upd_stats se (\<lambda>s. s\<lparr>wait_start := rq_clock (rqs st (rq_of st c))\<rparr>) st"

definition update_stats_enqueue :: "nat \<Rightarrow> nat \<Rightarrow> sched_state \<Rightarrow> sched_state" where
  "update_stats_enqueue c se st =
     (if cfs_curr (cfs_rqs st c) \<noteq> Some se then update_stats_wait_start c se st else st)"

definition update_stats_wait_end :: "nat \<Rightarrow> nat \<Rightarrow> sched_state \<Rightarrow> sched_state" where
  "update_stats_wait_end c se st =
     (let clock = rq_clock (rqs st (rq_of st c))
      in upd_stats se (\<lambda>s. s\<lparr>wait_max := max (wait_max s) (clock - wait_start s), wait_count := wait_count s + 1,
                             wait_sum := wait_sum s + clock - wait_start s, wait_start := 0\<rparr>) st)"

definition update_stats_dequeue :: "nat \<Rightarrow> nat \<Rightarrow> sched_state \<Rightarrow> sched_state" where
  "update_stats_dequeue c se st =
     (if cfs_curr (cfs_rqs st c) \<noteq> Some se then update_stats_wait_end c se st else st)"

definition update_stats_curr_start :: "nat \<Rightarrow> nat \<Rightarrow> sched_state \<Rightarrow> sched_state" where
  "update_stats_curr_start c se st = upd_se se (\<lambda>e. e\<lparr>se_exec_start := rq_clock_task (rqs st (rq_of st c))\<rparr>) st"

text \<open>The sleep and block statistics of \<open>enqueue_sleeper\<close>.\<close>

definition enqueue_sleeper :: "nat \<Rightarrow> nat \<Rightarrow> sched_state \<Rightarrow> sched_state" where
  "enqueue_sleeper c se st =
     (let clock = rq_clock (rqs st (rq_of st c));
          elapsed = (\<lambda>start. let delta = clock - start in if s64_neg delta then 0 else delta);
          st = (if sleep_start (se_statistics (ses st se)) \<noteq> 0
                then upd_stats se (\<lambda>s. let delta = elapsed (sleep_start s) in
                       s\<lparr>sleep_max := (if sleep_max s < delta then delta else sleep_max s), sleep_start := 0,
                         sum_sleep_runtime := sum_sleep_runtime s + delta\<rparr>) st
                else st)
      in if block_start (se_statistics (ses st se)) \<noteq> 0
         then upd_stats se (\<lambda>s. let delta = elapsed (block_start s);
                  io = entity_is_task st se \<and> p_in_iowait (tasks st (task_of se)) in
                s\<lparr>block_max := (if block_max s < delta then delta else block_max s), block_start := 0,
                  sum_sleep_runtime := sum_sleep_runtime s + delta,
                  iowait_sum := (if io then iowait_sum s + delta else iowait_sum s),
                  iowait_count := (if io then iowait_count s + 1 else iowait_count s)\<rparr>) st
         else st)"

subsection \<open>Load accounting and group shares\<close>

definition account_entity_enqueue :: "nat \<Rightarrow> nat \<Rightarrow> sched_state \<Rightarrow> sched_state" where
  "account_entity_enqueue c se st =
     (let w = weight (se_load (ses st se));
          cpu = rq_of st c;
          st = upd_cfs c (\<lambda>q. q\<lparr>cfs_load := update_load_add (cfs_load q) w\<rparr>) st;
          st = (if parent_entity st se = None
                then upd_rq cpu (\<lambda>r. r\<lparr>rq_load := update_load_add (rq_load r) w\<rparr>) st else st);
          st = (if entity_is_task st se then upd_rq cpu (\<lambda>r. r\<lparr>rq_cfs_tasks := se # rq_cfs_tasks r\<rparr>) st else st)
      in upd_cfs c (\<lambda>q. q\<lparr>cfs_nr_running := cfs_nr_running q + 1\<rparr>) st)"

definition account_entity_dequeue :: "nat \<Rightarrow> nat \<Rightarrow> sched_state \<Rightarrow> sched_state" where
  "account_entity_dequeue c se st =
     (let w = weight (se_load (ses st se));
          cpu = rq_of st c;
          st = upd_cfs c (\<lambda>q. q\<lparr>cfs_load := update_load_sub (cfs_load q) w\<rparr>) st;
          st = (if parent_entity st se = None
                then upd_rq cpu (\<lambda>r. r\<lparr>rq_load := update_load_sub (rq_load r) w\<rparr>) st else st);
          st = (if entity_is_task st se then upd_rq cpu (\<lambda>r. r\<lparr>rq_cfs_tasks := remove1 se (rq_cfs_tasks r)\<rparr>) st else st)
      in upd_cfs c (\<lambda>q. q\<lparr>cfs_nr_running := cfs_nr_running q - 1\<rparr>) st)"

definition calc_tg_weight :: "task_group \<Rightarrow> cfs_rq \<Rightarrow> s64" where
  "calc_tg_weight tg q = tg_load_avg tg - cfs_tg_load_contrib q + weight (cfs_load q)"

definition calc_cfs_shares :: "cfs_rq \<Rightarrow> task_group \<Rightarrow> s64" where
  "calc_cfs_shares q tg =
     (let tg_weight = calc_tg_weight tg q;
          shares = tg_shares tg * weight (cfs_load q);
          shares = (if tg_weight \<noteq> 0 then s64_div shares tg_weight else shares);
          shares = (if shares < MIN_SHARES then MIN_SHARES else shares)
      in if tg_shares tg < shares then tg_shares tg else shares)"

definition reweight_entity :: "nat \<Rightarrow> nat \<Rightarrow> u64 \<Rightarrow> sched_state \<Rightarrow> sched_state" where
  "reweight_entity c se w st =
     (let st = (if se_on_rq (ses st se)
                then account_entity_dequeue c se (if cfs_curr (cfs_rqs st c) = Some se then update_curr c st else st)
                else st);
          st = upd_se se (\<lambda>e. e\<lparr>se_load := update_load_set (se_load e) w\<rparr>) st
      in if se_on_rq (ses st se) then account_entity_enqueue c se st else st)"

definition update_cfs_shares :: "nat \<Rightarrow> sched_state \<Rightarrow> sched_state" where
  "update_cfs_shares c st =
     (let tg = cfs_tg (cfs_rqs st c)
      in case tg_se (tgs st tg) (rq_of st c) of
           None \<Rightarrow> st
         | Some se \<Rightarrow> reweight_entity (cfs_rq_of st se) se (calc_cfs_shares (cfs_rqs st c) (tgs st tg)) st)"

subsection \<open>Enqueue and dequeue\<close>

definition ENQUEUE_WAKEUP :: s32 where
  "ENQUEUE_WAKEUP = 1"

definition ENQUEUE_WAKING :: s32 where
  "ENQUEUE_WAKING = 4"

definition DEQUEUE_SLEEP :: s32 where
  "DEQUEUE_SLEEP = 1"

definition place_entity :: "nat \<Rightarrow> nat \<Rightarrow> bool \<Rightarrow> sched_state \<Rightarrow> sched_state option" where
  "place_entity c se initial st = do {
     let vruntime = cfs_min_vruntime (cfs_rqs st c);
     (vruntime, st) \<leftarrow>
       (if initial then do { (d, st) \<leftarrow> sched_vslice c se st; Some (vruntime + d, st) }
        else Some (vruntime - drop_bit 1 (ucast (sysctl_sched_latency st)), st));
     Some (upd_se se (\<lambda>e. e\<lparr>se_vruntime := max_vruntime (se_vruntime e) vruntime\<rparr>) st) }"

definition enqueue_entity :: "nat \<Rightarrow> nat \<Rightarrow> s32 \<Rightarrow> sched_state \<Rightarrow> sched_state option" where
  "enqueue_entity c se flags st = do {
     let wakeup = (flags AND ENQUEUE_WAKEUP \<noteq> 0);
     let st = (if \<not> wakeup \<or> flags AND ENQUEUE_WAKING \<noteq> 0
               then upd_se se (\<lambda>e. e\<lparr>se_vruntime := se_vruntime e + cfs_min_vruntime (cfs_rqs st c)\<rparr>) st else st);
     let st = update_curr c st;
     let st = enqueue_entity_load_avg c se wakeup st;
     let st = account_entity_enqueue c se st;
     let st = update_cfs_shares c st;
     st \<leftarrow> (if wakeup then do { st \<leftarrow> place_entity c se False st; Some (enqueue_sleeper c se st) } else Some st);
     let st = update_stats_enqueue c se st;
     st \<leftarrow> (if cfs_curr (cfs_rqs st c) \<noteq> Some se then enqueue_entity_tree c se st else Some st);
     let st = upd_se se (\<lambda>e. e\<lparr>se_on_rq := True\<rparr>) st;
     Some (if cfs_nr_running (cfs_rqs st c) = 1 then list_add_leaf_cfs_rq c st else st) }"

fun clear_buddies_last :: "nat list \<Rightarrow> sched_state \<Rightarrow> sched_state" where
  "clear_buddies_last [] st = st"
| "clear_buddies_last (se # es) st =
     (if cfs_last (cfs_rqs st (cfs_rq_of st se)) = Some se
      then clear_buddies_last es (upd_cfs (cfs_rq_of st se) (\<lambda>q. q\<lparr>cfs_last := None\<rparr>) st) else st)"

fun clear_buddies_next :: "nat list \<Rightarrow> sched_state \<Rightarrow> sched_state" where
  "clear_buddies_next [] st = st"
| "clear_buddies_next (se # es) st =
     (if cfs_next (cfs_rqs st (cfs_rq_of st se)) = Some se
      then clear_buddies_next es (upd_cfs (cfs_rq_of st se) (\<lambda>q. q\<lparr>cfs_next := None\<rparr>) st) else st)"

fun clear_buddies_skip :: "nat list \<Rightarrow> sched_state \<Rightarrow> sched_state" where
  "clear_buddies_skip [] st = st"
| "clear_buddies_skip (se # es) st =
     (if cfs_skip (cfs_rqs st (cfs_rq_of st se)) = Some se
      then clear_buddies_skip es (upd_cfs (cfs_rq_of st se) (\<lambda>q. q\<lparr>cfs_skip := None\<rparr>) st) else st)"

text \<open>The walk up the hierarchy is taken once for the three loops, which each stop early.\<close>

definition clear_buddies :: "nat \<Rightarrow> nat \<Rightarrow> sched_state \<Rightarrow> sched_state option" where
  "clear_buddies c se st = do {
     es \<leftarrow> for_each_sched_entity st (Some se);
     let st = (if cfs_last (cfs_rqs st c) = Some se then clear_buddies_last es st else st);
     let st = (if cfs_next (cfs_rqs st c) = Some se then clear_buddies_next es st else st);
     Some (if cfs_skip (cfs_rqs st c) = Some se then clear_buddies_skip es st else st) }"

definition TASK_INTERRUPTIBLE :: u64 where
  "TASK_INTERRUPTIBLE = 1"

definition TASK_UNINTERRUPTIBLE :: u64 where
  "TASK_UNINTERRUPTIBLE = 2"

definition sleep_stats :: "nat \<Rightarrow> nat \<Rightarrow> sched_state \<Rightarrow> sched_state" where
  "sleep_stats c se st =
     (if entity_is_task st se then
        (let state = p_state (tasks st (task_of se));
             clock = rq_clock (rqs st (rq_of st c));
             st = (if state AND TASK_INTERRUPTIBLE \<noteq> 0 then upd_stats se (\<lambda>s. s\<lparr>sleep_start := clock\<rparr>) st else st)
         in if state AND TASK_UNINTERRUPTIBLE \<noteq> 0 then upd_stats se (\<lambda>s. s\<lparr>block_start := clock\<rparr>) st else st)
      else st)"

definition dequeue_entity :: "nat \<Rightarrow> nat \<Rightarrow> s32 \<Rightarrow> sched_state \<Rightarrow> sched_state option" where
  "dequeue_entity c se flags st = do {
     let sleep = (flags AND DEQUEUE_SLEEP \<noteq> 0);
     let st = update_curr c st;
     let st = dequeue_entity_load_avg c se sleep st;
     let st = update_stats_dequeue c se st;
     let st = (if sleep then sleep_stats c se st else st);
     st \<leftarrow> clear_buddies c se st;
     st \<leftarrow> (if cfs_curr (cfs_rqs st c) \<noteq> Some se then dequeue_entity_tree c se st else Some st);
     let st = upd_se se (\<lambda>e. e\<lparr>se_on_rq := False\<rparr>) st;
     let st = account_entity_dequeue c se st;
     let st = (if \<not> sleep then upd_se se (\<lambda>e. e\<lparr>se_vruntime := se_vruntime e - cfs_min_vruntime (cfs_rqs st c)\<rparr>) st
               else st);
     Some (update_cfs_shares c (update_min_vruntime c st)) }"

subsection \<open>Picking and the tick\<close>

text \<open>\<open>resched_task\<close> as far as the scheduler state goes: the reschedule flag of the task.\<close>

definition resched_task :: "nat \<Rightarrow> sched_state \<Rightarrow> sched_state" where
  "resched_task p st = upd_task p (\<lambda>t. t\<lparr>p_need_resched := True\<rparr>) st"

definition check_preempt_tick :: "nat \<Rightarrow> nat \<Rightarrow> sched_state \<Rightarrow> sched_state option" where
  "check_preempt_tick c cur st = do {
     (ideal_runtime, st) \<leftarrow> sched_slice c cur st;
     let delta_exec = se_sum_exec_runtime (ses st cur) - se_prev_sum_exec_runtime (ses st cur);
     let running = rq_curr (rqs st (rq_of st c));
     if ideal_runtime < delta_exec then clear_buddies c cur (resched_task running st)
     else if delta_exec < ucast (sysctl_sched_min_granularity st) then Some st
     else do {
       se \<leftarrow> pick_first_entity st c;
       let delta = se_vruntime (ses st cur) - se_vruntime (ses st se);
       if s64_neg delta then Some st
       else if ideal_runtime < delta then Some (resched_task running st)
       else Some st } }"

definition set_next_entity :: "nat \<Rightarrow> nat \<Rightarrow> sched_state \<Rightarrow> sched_state option" where
  "set_next_entity c se st = do {
     st \<leftarrow> (if se_on_rq (ses st se)
            then do { st \<leftarrow> dequeue_entity_tree c se (update_stats_wait_end c se st);
                      Some (update_entity_load_avg se True st) }
            else Some st);
     let st = update_stats_curr_start c se st;
     let st = upd_cfs c (\<lambda>q. q\<lparr>cfs_curr := Some se\<rparr>) st;
     let e = ses st se;
     let st = (if 2 * weight (se_load e) \<le> weight (rq_load (rqs st (rq_of st c)))
               then upd_stats se (\<lambda>s. s\<lparr>slice_max := max (slice_max s) (se_sum_exec_runtime e - se_prev_sum_exec_runtime e)\<rparr>) st
               else st);
     Some (upd_se se (\<lambda>e. e\<lparr>se_prev_sum_exec_runtime := se_sum_exec_runtime e\<rparr>) st) }"

definition wakeup_gran :: "nat \<Rightarrow> sched_state \<Rightarrow> u64 \<times> sched_state" where
  "wakeup_gran se st = calc_delta_fair (ucast (sysctl_sched_wakeup_granularity st)) se st"

definition wakeup_preempt_entity :: "nat \<Rightarrow> nat \<Rightarrow> sched_state \<Rightarrow> int \<times> sched_state" where
  "wakeup_preempt_entity cur se st =
     (let vdiff = se_vruntime (ses st cur) - se_vruntime (ses st se) in
      if sint vdiff \<le> 0 then (-1, st)
      else (let (gran, st) = wakeup_gran se st in (if sint gran < sint vdiff then 1 else 0, st)))"

text \<open>One preference of \<open>pick_next_entity\<close>: a candidate replaces the choice if it is not too far
  behind the leftmost entity.\<close>

definition prefer_buddy :: "nat option \<Rightarrow> nat \<Rightarrow> nat \<times> sched_state \<Rightarrow> nat \<times> sched_state" where
  "prefer_buddy cand left p =
     (case cand of
        None \<Rightarrow> p
      | Some x \<Rightarrow> (let (r, st) = wakeup_preempt_entity x left (snd p) in (if r < 1 then x else fst p, st)))"

text \<open>\<open>pick_next_entity\<close>.  On an empty timeline the code, or \<open>set_next_entity\<close> right after it,
  dereferences \<open>NULL\<close>: that is \<^const>\<open>None\<close>.\<close>

definition pick_next_entity :: "nat \<Rightarrow> sched_state \<Rightarrow> (nat \<times> sched_state) option" where
  "pick_next_entity c st = do {
     left \<leftarrow> pick_first_entity st c;
     let (se, st) = (if cfs_skip (cfs_rqs st c) = Some left then prefer_buddy (pick_next_in_tree st left) left (left, st)
                     else (left, st));
     let (se, st) = prefer_buddy (cfs_last (cfs_rqs st c)) left (se, st);
     let (se, st) = prefer_buddy (cfs_next (cfs_rqs st c)) left (se, st);
     st \<leftarrow> clear_buddies c se st;
     Some (se, st) }"

definition put_prev_entity :: "nat \<Rightarrow> nat \<Rightarrow> sched_state \<Rightarrow> sched_state option" where
  "put_prev_entity c prev st = do {
     let st = (if se_on_rq (ses st prev) then update_curr c st else st);
     st \<leftarrow> (if se_on_rq (ses st prev)
            then do { st \<leftarrow> enqueue_entity_tree c prev (update_stats_wait_start c prev st);
                      Some (update_entity_load_avg prev True st) }
            else Some st);
     Some (upd_cfs c (\<lambda>q. q\<lparr>cfs_curr := None\<rparr>) st) }"

definition entity_tick :: "nat \<Rightarrow> nat \<Rightarrow> sched_state \<Rightarrow> sched_state option" where
  "entity_tick c cur st = do {
     let st = update_curr c st;
     let st = update_entity_load_avg cur True st;
     let st = update_cfs_rq_blocked_load c True st;
     let st = update_cfs_shares c st;
     if 1 < cfs_nr_running (cfs_rqs st c) then check_preempt_tick c cur st else Some st }"

subsection \<open>Views of the run queues\<close>

text \<open>\<open>shape_view\<close> is what the structure of the queues depends on; \<open>core_view\<close> adds the load accounting.\<close>

definition se_shape :: "sched_entity \<Rightarrow> bool \<times> nat \<times> nat option \<times> nat option" where
  "se_shape e = (se_on_rq e, se_cfs_rq e, se_parent e, se_my_q e)"

definition cfs_shape :: "cfs_rq \<Rightarrow> tree_cache \<times> nat option \<times> nat option \<times> nat option \<times> nat option \<times> nat \<times> nat" where
  "cfs_shape q = (timeline_of q, cfs_curr q, cfs_next q, cfs_last q, cfs_skip q, cfs_tg q, cfs_rq_cpu q)"

definition shape_view where
  "shape_view st = ((\<lambda>e. se_shape (ses st e)), (\<lambda>c. cfs_shape (cfs_rqs st c)), (\<lambda>t. tg_se (tgs st t)))"

definition se_core where
  "se_core e = (se_shape e, weight (se_load e))"

definition cfs_core where
  "cfs_core q = (cfs_shape q, cfs_nr_running q, weight (cfs_load q))"

definition core_view where
  "core_view st = ((\<lambda>e. se_core (ses st e)), (\<lambda>c. cfs_core (cfs_rqs st c)), (\<lambda>t. tg_se (tgs st t)))"

lemmas view_defs = se_shape_def cfs_shape_def se_core_def cfs_core_def timeline_of_def

lemma shape_view_upd:
  "(\<And>x. se_shape (f x) = se_shape x) \<Longrightarrow> shape_view (upd_se e f st) = shape_view st"
  "(\<And>x. cfs_shape (g x) = cfs_shape x) \<Longrightarrow> shape_view (upd_cfs c g st) = shape_view st"
  "shape_view (upd_rq r k st) = shape_view st" "shape_view (upd_task p j st) = shape_view st"
  by (auto simp: shape_view_def fun_eq_iff)

lemma core_view_upd:
  "(\<And>x. se_core (f x) = se_core x) \<Longrightarrow> core_view (upd_se e f st) = core_view st"
  "(\<And>x. cfs_core (g x) = cfs_core x) \<Longrightarrow> core_view (upd_cfs c g st) = core_view st"
  "core_view (upd_rq r k st) = core_view st" "core_view (upd_task p j st) = core_view st"
  by (auto simp: core_view_def fun_eq_iff)

lemma core_view_upd_se_at: "se_core (f (ses st e)) = se_core (ses st e) \<Longrightarrow> core_view (upd_se e f st) = core_view st"
  by (auto simp: core_view_def fun_eq_iff)

lemma core_view_upd_cfs_at: "cfs_core (g (cfs_rqs st c)) = cfs_core (cfs_rqs st c) \<Longrightarrow> core_view (upd_cfs c g st) = core_view st"
  by (auto simp: core_view_def fun_eq_iff)

lemma queue_core: "queue_view st' = queue_view st \<Longrightarrow> core_view st' = core_view st"
  using queue_view_eq [of st' st] by (simp add: core_view_def view_defs fun_eq_iff)

lemma core_view_eq:
  assumes "core_view st' = core_view st"
  shows "se_on_rq (ses st' e) = se_on_rq (ses st e)" "se_cfs_rq (ses st' e) = se_cfs_rq (ses st e)"
    "se_parent (ses st' e) = se_parent (ses st e)" "se_my_q (ses st' e) = se_my_q (ses st e)"
    "weight (se_load (ses st' e)) = weight (se_load (ses st e))"
    "timeline_of (cfs_rqs st' c) = timeline_of (cfs_rqs st c)" "cfs_curr (cfs_rqs st' c) = cfs_curr (cfs_rqs st c)"
    "cfs_next (cfs_rqs st' c) = cfs_next (cfs_rqs st c)" "cfs_last (cfs_rqs st' c) = cfs_last (cfs_rqs st c)"
    "cfs_skip (cfs_rqs st' c) = cfs_skip (cfs_rqs st c)" "cfs_tg (cfs_rqs st' c) = cfs_tg (cfs_rqs st c)"
    "cfs_rq_cpu (cfs_rqs st' c) = cfs_rq_cpu (cfs_rqs st c)" "cfs_nr_running (cfs_rqs st' c) = cfs_nr_running (cfs_rqs st c)"
    "weight (cfs_load (cfs_rqs st' c)) = weight (cfs_load (cfs_rqs st c))" "tg_se (tgs st' t) = tg_se (tgs st t)"
    "shape_view st' = shape_view st"
  using assms by (simp_all add: core_view_def shape_view_def view_defs fun_eq_iff)

lemma shape_view_eq:
  assumes "shape_view st' = shape_view st"
  shows "se_on_rq (ses st' e) = se_on_rq (ses st e)" "se_cfs_rq (ses st' e) = se_cfs_rq (ses st e)"
    "se_parent (ses st' e) = se_parent (ses st e)" "se_my_q (ses st' e) = se_my_q (ses st e)"
    "timeline_of (cfs_rqs st' c) = timeline_of (cfs_rqs st c)" "cfs_curr (cfs_rqs st' c) = cfs_curr (cfs_rqs st c)"
    "cfs_next (cfs_rqs st' c) = cfs_next (cfs_rqs st c)" "cfs_last (cfs_rqs st' c) = cfs_last (cfs_rqs st c)"
    "cfs_skip (cfs_rqs st' c) = cfs_skip (cfs_rqs st c)" "cfs_tg (cfs_rqs st' c) = cfs_tg (cfs_rqs st c)"
    "cfs_rq_cpu (cfs_rqs st' c) = cfs_rq_cpu (cfs_rqs st c)" "tg_se (tgs st' t) = tg_se (tgs st t)"
  using assms by (simp_all add: shape_view_def view_defs fun_eq_iff)

text \<open>Operations that leave the core alone.\<close>

lemma weight_calc_delta_mine [simp]: "weight (snd (calc_delta_mine d w lw)) = weight lw"
  by (simp add: calc_delta_mine_def fill_inv_weight_def Let_def)

lemma core_calc_delta_fair [simp]: "core_view (snd (calc_delta_fair d se st)) = core_view st"
proof -
  obtain x lw where c: "calc_delta_mine d NICE_0_LOAD (se_load (ses st se)) = (x, lw)" by fastforce
  then have "weight lw = weight (se_load (ses st se))" by (metis snd_conv weight_calc_delta_mine)
  with c show ?thesis by (auto simp: calc_delta_fair_def view_defs intro!: core_view_upd_se_at)
qed

lemma core_update_min_vruntime [simp]: "core_view (update_min_vruntime c st) = core_view st"
  by (simp add: update_min_vruntime_def Let_def core_view_upd view_defs)

lemma core_charge_curr [simp]: "core_view (charge_curr c cur d st) = core_view st"
proof -
  let ?s = "upd_cfs c (\<lambda>q. q\<lparr>cfs_exec_clock := cfs_exec_clock q + d\<rparr>)
    (upd_se cur (\<lambda>e. e\<lparr>se_statistics := (se_statistics e)\<lparr>exec_max := max d (exec_max (se_statistics e))\<rparr>,
       se_sum_exec_runtime := se_sum_exec_runtime e + d\<rparr>) st)"
  have s: "core_view ?s = core_view st" by (simp add: core_view_upd view_defs)
  obtain w s2 where "calc_delta_fair d cur ?s = (w, s2)" by fastforce
  moreover from this have "core_view s2 = core_view st" using core_calc_delta_fair [of d cur ?s] s by simp
  ultimately show ?thesis by (simp add: charge_curr_def Let_def core_view_upd view_defs)
qed

lemma core_update_curr [simp]: "core_view (update_curr c st) = core_view st"
  by (auto simp: update_curr_def Let_def core_view_upd view_defs split: option.split)

lemma core_stats [simp]:
  "core_view (upd_stats se f st) = core_view st" "core_view (update_stats_wait_start c se st) = core_view st"
  "core_view (update_stats_wait_end c se st) = core_view st" "core_view (update_stats_enqueue c se st) = core_view st"
  "core_view (update_stats_dequeue c se st) = core_view st" "core_view (update_stats_curr_start c se st) = core_view st"
  "core_view (sleep_stats c se st) = core_view st" "core_view (enqueue_sleeper c se st) = core_view st"
  by (simp_all add: upd_stats_def update_stats_wait_start_def update_stats_wait_end_def update_stats_enqueue_def
    update_stats_dequeue_def update_stats_curr_start_def sleep_stats_def enqueue_sleeper_def Let_def core_view_upd view_defs)

lemma core_pelt [simp]:
  "core_view (update_entity_load_avg se b st) = core_view st"
  "core_view (enqueue_entity_load_avg c se b st) = core_view st"
  "core_view (update_cfs_rq_blocked_load c b st) = core_view st"
  by (intro queue_core update_entity_load_avg_step(1) enqueue_load_avg_step(1) view_blocked_load)+

lemma queue_dequeue_load_avg: "queue_view (dequeue_entity_load_avg c se sl st) = queue_view st"
  using update_entity_load_avg_step(1) [where se = se and b = True and st = st]
  by (simp add: dequeue_entity_load_avg_def Let_def queue_view_upd part_defs)

lemma core_dequeue_load_avg [simp]: "core_view (dequeue_entity_load_avg c se sl st) = core_view st"
  by (rule queue_core [OF queue_dequeue_load_avg])

lemma core_list_add_leaf [simp]: "core_view (list_add_leaf_cfs_rq c st) = core_view st"
  by (simp add: list_add_leaf_cfs_rq_def Let_def core_view_upd view_defs)

lemma core_resched [simp]: "core_view (resched_task p st) = core_view st"
  by (simp add: resched_task_def core_view_upd)

lemma core_wakeup_preempt [simp]: "core_view (snd (wakeup_preempt_entity a b st)) = core_view st"
  by (simp add: wakeup_preempt_entity_def wakeup_gran_def Let_def split: prod.split)
    (metis core_calc_delta_fair snd_conv)

lemma core_slice_loop [simp]: "core_view (snd (slice_loop es s st)) = core_view st"
proof (induction es s st rule: slice_loop.induct)
  case (2 se es s st)
  have "core_view (upd_cfs (cfs_rq_of st se) (\<lambda>q. q\<lparr>cfs_load := snd (calc_delta_mine s w (cfs_load (cfs_rqs st (cfs_rq_of st se))))\<rparr>) st)
      = core_view st" for w
    by (rule core_view_upd_cfs_at) (simp add: view_defs)
  with 2 show ?case by (simp add: Let_def split: prod.splits) (metis snd_conv)
qed simp

lemma core_sched_slice: "sched_slice c se st = Some (s, st') \<Longrightarrow> core_view st' = core_view st"
  by (auto simp: sched_slice_def split: bind_splits dest: arg_cong [of _ _ snd]) (metis core_slice_loop snd_conv)

lemma core_place_entity: "place_entity c se False st = Some st' \<Longrightarrow> core_view st' = core_view st"
  by (auto simp: place_entity_def core_view_upd view_defs)

end
