(* ===== verification/CFS_Invariant.thy ===== *)
theory CFS_Invariant
  imports CFS_Entity
begin

text \<open>
  \<open>sched_ok\<close> is the invariant of the run queues: the timeline is a well-formed red-black tree with a
  correct leftmost cache, it holds exactly the queued entities other than the running one, the
  number and the total weight of the entities are what \<open>nr_running\<close> and \<open>load\<close> say, and the buddy
  pointers are queued entities.  Every queueing method preserves it and, under it, dereferences no
  \<open>NULL\<close> pointer; the transition system at the end states both for all sequences of calls.
\<close>

subsection \<open>Accounting\<close>

text \<open>The number and the total weight of the entities in each run queue, for given sets of members.\<close>

definition acct_ok :: "sched_state \<Rightarrow> (nat \<Rightarrow> nat set) \<Rightarrow> bool" where
  "acct_ok st M \<longleftrightarrow> (\<forall>c. finite (M c) \<and> (\<forall>e\<in>M c. se_cfs_rq (ses st e) = c) \<and>
     cfs_nr_running (cfs_rqs st c) = of_nat (card (M c)) \<and>
     weight (cfs_load (cfs_rqs st c)) = (\<Sum>e\<in>M c. weight (se_load (ses st e))))"

lemma acct_cong: "core_view st' = core_view st \<Longrightarrow> acct_ok st' M = acct_ok st M"
  using core_view_eq [of st' st] by (simp add: acct_ok_def)

lemma account_enqueue_simps [simp]:
  "ses (account_entity_enqueue c se st) = ses st" "tgs (account_entity_enqueue c se st) = tgs st"
  "tasks (account_entity_enqueue c se st) = tasks st"
  "cfs_nr_running (cfs_rqs (account_entity_enqueue c se st) d) = cfs_nr_running (cfs_rqs st d) + (if d = c then 1 else 0)"
  "weight (cfs_load (cfs_rqs (account_entity_enqueue c se st) d)) =
     weight (cfs_load (cfs_rqs st d)) + (if d = c then weight (se_load (ses st se)) else 0)"
  "cfs_shape (cfs_rqs (account_entity_enqueue c se st) d) = cfs_shape (cfs_rqs st d)"
  "cfs_min_vruntime (cfs_rqs (account_entity_enqueue c se st) d) = cfs_min_vruntime (cfs_rqs st d)"
  by (simp_all add: account_entity_enqueue_def Let_def update_load_add_def view_defs)

lemma account_dequeue_simps [simp]:
  "ses (account_entity_dequeue c se st) = ses st" "tgs (account_entity_dequeue c se st) = tgs st"
  "tasks (account_entity_dequeue c se st) = tasks st"
  "cfs_nr_running (cfs_rqs (account_entity_dequeue c se st) d) = cfs_nr_running (cfs_rqs st d) - (if d = c then 1 else 0)"
  "weight (cfs_load (cfs_rqs (account_entity_dequeue c se st) d)) =
     weight (cfs_load (cfs_rqs st d)) - (if d = c then weight (se_load (ses st se)) else 0)"
  "cfs_shape (cfs_rqs (account_entity_dequeue c se st) d) = cfs_shape (cfs_rqs st d)"
  "cfs_min_vruntime (cfs_rqs (account_entity_dequeue c se st) d) = cfs_min_vruntime (cfs_rqs st d)"
  by (simp_all add: account_entity_dequeue_def Let_def update_load_sub_def view_defs)

lemma shape_account [simp]:
  "shape_view (account_entity_enqueue c se st) = shape_view st" "shape_view (account_entity_dequeue c se st) = shape_view st"
  by (simp_all add: shape_view_def)

lemma acct_enqueue:
  assumes "acct_ok st M" "se \<notin> M c" "se_cfs_rq (ses st se) = c"
  shows "acct_ok (account_entity_enqueue c se st) (M(c := insert se (M c)))"
  using assms by (auto simp: acct_ok_def add.commute)

lemma acct_dequeue:
  assumes "acct_ok st M" "se \<in> M c"
  shows "acct_ok (account_entity_dequeue c se st) (M(c := M c - {se}))"
proof -
  have fin: "finite (M c)" using assms(1) by (simp add: acct_ok_def)
  have "0 < card (M c)" using fin assms(2) by (auto simp: card_gt_0_iff)
  then have "(of_nat (card (M c - {se})) :: u32) = of_nat (card (M c)) - 1"
    using fin assms(2) by (simp add: of_nat_diff)
  moreover have "(\<Sum>e\<in>M c - {se}. weight (se_load (ses st e))) = (\<Sum>e\<in>M c. weight (se_load (ses st e))) - weight (se_load (ses st se))"
    using fin assms(2) by (simp add: sum_diff1)
  moreover have "cfs_nr_running (cfs_rqs st d) = of_nat (card (M d))" "finite (M d)" "\<forall>e\<in>M d. se_cfs_rq (ses st e) = d"
      "weight (cfs_load (cfs_rqs st d)) = (\<Sum>e\<in>M d. weight (se_load (ses st e)))" for d
    using assms(1) by (simp_all add: acct_ok_def)
  ultimately show ?thesis by (simp add: acct_ok_def)
qed

lemma acct_set_weight:
  assumes "acct_ok st M" "se \<notin> M (se_cfs_rq (ses st se))"
  shows "acct_ok (upd_se se (\<lambda>e. e\<lparr>se_load := lw e\<rparr>) st) M"
proof -
  have n: "se \<notin> M d" for d using assms by (auto simp: acct_ok_def)
  have "(\<Sum>e\<in>M d. weight (se_load (ses (upd_se se (\<lambda>e. e\<lparr>se_load := lw e\<rparr>) st) e))) = (\<Sum>e\<in>M d. weight (se_load (ses st e)))" for d
    using n by (intro sum.cong) auto
  then show ?thesis using assms(1) n by (auto simp: acct_ok_def simp del: upd_se_simps(1)) auto
qed

lemma shape_reweight [simp]: "shape_view (reweight_entity c se w st) = shape_view st"
  by (simp add: reweight_entity_def Let_def shape_view_upd view_defs core_view_eq(16) [OF core_update_curr])

lemma acct_reweight:
  assumes "acct_ok st M" "c = se_cfs_rq (ses st se)" "se_on_rq (ses st se) \<longleftrightarrow> se \<in> M c"
  shows "acct_ok (reweight_entity c se w st) M"
proof (cases "se_on_rq (ses st se)")
  case False
  with assms show ?thesis by (simp add: reweight_entity_def Let_def acct_set_weight)
next
  case True
  define s1 where "s1 = (if cfs_curr (cfs_rqs st c) = Some se then update_curr c st else st)"
  have v: "core_view s1 = core_view st" by (simp add: s1_def)
  have a1: "acct_ok s1 M" "se_cfs_rq (ses s1 se) = c" "se_on_rq (ses s1 se)"
    using assms True acct_cong [OF v] core_view_eq [OF v] by simp_all
  have in_M: "se \<in> M c" using assms True by simp
  let ?s2 = "upd_se se (\<lambda>e. e\<lparr>se_load := update_load_set (se_load e) w\<rparr>) (account_entity_dequeue c se s1)"
  have a2: "acct_ok ?s2 (M(c := M c - {se}))"
    using acct_dequeue [OF a1(1) in_M] a1(2) by (intro acct_set_weight) simp_all
  have "acct_ok (account_entity_enqueue c se ?s2) ((M(c := M c - {se}))(c := insert se ((M(c := M c - {se})) c)))"
    using a1(2) by (intro acct_enqueue [OF a2]) simp_all
  moreover have "(M(c := M c - {se}))(c := insert se ((M(c := M c - {se})) c)) = M" using in_M by (auto simp: insert_absorb)
  ultimately show ?thesis using True a1(3) by (simp add: reweight_entity_def Let_def s1_def [symmetric])
qed

lemma shape_update_cfs_shares [simp]: "shape_view (update_cfs_shares c st) = shape_view st"
  by (simp add: update_cfs_shares_def Let_def split: option.split)

lemma acct_update_cfs_shares:
  assumes "acct_ok st M"
    "\<And>g. tg_se (tgs st (cfs_tg (cfs_rqs st c))) (cfs_rq_cpu (cfs_rqs st c)) = Some g \<Longrightarrow>
       se_on_rq (ses st g) \<longleftrightarrow> g \<in> M (se_cfs_rq (ses st g))"
  shows "acct_ok (update_cfs_shares c st) M"
  using assms
  by (auto simp: update_cfs_shares_def Let_def cfs_rq_of_def rq_of_def intro!: acct_reweight split: option.split)

subsection \<open>The invariant\<close>

definition members :: "sched_state \<Rightarrow> nat \<Rightarrow> nat set" where
  "members st c = {e. se_on_rq (ses st e) \<and> se_cfs_rq (ses st e) = c}"

definition running :: "sched_state \<Rightarrow> nat \<Rightarrow> nat set" where
  "running st c = {e. cfs_curr (cfs_rqs st c) = Some e \<and> se_on_rq (ses st e)}"

definition timelines_ok :: "sched_state \<Rightarrow> bool" where
  "timelines_ok st \<longleftrightarrow> (\<forall>c. timeline_ok st c \<and> members st c = set (queued st c) \<union> running st c \<and>
     (\<forall>e. cfs_curr (cfs_rqs st c) = Some e \<longrightarrow> e \<notin> set (queued st c) \<and> se_cfs_rq (ses st e) = c))"

definition buddies_ok :: "sched_state \<Rightarrow> bool" where
  "buddies_ok st \<longleftrightarrow> (\<forall>c e. cfs_next (cfs_rqs st c) = Some e \<or> cfs_last (cfs_rqs st c) = Some e \<or>
     cfs_skip (cfs_rqs st c) = Some e \<longrightarrow> e \<in> members st c)"

text \<open>The hierarchy is finite, and no run queue is queued on itself through the entity of its group.\<close>

definition hier_ok :: "sched_state \<Rightarrow> bool" where
  "hier_ok st \<longleftrightarrow> (\<forall>e. for_each_sched_entity st (Some e) \<noteq> None) \<and>
     (\<forall>c g. tg_se (tgs st (cfs_tg (cfs_rqs st c))) (cfs_rq_cpu (cfs_rqs st c)) = Some g \<longrightarrow> se_cfs_rq (ses st g) \<noteq> c)"

definition sched_ok :: "sched_state \<Rightarrow> bool" where
  "sched_ok st \<longleftrightarrow> timelines_ok st \<and> buddies_ok st \<and> hier_ok st \<and> acct_ok st (members st)"

lemma shape_cong:
  assumes "shape_view st' = shape_view st"
  shows "timelines_ok st' = timelines_ok st" "buddies_ok st' = buddies_ok st" "hier_ok st' = hier_ok st"
    "members st' = members st" "queued st' = queued st" "timeline_ok st' = timeline_ok st"
    "for_each_sched_entity st' = for_each_sched_entity st"
proof -
  note e = shape_view_eq [OF assms]
  show m: "members st' = members st" and q: "queued st' = queued st" and t: "timeline_ok st' = timeline_ok st"
    by (simp_all add: fun_eq_iff members_def queued_def timeline_ok_def e)
  have r: "running st' = running st" by (simp add: fun_eq_iff running_def e)
  have p: "parent_entity st' = parent_entity st" by (simp add: fun_eq_iff parent_entity_def e)
  then show f: "for_each_sched_entity st' = for_each_sched_entity st" by (intro ext) (simp add: for_each_sched_entity_def)
  show "timelines_ok st' = timelines_ok st" by (simp add: timelines_ok_def m q t r e)
  show "buddies_ok st' = buddies_ok st" by (simp add: buddies_ok_def m e)
  show "hier_ok st' = hier_ok st" by (simp add: hier_ok_def f e)
qed

lemma sched_ok_core: "core_view st' = core_view st \<Longrightarrow> sched_ok st' = sched_ok st"
  using shape_cong [OF core_view_eq(16), of st' st] acct_cong [of st' st] by (simp add: sched_ok_def)

lemma sched_ok_shares: "sched_ok st \<Longrightarrow> sched_ok (update_cfs_shares c st)"
  using shape_cong [OF shape_update_cfs_shares, of c st]
  by (auto simp: sched_ok_def members_def intro!: acct_update_cfs_shares)


lemma hier_cong:
  assumes "\<And>e. se_parent (ses st' e) = se_parent (ses st e)" "\<And>e. se_cfs_rq (ses st' e) = se_cfs_rq (ses st e)"
    "\<And>c. cfs_tg (cfs_rqs st' c) = cfs_tg (cfs_rqs st c)" "\<And>c. cfs_rq_cpu (cfs_rqs st' c) = cfs_rq_cpu (cfs_rqs st c)"
    "\<And>t. tg_se (tgs st' t) = tg_se (tgs st t)"
  shows "hier_ok st' = hier_ok st"
proof -
  have "parent_entity st' = parent_entity st" by (simp add: fun_eq_iff parent_entity_def assms)
  then show ?thesis by (simp add: hier_ok_def for_each_sched_entity_def assms)
qed

lemma acct_fields:
  assumes "\<And>e. se_cfs_rq (ses st' e) = se_cfs_rq (ses st e)" "\<And>e. weight (se_load (ses st' e)) = weight (se_load (ses st e))"
    "\<And>c. cfs_nr_running (cfs_rqs st' c) = cfs_nr_running (cfs_rqs st c)"
    "\<And>c. weight (cfs_load (cfs_rqs st' c)) = weight (cfs_load (cfs_rqs st c))"
  shows "acct_ok st' M = acct_ok st M"
  by (simp add: acct_ok_def assms)

lemma queued_upd_cfs: "queued (upd_cfs c (set_timeline tc) st) d = (if d = c then tree_seq tc else queued st d)"
  by (simp add: queued_def)

lemma queued_upd_se [simp]: "queued (upd_se e f st) = queued st" "timeline_ok (upd_se e f st) = timeline_ok st"
  by (simp_all add: fun_eq_iff queued_def timeline_ok_def)

lemma timeline_ok_upd_cfs: "timeline_ok (upd_cfs c (set_timeline tc) st) d = (if d = c then tree_inv tc else timeline_ok st d)"
  by (simp add: timeline_ok_def)

lemma set_timeline_shape [simp]:
  "cfs_next (set_timeline tc q) = cfs_next q" "cfs_last (set_timeline tc q) = cfs_last q"
  "cfs_skip (set_timeline tc q) = cfs_skip q" "cfs_tg (set_timeline tc q) = cfs_tg q"
  by (simp_all add: set_timeline_def)

lemma sched_ok_curr:
  assumes "sched_ok st" "cfs_curr (cfs_rqs st c) = Some e"
  shows "e \<notin> set (queued st c)" "se_cfs_rq (ses st e) = c"
  using assms by (simp_all add: sched_ok_def timelines_ok_def)

lemma sched_ok_members:
  assumes "sched_ok st"
  shows "members st c = set (queued st c) \<union> running st c"
  using assms by (simp add: sched_ok_def timelines_ok_def)

text \<open>Putting an entity on a queue: into the timeline unless it is running, then the flag.\<close>

lemma insert_member:
  assumes ok: "sched_ok st" and shape: "shape_view s = shape_view st"
    and acct: "acct_ok s ((members st)(c := insert se (members st c)))"
    and off: "\<not> se_on_rq (ses st se)" "se_cfs_rq (ses st se) = c"
  obtains s1 where "(if cfs_curr (cfs_rqs s c) \<noteq> Some se then enqueue_entity_tree c se s else Some s) = Some s1"
    "sched_ok (upd_se se (\<lambda>e. e\<lparr>se_on_rq := True\<rparr>) s1)"
    "members (upd_se se (\<lambda>e. e\<lparr>se_on_rq := True\<rparr>) s1) = (members st)(c := insert se (members st c))"
    "set (queued s1 c) = (if cfs_curr (cfs_rqs st c) = Some se then {} else {se}) \<union> set (queued st c)"
proof -
  note e = shape_view_eq [OF shape] and cong = shape_cong [OF shape]
  have s: "timelines_ok s" "buddies_ok s" "hier_ok s" using ok cong by (simp_all add: sched_ok_def)
  have notq: "se \<notin> set (queued s c)"
    using sched_ok_members [OF ok, of c] off cong by (auto simp: members_def)
  define tc where "tc = (if cfs_curr (cfs_rqs st c) = Some se then timeline_of (cfs_rqs s c)
    else the (tree_insert (vruntimes s) se (timeline_of (cfs_rqs s c))))"
  have tc: "(if cfs_curr (cfs_rqs s c) \<noteq> Some se then enqueue_entity_tree c se s else Some s) = Some (upd_cfs c (set_timeline tc) s) \<and>
      tree_inv tc \<and> set (tree_seq tc) = (if cfs_curr (cfs_rqs st c) = Some se then {} else {se}) \<union> set (queued s c)"
  proof (cases "cfs_curr (cfs_rqs st c) = Some se")
    case True
    have "upd_cfs c (set_timeline (timeline_of (cfs_rqs s c))) s = s"
      by (simp add: upd_cfs_def set_timeline_def timeline_of_def)
    moreover have "tree_inv (timeline_of (cfs_rqs s c))" using s(1) by (simp add: timelines_ok_def timeline_ok_def)
    ultimately show ?thesis using True e by (simp add: tc_def queued_def)
  next
    case False
    have t: "timeline_ok s c" using s(1) by (simp add: timelines_ok_def)
    obtain tc' where "enqueue_entity_tree c se s = Some (upd_cfs c (set_timeline tc') s)"
      "tree_insert (vruntimes s) se (timeline_of (cfs_rqs s c)) = Some tc'" "tree_inv tc'"
      "set (tree_seq tc') = insert se (set (queued s c))"
      by (rule enqueue_entity_tree_ok [OF t notq])
    then show ?thesis using False e by (simp add: tc_def)
  qed
  let ?s1 = "upd_cfs c (set_timeline tc) s"
  let ?s2 = "upd_se se (\<lambda>e. e\<lparr>se_on_rq := True\<rparr>) ?s1"
  have m: "members ?s2 = (members st)(c := insert se (members st c))"
    using off cong(4) e by (auto simp: fun_eq_iff members_def)
  have r: "running ?s2 d = (if d = c \<and> cfs_curr (cfs_rqs st c) = Some se then {se} else running st d)" for d
  proof -
    have d: "cfs_curr (cfs_rqs st d) = Some se \<Longrightarrow> d = c" using sched_ok_curr(2) [OF ok, of d se] off(2) by simp
    show ?thesis
    proof (cases "cfs_curr (cfs_rqs st d) = Some se")
      case True
      with d show ?thesis by (auto simp: running_def e)
    next
      case False
      then show ?thesis by (auto simp: running_def e)
    qed
  qed
  have tl: "timelines_ok ?s2"
    unfolding timelines_ok_def
  proof (intro allI conjI impI)
    fix d
    show "timeline_ok ?s2 d" using tc s(1) by (simp add: timeline_ok_upd_cfs timelines_ok_def)
    show "members ?s2 d = set (queued ?s2 d) \<union> running ?s2 d"
      unfolding m r using tc sched_ok_members [OF ok, of d] cong(5)
      by (auto simp: queued_upd_cfs running_def)
    fix x assume "cfs_curr (cfs_rqs ?s2 d) = Some x"
    then have x: "cfs_curr (cfs_rqs st d) = Some x" by (auto simp: e split: if_splits)
    show "x \<notin> set (queued ?s2 d)" using sched_ok_curr(1) [OF ok x] x tc cong(5) by (auto simp: queued_upd_cfs)
    show "se_cfs_rq (ses ?s2 x) = d" using sched_ok_curr(2) [OF ok x] by (auto simp: e)
  qed
  have b: "buddies_ok ?s2" using s(2) unfolding buddies_ok_def m cong(4) by (auto simp: e)
  have h: "hier_ok ?s2" using s(3) by (subst hier_cong [of _ s]) simp_all
  have a: "acct_ok ?s2 ((members st)(c := insert se (members st c)))"
    using acct by (subst acct_fields [of _ s]) simp_all
  have "sched_ok ?s2" unfolding sched_ok_def m using tl b h a by blast
  moreover have "set (queued ?s1 c) = (if cfs_curr (cfs_rqs st c) = Some se then {} else {se}) \<union> set (queued st c)"
    using tc cong(5) by (simp add: queued_upd_cfs)
  ultimately show thesis using that [of ?s1] tc m by blast
qed

text \<open>Taking an entity off a queue.\<close>

lemma remove_member:
  assumes ok: "sched_ok st" and shape: "shape_view s = shape_view st" and acct: "acct_ok s (members st)"
    and on: "se \<in> members st c"
    and buddies: "\<And>d. cfs_next (cfs_rqs s d) \<noteq> Some se \<and> cfs_last (cfs_rqs s d) \<noteq> Some se \<and> cfs_skip (cfs_rqs s d) \<noteq> Some se"
  obtains s1 where "(if cfs_curr (cfs_rqs s c) \<noteq> Some se then dequeue_entity_tree c se s else Some s) = Some s1"
    "sched_ok (account_entity_dequeue c se (upd_se se (\<lambda>e. e\<lparr>se_on_rq := False\<rparr>) s1))"
    "members (account_entity_dequeue c se (upd_se se (\<lambda>e. e\<lparr>se_on_rq := False\<rparr>) s1)) = (members st)(c := members st c - {se})"
proof -
  note e = shape_view_eq [OF shape] and cong = shape_cong [OF shape]
  have s: "timelines_ok s" "buddies_ok s" "hier_ok s" using ok cong by (simp_all add: sched_ok_def)
  have onq: "se_on_rq (ses st se)" "se_cfs_rq (ses st se) = c" using on by (simp_all add: members_def)
  define tc where "tc = (if cfs_curr (cfs_rqs st c) = Some se then timeline_of (cfs_rqs s c)
    else the (tree_erase se (timeline_of (cfs_rqs s c))))"
  have tc: "(if cfs_curr (cfs_rqs s c) \<noteq> Some se then dequeue_entity_tree c se s else Some s) = Some (upd_cfs c (set_timeline tc) s) \<and>
      tree_inv tc \<and> set (tree_seq tc) = set (queued s c) - {se}"
  proof (cases "cfs_curr (cfs_rqs st c) = Some se")
    case True
    have "upd_cfs c (set_timeline (timeline_of (cfs_rqs s c))) s = s"
      by (simp add: upd_cfs_def set_timeline_def timeline_of_def)
    moreover have "tree_inv (timeline_of (cfs_rqs s c))" using s(1) by (simp add: timelines_ok_def timeline_ok_def)
    moreover have "se \<notin> set (queued s c)" using sched_ok_curr(1) [OF ok True] cong by simp
    ultimately show ?thesis using True e by (simp add: tc_def queued_def)
  next
    case False
    have t: "timeline_ok s c" using s(1) by (simp add: timelines_ok_def)
    have q: "se \<in> set (queued s c)" using on False sched_ok_members [OF ok, of c] cong by (auto simp: running_def)
    obtain tc' where "dequeue_entity_tree c se s = Some (upd_cfs c (set_timeline tc') s)"
      "tree_erase se (timeline_of (cfs_rqs s c)) = Some tc'" "tree_inv tc'" "tree_seq tc' = remove1 se (queued s c)"
      by (rule dequeue_entity_tree_ok [OF t q])
    then show ?thesis using False e timeline_ok_distinct [OF t] by (simp add: tc_def)
  qed
  let ?s1 = "upd_cfs c (set_timeline tc) s"
  let ?s2 = "upd_se se (\<lambda>e. e\<lparr>se_on_rq := False\<rparr>) ?s1"
  let ?s3 = "account_entity_dequeue c se ?s2"
  have m2: "members ?s2 = (members st)(c := members st c - {se})"
    using onq cong(4) e by (auto simp: fun_eq_iff members_def)
  have r: "running ?s2 d = running st d - {se}" for d by (auto simp: running_def e)
  have tl: "timelines_ok ?s2"
    unfolding timelines_ok_def
  proof (intro allI conjI impI)
    fix d
    show "timeline_ok ?s2 d" using tc s(1) by (simp add: timeline_ok_upd_cfs timelines_ok_def)
    have "d \<noteq> c \<Longrightarrow> se \<notin> members st d" using onq by (simp add: members_def)
    then show "members ?s2 d = set (queued ?s2 d) \<union> running ?s2 d"
      unfolding m2 r using tc sched_ok_members [OF ok, of d] cong(5) by (auto simp: queued_upd_cfs)
    fix x assume "cfs_curr (cfs_rqs ?s2 d) = Some x"
    then have x: "cfs_curr (cfs_rqs st d) = Some x" by (auto simp: e split: if_splits)
    show "x \<notin> set (queued ?s2 d)" using sched_ok_curr(1) [OF ok x] tc cong(5) by (auto simp: queued_upd_cfs)
    show "se_cfs_rq (ses ?s2 x) = d" using sched_ok_curr(2) [OF ok x] by (auto simp: e)
  qed
  have b: "buddies_ok ?s2" using s(2) buddies unfolding buddies_ok_def m2 cong(4) by (auto split: if_splits)
  have h: "hier_ok ?s2" using s(3) by (subst hier_cong [of _ s]) simp_all
  have a: "acct_ok ?s2 (members st)" using acct by (subst acct_fields [of _ s]) simp_all
  have sh: "shape_view ?s3 = shape_view ?s2" by simp
  have "sched_ok ?s3"
    using shape_cong [OF sh] tl b h m2 acct_dequeue [OF a on] by (simp add: sched_ok_def)
  moreover have "members ?s3 = (members st)(c := members st c - {se})" using shape_cong [OF sh] m2 by simp
  ultimately show thesis using that [of ?s1] tc by blast
qed


subsection \<open>Buddies\<close>

text \<open>States that differ in cleared buddies only.\<close>

definition no_buddies :: "cfs_rq \<Rightarrow> cfs_rq" where
  "no_buddies q = q\<lparr>cfs_last := None, cfs_next := None, cfs_skip := None\<rparr>"

definition buddies_cleared :: "sched_state \<Rightarrow> sched_state \<Rightarrow> bool" where
  "buddies_cleared st st' \<longleftrightarrow> ses st' = ses st \<and> tgs st' = tgs st \<and>
     (\<forall>d. no_buddies (cfs_rqs st' d) = no_buddies (cfs_rqs st d) \<and>
        (cfs_last (cfs_rqs st' d) = cfs_last (cfs_rqs st d) \<or> cfs_last (cfs_rqs st' d) = None) \<and>
        (cfs_next (cfs_rqs st' d) = cfs_next (cfs_rqs st d) \<or> cfs_next (cfs_rqs st' d) = None) \<and>
        (cfs_skip (cfs_rqs st' d) = cfs_skip (cfs_rqs st d) \<or> cfs_skip (cfs_rqs st' d) = None))"

lemma no_buddies_sel:
  "timeline_of (no_buddies q) = timeline_of q" "cfs_curr (no_buddies q) = cfs_curr q" "cfs_tg (no_buddies q) = cfs_tg q"
  "cfs_rq_cpu (no_buddies q) = cfs_rq_cpu q" "cfs_nr_running (no_buddies q) = cfs_nr_running q"
  "cfs_load (no_buddies q) = cfs_load q" "cfs_min_vruntime (no_buddies q) = cfs_min_vruntime q"
  by (simp_all add: no_buddies_def timeline_of_def)

lemma buddies_cleared_refl: "buddies_cleared st st"
  by (simp add: buddies_cleared_def)

lemma buddies_cleared_trans: "buddies_cleared st st1 \<Longrightarrow> buddies_cleared st1 st2 \<Longrightarrow> buddies_cleared st st2"
  unfolding buddies_cleared_def by (elim conjE, intro conjI allI) (simp_all, metis+)

lemma buddies_cleared_upd:
  "buddies_cleared st (upd_cfs c (\<lambda>q. q\<lparr>cfs_last := None\<rparr>) st)"
  "buddies_cleared st (upd_cfs c (\<lambda>q. q\<lparr>cfs_next := None\<rparr>) st)"
  "buddies_cleared st (upd_cfs c (\<lambda>q. q\<lparr>cfs_skip := None\<rparr>) st)"
  by (simp_all add: buddies_cleared_def no_buddies_def)

lemma clear_last_step:
  "buddies_cleared st (clear_buddies_last es st)"
  "es = se # es' \<Longrightarrow> cfs_last (cfs_rqs (clear_buddies_last es st) (cfs_rq_of st se)) \<noteq> Some se"
proof -
  show c: "buddies_cleared st (clear_buddies_last es st)" for es st
    by (induction es st rule: clear_buddies_last.induct)
      (auto intro: buddies_cleared_refl buddies_cleared_trans [OF buddies_cleared_upd(1)])
  assume es: "es = se # es'"
  let ?u = "upd_cfs (cfs_rq_of st se) (\<lambda>q. q\<lparr>cfs_last := None\<rparr>) st"
  have "cfs_last (cfs_rqs (clear_buddies_last es' ?u) (cfs_rq_of st se)) = None"
    using c [of ?u es'] unfolding buddies_cleared_def by (auto dest!: spec [of _ "cfs_rq_of st se"])
  then show "cfs_last (cfs_rqs (clear_buddies_last es st) (cfs_rq_of st se)) \<noteq> Some se" by (simp add: es)
qed

lemma clear_next_step:
  "buddies_cleared st (clear_buddies_next es st)"
  "es = se # es' \<Longrightarrow> cfs_next (cfs_rqs (clear_buddies_next es st) (cfs_rq_of st se)) \<noteq> Some se"
proof -
  show c: "buddies_cleared st (clear_buddies_next es st)" for es st
    by (induction es st rule: clear_buddies_next.induct)
      (auto intro: buddies_cleared_refl buddies_cleared_trans [OF buddies_cleared_upd(2)])
  assume es: "es = se # es'"
  let ?u = "upd_cfs (cfs_rq_of st se) (\<lambda>q. q\<lparr>cfs_next := None\<rparr>) st"
  have "cfs_next (cfs_rqs (clear_buddies_next es' ?u) (cfs_rq_of st se)) = None"
    using c [of ?u es'] unfolding buddies_cleared_def by (auto dest!: spec [of _ "cfs_rq_of st se"])
  then show "cfs_next (cfs_rqs (clear_buddies_next es st) (cfs_rq_of st se)) \<noteq> Some se" by (simp add: es)
qed

lemma clear_skip_step:
  "buddies_cleared st (clear_buddies_skip es st)"
  "es = se # es' \<Longrightarrow> cfs_skip (cfs_rqs (clear_buddies_skip es st) (cfs_rq_of st se)) \<noteq> Some se"
proof -
  show c: "buddies_cleared st (clear_buddies_skip es st)" for es st
    by (induction es st rule: clear_buddies_skip.induct)
      (auto intro: buddies_cleared_refl buddies_cleared_trans [OF buddies_cleared_upd(3)])
  assume es: "es = se # es'"
  let ?u = "upd_cfs (cfs_rq_of st se) (\<lambda>q. q\<lparr>cfs_skip := None\<rparr>) st"
  have "cfs_skip (cfs_rqs (clear_buddies_skip es' ?u) (cfs_rq_of st se)) = None"
    using c [of ?u es'] unfolding buddies_cleared_def by (auto dest!: spec [of _ "cfs_rq_of st se"])
  then show "cfs_skip (cfs_rqs (clear_buddies_skip es st) (cfs_rq_of st se)) \<noteq> Some se" by (simp add: es)
qed

lemma buddies_cleared_fields:
  assumes "buddies_cleared st st'"
  shows "ses st' = ses st" "tgs st' = tgs st" "timeline_of (cfs_rqs st' d) = timeline_of (cfs_rqs st d)"
    "cfs_curr (cfs_rqs st' d) = cfs_curr (cfs_rqs st d)" "cfs_tg (cfs_rqs st' d) = cfs_tg (cfs_rqs st d)"
    "cfs_rq_cpu (cfs_rqs st' d) = cfs_rq_cpu (cfs_rqs st d)" "cfs_nr_running (cfs_rqs st' d) = cfs_nr_running (cfs_rqs st d)"
    "cfs_load (cfs_rqs st' d) = cfs_load (cfs_rqs st d)" "cfs_min_vruntime (cfs_rqs st' d) = cfs_min_vruntime (cfs_rqs st d)"
    "cfs_last (cfs_rqs st' d) = Some e \<Longrightarrow> cfs_last (cfs_rqs st d) = Some e"
    "cfs_next (cfs_rqs st' d) = Some e \<Longrightarrow> cfs_next (cfs_rqs st d) = Some e"
    "cfs_skip (cfs_rqs st' d) = Some e \<Longrightarrow> cfs_skip (cfs_rqs st d) = Some e"
proof -
  show "ses st' = ses st" "tgs st' = tgs st" using assms by (simp_all add: buddies_cleared_def)
  have n: "no_buddies (cfs_rqs st' d) = no_buddies (cfs_rqs st d)" using assms by (simp add: buddies_cleared_def)
  show "timeline_of (cfs_rqs st' d) = timeline_of (cfs_rqs st d)"
    "cfs_curr (cfs_rqs st' d) = cfs_curr (cfs_rqs st d)" "cfs_tg (cfs_rqs st' d) = cfs_tg (cfs_rqs st d)"
    "cfs_rq_cpu (cfs_rqs st' d) = cfs_rq_cpu (cfs_rqs st d)" "cfs_nr_running (cfs_rqs st' d) = cfs_nr_running (cfs_rqs st d)"
    "cfs_load (cfs_rqs st' d) = cfs_load (cfs_rqs st d)" "cfs_min_vruntime (cfs_rqs st' d) = cfs_min_vruntime (cfs_rqs st d)"
    using no_buddies_sel [of "cfs_rqs st' d"] no_buddies_sel [of "cfs_rqs st d"] unfolding n by simp_all
  have "cfs_last (cfs_rqs st' d) = cfs_last (cfs_rqs st d) \<or> cfs_last (cfs_rqs st' d) = None"
    "cfs_next (cfs_rqs st' d) = cfs_next (cfs_rqs st d) \<or> cfs_next (cfs_rqs st' d) = None"
    "cfs_skip (cfs_rqs st' d) = cfs_skip (cfs_rqs st d) \<or> cfs_skip (cfs_rqs st' d) = None"
    using assms by (simp_all add: buddies_cleared_def)
  then show "cfs_last (cfs_rqs st' d) = Some e \<Longrightarrow> cfs_last (cfs_rqs st d) = Some e"
    "cfs_next (cfs_rqs st' d) = Some e \<Longrightarrow> cfs_next (cfs_rqs st d) = Some e"
    "cfs_skip (cfs_rqs st' d) = Some e \<Longrightarrow> cfs_skip (cfs_rqs st d) = Some e"
    by auto
qed

lemma sched_ok_cleared:
  assumes "buddies_cleared st st'" "sched_ok st"
  shows "sched_ok st'" "members st' = members st" "queued st' = queued st"
proof -
  note f = buddies_cleared_fields [OF assms(1)]
  show m: "members st' = members st" and q: "queued st' = queued st" by (simp_all add: fun_eq_iff members_def queued_def f)
  have "timelines_ok st'" using assms(2) by (simp add: sched_ok_def timelines_ok_def timeline_ok_def running_def m q f)
  moreover have "buddies_ok st'" using assms(2) f(10-12) unfolding sched_ok_def buddies_ok_def m by blast
  moreover have "hier_ok st'" using assms(2) by (subst hier_cong [of _ st]) (simp_all add: f sched_ok_def)
  moreover have "acct_ok st' (members st')" using assms(2) unfolding m by (subst acct_fields [of _ st]) (simp_all add: f sched_ok_def)
  ultimately show "sched_ok st'" by (simp add: sched_ok_def)
qed

lemma clear_buddies_ok:
  assumes "sched_ok st" "c = se_cfs_rq (ses st se)"
  obtains st' where "clear_buddies c se st = Some st'" "buddies_cleared st st'"
    "\<And>d. cfs_next (cfs_rqs st' d) \<noteq> Some se \<and> cfs_last (cfs_rqs st' d) \<noteq> Some se \<and> cfs_skip (cfs_rqs st' d) \<noteq> Some se"
proof -
  have "for_each_sched_entity st (Some se) \<noteq> None" using assms(1) unfolding sched_ok_def hier_ok_def by blast
  then obtain es where es: "for_each_sched_entity st (Some se) = Some es" by auto
  then obtain es' where cons: "es = se # es'" unfolding for_each_sched_entity_def by (rule ancestors_Cons)
  define s1 where "s1 = (if cfs_last (cfs_rqs st c) = Some se then clear_buddies_last es st else st)"
  define s2 where "s2 = (if cfs_next (cfs_rqs s1 c) = Some se then clear_buddies_next es s1 else s1)"
  define s3 where "s3 = (if cfs_skip (cfs_rqs s2 c) = Some se then clear_buddies_skip es s2 else s2)"
  have c1: "buddies_cleared st s1" "cfs_last (cfs_rqs s1 c) \<noteq> Some se"
    using clear_last_step(1) [where st = st and es = es] clear_last_step(2) [OF cons, where st = st] assms(2)
    by (auto simp: s1_def buddies_cleared_refl cfs_rq_of_def)
  have q1: "cfs_rq_of s1 se = c" using buddies_cleared_fields [OF c1(1)] assms(2) by (simp add: cfs_rq_of_def)
  have c2: "buddies_cleared s1 s2" "cfs_next (cfs_rqs s2 c) \<noteq> Some se"
    using clear_next_step(1) [where st = s1 and es = es] clear_next_step(2) [OF cons, where st = s1] q1 by (auto simp: s2_def buddies_cleared_refl)
  have q2: "cfs_rq_of s2 se = c" using buddies_cleared_fields [OF c2(1)] q1 by (simp add: cfs_rq_of_def)
  have c3: "buddies_cleared s2 s3" "cfs_skip (cfs_rqs s3 c) \<noteq> Some se"
    using clear_skip_step(1) [where st = s2 and es = es] clear_skip_step(2) [OF cons, where st = s2] q2 by (auto simp: s3_def buddies_cleared_refl)
  have c23: "buddies_cleared s1 s3" using c2(1) c3(1) by (rule buddies_cleared_trans)
  have all: "buddies_cleared st s3" using c1(1) c23 by (rule buddies_cleared_trans)
  have at_c: "cfs_next (cfs_rqs s3 c) \<noteq> Some se \<and> cfs_last (cfs_rqs s3 c) \<noteq> Some se \<and> cfs_skip (cfs_rqs s3 c) \<noteq> Some se"
    using c3(2) c1(2) c2(2) buddies_cleared_fields(10) [OF c23, of c se] buddies_cleared_fields(11) [OF c3(1), of c se] by blast
  have "clear_buddies c se st = Some s3"
    unfolding clear_buddies_def es s3_def s2_def s1_def by (simp add: Let_def)
  moreover have "cfs_next (cfs_rqs s3 d) \<noteq> Some se \<and> cfs_last (cfs_rqs s3 d) \<noteq> Some se \<and> cfs_skip (cfs_rqs s3 d) \<noteq> Some se" for d
  proof (cases "d = c")
    case False
    have "buddies_ok s3" "members s3 = members st" using sched_ok_cleared [OF all assms(1)] by (simp_all add: sched_ok_def)
    then show ?thesis using False assms(2) unfolding buddies_ok_def by (auto simp: members_def)
  qed (use at_c in simp)
  ultimately show thesis using that all by blast
qed


subsection \<open>Operations preserve the invariant\<close>

lemma place_entity_wakeup: "\<exists>st'. place_entity c se False st = Some st' \<and> core_view st' = core_view st"
  by (simp add: place_entity_def core_view_upd view_defs)

lemma enqueue_entity_ok:
  assumes ok: "sched_ok st" and off: "\<not> se_on_rq (ses st se)" "se_cfs_rq (ses st se) = c"
  shows "\<exists>st'. enqueue_entity c se flags st = Some st' \<and> sched_ok st' \<and>
    members st' = (members st)(c := insert se (members st c))"
proof -
  let ?w = "flags AND ENQUEUE_WAKEUP \<noteq> 0"
  define s1 where "s1 = (if \<not> ?w \<or> flags AND ENQUEUE_WAKING \<noteq> 0
    then upd_se se (\<lambda>e. e\<lparr>se_vruntime := se_vruntime e + cfs_min_vruntime (cfs_rqs st c)\<rparr>) st else st)"
  define s2 where "s2 = enqueue_entity_load_avg c se ?w (update_curr c s1)"
  define s4 where "s4 = update_cfs_shares c (account_entity_enqueue c se s2)"
  have v2: "core_view s2 = core_view st" by (simp add: s2_def s1_def core_view_upd view_defs)
  note e2 = core_view_eq [OF v2]
  have ok2: "sched_ok s2" using sched_ok_core [OF v2] ok by simp
  have m2: "members s2 = members st" by (simp add: fun_eq_iff members_def e2)
  have off2: "\<not> se_on_rq (ses s2 se)" "se_cfs_rq (ses s2 se) = c" using off e2 by simp_all
  let ?M = "(members s2)(c := insert se (members s2 c))"
  have a3: "acct_ok (account_entity_enqueue c se s2) ?M"
    using ok2 off2 by (intro acct_enqueue) (simp_all add: sched_ok_def members_def)
  have sh3: "shape_view (account_entity_enqueue c se s2) = shape_view s2" by simp
  have a4: "acct_ok s4 ?M"
    unfolding s4_def
  proof (rule acct_update_cfs_shares [OF a3])
    fix g
    assume "tg_se (tgs (account_entity_enqueue c se s2) (cfs_tg (cfs_rqs (account_entity_enqueue c se s2) c)))
      (cfs_rq_cpu (cfs_rqs (account_entity_enqueue c se s2) c)) = Some g"
    then have "tg_se (tgs s2 (cfs_tg (cfs_rqs s2 c))) (cfs_rq_cpu (cfs_rqs s2 c)) = Some g"
      using shape_view_eq [OF sh3] by simp
    then have "se_cfs_rq (ses s2 g) \<noteq> c" using ok2 unfolding sched_ok_def hier_ok_def by blast
    then show "se_on_rq (ses (account_entity_enqueue c se s2) g) \<longleftrightarrow> g \<in> ?M (se_cfs_rq (ses (account_entity_enqueue c se s2) g))"
      by (simp add: members_def)
  qed
  have sh4: "shape_view s4 = shape_view s2" by (simp add: s4_def)
  obtain s5 where s5: "(if ?w then do { st \<leftarrow> place_entity c se False s4; Some (enqueue_sleeper c se st) } else Some s4) = Some s5"
      "core_view s5 = core_view s4"
    using place_entity_wakeup [of c se s4] core_stats(8) [of c se] by (cases ?w) auto
  let ?s6 = "update_stats_enqueue c se s5"
  have v6: "core_view ?s6 = core_view s4" using s5(2) by simp
  have sh6: "shape_view ?s6 = shape_view s2" using core_view_eq(16) [OF v6] sh4 by simp
  have a6: "acct_ok ?s6 ?M" using acct_cong [OF v6] a4 by simp
  obtain s7 where s7: "(if cfs_curr (cfs_rqs ?s6 c) \<noteq> Some se then enqueue_entity_tree c se ?s6 else Some ?s6) = Some s7"
    "sched_ok (upd_se se (\<lambda>e. e\<lparr>se_on_rq := True\<rparr>) s7)" "members (upd_se se (\<lambda>e. e\<lparr>se_on_rq := True\<rparr>) s7) = ?M"
    by (rule insert_member [OF ok2 sh6 a6 off2])
  let ?s8 = "upd_se se (\<lambda>e. e\<lparr>se_on_rq := True\<rparr>) s7"
  let ?s9 = "if cfs_nr_running (cfs_rqs ?s8 c) = 1 then list_add_leaf_cfs_rq c ?s8 else ?s8"
  have v9: "core_view ?s9 = core_view ?s8" by simp
  have "enqueue_entity c se flags st = Some ?s9"
    using s5(1) s7(1) unfolding enqueue_entity_def Let_def s1_def [symmetric] s2_def [symmetric] s4_def [symmetric]
    by (simp split: bind_splits)
  moreover have "sched_ok ?s9" using sched_ok_core [OF v9] s7(2) by blast
  moreover have "members ?s9 = ?M" using shape_cong(4) [OF core_view_eq(16) [OF v9]] s7(3) by simp
  ultimately show ?thesis unfolding m2 by blast
qed

lemma dequeue_entity_ok:
  assumes ok: "sched_ok st" and on: "se \<in> members st c"
  shows "\<exists>st'. dequeue_entity c se flags st = Some st' \<and> sched_ok st' \<and>
    members st' = (members st)(c := members st c - {se})"
proof -
  let ?sl = "flags AND DEQUEUE_SLEEP \<noteq> 0"
  define s1 where "s1 = update_stats_dequeue c se (dequeue_entity_load_avg c se ?sl (update_curr c st))"
  define s2 where "s2 = (if ?sl then sleep_stats c se s1 else s1)"
  have v2: "core_view s2 = core_view st" by (simp add: s2_def s1_def)
  note e2 = core_view_eq [OF v2]
  have ok2: "sched_ok s2" using sched_ok_core [OF v2] ok by simp
  have m2: "members s2 = members st" by (simp add: fun_eq_iff members_def e2)
  have "c = se_cfs_rq (ses s2 se)" using on e2 by (simp add: members_def)
  then obtain s3 where s3: "clear_buddies c se s2 = Some s3" "buddies_cleared s2 s3"
    "\<And>d. cfs_next (cfs_rqs s3 d) \<noteq> Some se \<and> cfs_last (cfs_rqs s3 d) \<noteq> Some se \<and> cfs_skip (cfs_rqs s3 d) \<noteq> Some se"
    by (rule clear_buddies_ok [OF ok2]) blast
  have ok3: "sched_ok s3" "members s3 = members st" using sched_ok_cleared [OF s3(2) ok2] m2 by simp_all
  have acct3: "acct_ok s3 (members s3)" and on3: "se \<in> members s3 c" using ok3 on by (simp_all add: sched_ok_def)
  obtain s4 where s4: "(if cfs_curr (cfs_rqs s3 c) \<noteq> Some se then dequeue_entity_tree c se s3 else Some s3) = Some s4"
    "sched_ok (account_entity_dequeue c se (upd_se se (\<lambda>e. e\<lparr>se_on_rq := False\<rparr>) s4))"
    "members (account_entity_dequeue c se (upd_se se (\<lambda>e. e\<lparr>se_on_rq := False\<rparr>) s4)) = (members s3)(c := members s3 c - {se})"
    by (rule remove_member [OF ok3(1) refl acct3 on3 s3(3)])
  let ?s5 = "account_entity_dequeue c se (upd_se se (\<lambda>e. e\<lparr>se_on_rq := False\<rparr>) s4)"
  let ?s6 = "if \<not> ?sl then upd_se se (\<lambda>e. e\<lparr>se_vruntime := se_vruntime e - cfs_min_vruntime (cfs_rqs ?s5 c)\<rparr>) ?s5 else ?s5"
  have v7: "core_view (update_min_vruntime c ?s6) = core_view ?s5" by (simp add: core_view_upd view_defs)
  have ok7: "sched_ok (update_min_vruntime c ?s6)" using sched_ok_core [OF v7] s4(2) by blast
  have "dequeue_entity c se flags st = Some (update_cfs_shares c (update_min_vruntime c ?s6))"
    using s3(1) s4(1) unfolding dequeue_entity_def Let_def s1_def [symmetric] s2_def [symmetric]
    by (simp split: bind_splits)
  moreover have "sched_ok (update_cfs_shares c (update_min_vruntime c ?s6))" using ok7 by (rule sched_ok_shares)
  moreover have "members (update_cfs_shares c (update_min_vruntime c ?s6)) = (members st)(c := members st c - {se})"
    using shape_cong(4) [OF shape_update_cfs_shares] shape_cong(4) [OF core_view_eq(16) [OF v7]] s4(3) ok3(2) by simp
  ultimately show ?thesis by blast
qed


lemma core_upd_cfs_cong:
  assumes "core_view s' = core_view s" "\<And>q q'. cfs_core q = cfs_core q' \<Longrightarrow> cfs_core (g q) = cfs_core (g q')"
  shows "core_view (upd_cfs c g s') = core_view (upd_cfs c g s)"
proof -
  have "cfs_core (cfs_rqs s' d) = cfs_core (cfs_rqs s d)" "se_core (ses s' e) = se_core (ses s e)"
      "tg_se (tgs s' t) = tg_se (tgs s t)" for d e t
    using assms(1) by (simp_all add: core_view_def fun_eq_iff)
  then show ?thesis
    by (auto simp: core_view_def fun_eq_iff intro!: assms(2))
qed

lemma core_set_curr:
  "core_view s' = core_view s \<Longrightarrow>
   core_view (upd_cfs c (\<lambda>q. q\<lparr>cfs_curr := x\<rparr>) s') = core_view (upd_cfs c (\<lambda>q. q\<lparr>cfs_curr := x\<rparr>) s)"
  by (rule core_upd_cfs_cong) (simp_all add: view_defs)

text \<open>Exchanging the running entity and the timeline of a queue without changing its members.\<close>

lemma sched_ok_switch:
  assumes ok: "sched_ok s" and tc: "tree_inv tc" "set (tree_seq tc) \<union> {e. x = Some e \<and> se_on_rq (ses s e)} = members s c"
    and x: "\<And>e. x = Some e \<Longrightarrow> e \<notin> set (tree_seq tc) \<and> se_cfs_rq (ses s e) = c"
  shows "sched_ok (upd_cfs c (\<lambda>q. q\<lparr>cfs_curr := x\<rparr>) (upd_cfs c (set_timeline tc) s))"
    "members (upd_cfs c (\<lambda>q. q\<lparr>cfs_curr := x\<rparr>) (upd_cfs c (set_timeline tc) s)) = members s"
proof -
  let ?s = "upd_cfs c (\<lambda>q. q\<lparr>cfs_curr := x\<rparr>) (upd_cfs c (set_timeline tc) s)"
  show m: "members ?s = members s" by (simp add: fun_eq_iff members_def)
  have q: "timeline_of (cfs_rqs ?s d) = (if d = c then tc else timeline_of (cfs_rqs s d))" for d
    by (simp add: timeline_of_def set_timeline_def)
  have "timelines_ok ?s"
    unfolding timelines_ok_def
  proof (intro allI conjI impI)
    fix d
    show "timeline_ok ?s d"
      unfolding timeline_ok_def q using ok tc(1) by (simp add: sched_ok_def timelines_ok_def timeline_ok_def)
    show "members ?s d = set (queued ?s d) \<union> running ?s d"
      using sched_ok_members [OF ok, of d] tc(2) unfolding m queued_def q running_def by (auto simp: queued_def)
    fix e assume "cfs_curr (cfs_rqs ?s d) = Some e"
    then show "e \<notin> set (queued ?s d)" "se_cfs_rq (ses ?s e) = d"
      using x sched_ok_curr [OF ok, of d e] unfolding queued_def q by (auto simp: queued_def split: if_splits)
  qed
  moreover have "buddies_ok ?s" using ok unfolding sched_ok_def buddies_ok_def m by simp
  moreover have "hier_ok ?s" using ok by (subst hier_cong [of _ s]) (simp_all add: sched_ok_def)
  moreover have "acct_ok ?s (members ?s)" using ok unfolding m by (subst acct_fields [of _ s]) (simp_all add: sched_ok_def)
  ultimately show "sched_ok ?s" by (simp add: sched_ok_def)
qed

lemma set_next_entity_ok:
  assumes ok: "sched_ok st" and none: "cfs_curr (cfs_rqs st c) = None" and q: "se \<in> set (queued st c)"
  shows "\<exists>st'. set_next_entity c se st = Some st' \<and> sched_ok st' \<and> members st' = members st \<and>
    cfs_curr (cfs_rqs st' c) = Some se \<and> queued st' c = remove1 se (queued st c)"
proof -
  have mem: "members st c = set (queued st c)" using sched_ok_members [OF ok, of c] none by (simp add: running_def)
  have on: "se_on_rq (ses st se)" "se_cfs_rq (ses st se) = c" using q mem by (auto simp: members_def)
  let ?s1 = "update_stats_wait_end c se st"
  have v1: "core_view ?s1 = core_view st" by simp
  note c1 = shape_cong [OF core_view_eq(16) [OF v1]] and e1 = core_view_eq [OF v1]
  have ok1: "sched_ok ?s1" using sched_ok_core [OF v1] ok by simp
  have t1: "timeline_ok ?s1 c" using ok1 by (simp add: sched_ok_def timelines_ok_def)
  obtain tc where tc: "dequeue_entity_tree c se ?s1 = Some (upd_cfs c (set_timeline tc) ?s1)"
    "tree_inv tc" "tree_seq tc = remove1 se (queued ?s1 c)"
    by (rule dequeue_entity_tree_ok [OF t1]) (use q c1 in auto)
  have seq: "set (tree_seq tc) = set (queued st c) - {se}" using tc(3) c1 timeline_ok_distinct [OF t1] by simp
  let ?s2 = "update_stats_curr_start c se (update_entity_load_avg se True (upd_cfs c (set_timeline tc) ?s1))"
  let ?set = "upd_cfs c (\<lambda>q. q\<lparr>cfs_curr := Some se\<rparr>)"
  let ?s3 = "?set ?s2"
  have v3: "core_view ?s3 = core_view (?set (upd_cfs c (set_timeline tc) ?s1))" by (rule core_set_curr) simp
  have ok3: "sched_ok (?set (upd_cfs c (set_timeline tc) ?s1))" "members (?set (upd_cfs c (set_timeline tc) ?s1)) = members ?s1"
    by (rule sched_ok_switch [OF ok1 tc(2)]; use seq q on mem c1 e1 in auto)+
  obtain s4 where s4: "set_next_entity c se st = Some s4" "core_view s4 = core_view ?s3"
    using on(1) tc(1) by (simp add: set_next_entity_def Let_def core_view_upd view_defs)
  have v4: "core_view s4 = core_view (?set (upd_cfs c (set_timeline tc) ?s1))" using s4(2) v3 by simp
  have "sched_ok s4" using sched_ok_core [OF v4] ok3(1) by blast
  moreover have "members s4 = members st" using shape_cong(4) [OF core_view_eq(16) [OF v4]] ok3(2) c1(4) by simp
  moreover have "cfs_curr (cfs_rqs s4 c) = Some se" using core_view_eq(7) [OF v4, of c] by simp
  moreover have "queued s4 c = remove1 se (queued st c)"
    using shape_cong(5) [OF core_view_eq(16) [OF v4]] tc(3) c1(5) by (simp add: queued_def timeline_of_def set_timeline_def)
  ultimately show ?thesis using s4(1) by blast
qed

lemma put_prev_entity_ok:
  assumes ok: "sched_ok st" and cur: "cfs_curr (cfs_rqs st c) = Some prev"
  shows "\<exists>st'. put_prev_entity c prev st = Some st' \<and> sched_ok st' \<and> members st' = members st \<and>
    cfs_curr (cfs_rqs st' c) = None"
proof -
  have nq: "prev \<notin> set (queued st c)" "se_cfs_rq (ses st prev) = c" using sched_ok_curr [OF ok cur] by simp_all
  define s1 where "s1 = (if se_on_rq (ses st prev) then update_stats_wait_start c prev (update_curr c st) else st)"
  have v1: "core_view s1 = core_view st" by (simp add: s1_def)
  note c1 = shape_cong [OF core_view_eq(16) [OF v1]] and e1 = core_view_eq [OF v1]
  have ok1: "sched_ok s1" using sched_ok_core [OF v1] ok by simp
  have t1: "timeline_ok s1 c" "prev \<notin> set (queued s1 c)" using ok1 nq c1 by (simp_all add: sched_ok_def timelines_ok_def)
  let ?set = "upd_cfs c (\<lambda>q. q\<lparr>cfs_curr := None\<rparr>)"
  obtain tc s2 where s2: "put_prev_entity c prev st = Some (?set s2)" "core_view s2 = core_view (upd_cfs c (set_timeline tc) s1)"
    "tree_inv tc" "set (tree_seq tc) = members s1 c"
  proof (cases "se_on_rq (ses st prev)")
    case True
    obtain tc where tc: "enqueue_entity_tree c prev s1 = Some (upd_cfs c (set_timeline tc) s1)" "tree_inv tc"
      "set (tree_seq tc) = insert prev (set (queued s1 c))"
      by (rule enqueue_entity_tree_ok [OF t1])
    have "se_on_rq (ses (update_curr c st) prev)" using True core_view_eq(1) [OF core_update_curr] by simp
    then have "put_prev_entity c prev st = Some (?set (update_entity_load_avg prev True (upd_cfs c (set_timeline tc) s1)))"
      using True tc(1) by (simp add: put_prev_entity_def s1_def)
    moreover have "set (tree_seq tc) = members s1 c"
      using tc(3) sched_ok_members [OF ok1, of c] cur True e1 by (auto simp: running_def)
    ultimately show ?thesis using that tc(2) by simp
  next
    case False
    let ?tc = "timeline_of (cfs_rqs s1 c)"
    have "upd_cfs c (set_timeline ?tc) s1 = s1" by (simp add: upd_cfs_def set_timeline_def timeline_of_def)
    moreover have "put_prev_entity c prev st = Some (?set s1)" using False by (simp add: put_prev_entity_def s1_def)
    moreover have "set (tree_seq ?tc) = members s1 c"
      using sched_ok_members [OF ok1, of c] cur False e1 by (auto simp: running_def queued_def)
    moreover have "tree_inv ?tc" using t1 by (simp add: timeline_ok_def)
    ultimately show ?thesis using that [of s1 ?tc] by simp
  qed
  have v: "core_view (?set s2) = core_view (?set (upd_cfs c (set_timeline tc) s1))" using s2(2) by (rule core_set_curr)
  have ok3: "sched_ok (?set (upd_cfs c (set_timeline tc) s1))" "members (?set (upd_cfs c (set_timeline tc) s1)) = members s1"
    by (rule sched_ok_switch [OF ok1 s2(3)]; use s2(4) in simp)+
  have "sched_ok (?set s2)" using sched_ok_core [OF v] ok3(1) by blast
  moreover have "members (?set s2) = members st" using shape_cong(4) [OF core_view_eq(16) [OF v]] ok3(2) c1(4) by simp
  ultimately show ?thesis using s2(1) by simp
qed

text \<open>Picking: every candidate is queued.\<close>

lemma prefer_buddy_ok:
  assumes "core_view s = core_view st" "x \<in> Q" "\<And>y. cand = Some y \<Longrightarrow> y \<in> Q"
  shows "core_view (snd (prefer_buddy cand left (x, s))) = core_view st \<and> fst (prefer_buddy cand left (x, s)) \<in> Q"
proof (cases cand)
  case None
  then show ?thesis using assms by (simp add: prefer_buddy_def)
next
  case (Some y)
  obtain r s' where w: "wakeup_preempt_entity y left s = (r, s')" by fastforce
  then have "core_view s' = core_view st" using core_wakeup_preempt [of y left s] assms(1) by simp
  with w Some show ?thesis using assms(2,3) by (simp add: prefer_buddy_def)
qed

lemma pick_next_entity_ok:
  assumes ok: "sched_ok st" and none: "cfs_curr (cfs_rqs st c) = None" and ne: "members st c \<noteq> {}"
  shows "\<exists>se st'. pick_next_entity c st = Some (se, st') \<and> sched_ok st' \<and> members st' = members st \<and>
    queued st' = queued st \<and> cfs_curr (cfs_rqs st' c) = None \<and> se \<in> set (queued st c)"
proof -
  have mem: "members st c = set (queued st c)" using sched_ok_members [OF ok, of c] none by (simp add: running_def)
  have t: "timeline_ok st c" using ok by (simp add: sched_ok_def timelines_ok_def)
  obtain left rest where left: "queued st c = left # rest" using ne mem by (cases "queued st c") auto
  then have first: "pick_first_entity st c = Some left" "left \<in> set (queued st c)" using pick_first_queued [OF t] by simp_all
  have cand: "y \<in> set (queued st c)" if "cfs_last (cfs_rqs st c) = Some y \<or> cfs_next (cfs_rqs st c) = Some y" for y
    using ok that mem unfolding sched_ok_def buddies_ok_def by blast
  have second: "y \<in> set (queued st c)" if "pick_next_in_tree st left = Some y" for y
  proof -
    have "se_cfs_rq (ses st left) = c" using first(2) mem by (auto simp: members_def)
    then have "rb_next left (cfs_tasks_timeline (cfs_rqs st c)) = Some y" using that by (simp add: pick_next_in_tree_def)
    moreover have i: "inorder (cfs_tasks_timeline (cfs_rqs st c)) = [] @ left # rest"
      using left by (simp add: queued_def tree_seq_def timeline_of_def)
    moreover have "distinct (inorder (cfs_tasks_timeline (cfs_rqs st c)))"
      using timeline_ok_distinct [OF t] by (simp add: queued_def tree_seq_def timeline_of_def)
    ultimately have "first_of rest = Some y" using rb_next_inorder [OF i] by simp
    then show ?thesis using left by (cases rest) auto
  qed
  let ?Q = "set (queued st c)"
  define p1 where "p1 = (if cfs_skip (cfs_rqs st c) = Some left then prefer_buddy (pick_next_in_tree st left) left (left, st) else (left, st))"
  have p1: "core_view (snd p1) = core_view st \<and> fst p1 \<in> ?Q"
    using prefer_buddy_ok [of st st left ?Q "pick_next_in_tree st left" left] first(2) second by (auto simp: p1_def)
  note e1 = core_view_eq [OF p1 [THEN conjunct1]]
  define p2 where "p2 = prefer_buddy (cfs_last (cfs_rqs (snd p1) c)) left p1"
  have p2: "core_view (snd p2) = core_view st \<and> fst p2 \<in> ?Q"
    using prefer_buddy_ok [of "snd p1" st "fst p1" ?Q "cfs_last (cfs_rqs (snd p1) c)" left] p1 cand e1 by (simp add: p2_def)
  note e2 = core_view_eq [OF p2 [THEN conjunct1]]
  define p3 where "p3 = prefer_buddy (cfs_next (cfs_rqs (snd p2) c)) left p2"
  have p3: "core_view (snd p3) = core_view st \<and> fst p3 \<in> ?Q"
    using prefer_buddy_ok [of "snd p2" st "fst p2" ?Q "cfs_next (cfs_rqs (snd p2) c)" left] p2 cand e2 by (simp add: p3_def)
  note v3 = p3 [THEN conjunct1]
  have ok3: "sched_ok (snd p3)" using sched_ok_core [OF v3] ok by simp
  have "fst p3 \<in> members st c" using p3 mem by simp
  then have "c = se_cfs_rq (ses (snd p3) (fst p3))" using core_view_eq(2) [OF v3] by (simp add: members_def)
  then obtain s4 where s4: "clear_buddies c (fst p3) (snd p3) = Some s4" "buddies_cleared (snd p3) s4"
    by (rule clear_buddies_ok [OF ok3]) blast
  have "pick_next_entity c st = Some (fst p3, s4)"
    using s4(1) unfolding p3_def p2_def p1_def
    by (simp add: pick_next_entity_def first(1) Let_def case_prod_beta)
  moreover have "sched_ok s4" "members s4 = members st" "queued s4 = queued st"
    using sched_ok_cleared [OF s4(2) ok3] shape_cong(4,5) [OF core_view_eq(16) [OF v3]] by simp_all
  moreover have "cfs_curr (cfs_rqs s4 c) = None"
    using buddies_cleared_fields(4) [OF s4(2), of c] core_view_eq(7) [OF v3, of c] none by simp
  ultimately show ?thesis using p3 by blast
qed

lemma tick_timeline:
  assumes "sched_ok st" "1 < cfs_nr_running (cfs_rqs st c)"
  shows "\<exists>x. pick_first_entity st c = Some x"
proof -
  have n: "cfs_nr_running (cfs_rqs st c) = of_nat (card (members st c))" using assms(1) by (simp add: sched_ok_def acct_ok_def)
  have "\<not> card (members st c) \<le> 1"
  proof
    assume "card (members st c) \<le> 1"
    then have "card (members st c) = 0 \<or> card (members st c) = 1" by linarith
    then show False using assms(2) n by auto
  qed
  moreover have "card (running st c) \<le> 1" by (cases "cfs_curr (cfs_rqs st c)") (auto simp: running_def card_le_Suc0_iff_eq)
  ultimately have "queued st c \<noteq> []" using sched_ok_members [OF assms(1), of c] by auto
  moreover have "timeline_ok st c" using assms(1) by (simp add: sched_ok_def timelines_ok_def)
  ultimately show ?thesis using pick_first_queued by (cases "queued st c") auto
qed

lemma sched_slice_total: "sched_ok st \<Longrightarrow> \<exists>s st'. sched_slice c se st = Some (s, st') \<and> core_view st' = core_view st"
proof -
  assume "sched_ok st"
  then have "for_each_sched_entity st (Some se) \<noteq> None" unfolding sched_ok_def hier_ok_def by blast
  then obtain es where "for_each_sched_entity st (Some se) = Some es" by auto
  then have s: "sched_slice c se st = Some (slice_loop es (sched_period st (ucast (cfs_nr_running (cfs_rqs st c) +
      (if se_on_rq (ses st se) then 0 else 1)))) st)" by (simp add: sched_slice_def)
  show ?thesis unfolding s by (rule exI, rule exI, rule conjI [OF arg_cong [of _ _ Some, OF prod.collapse [symmetric]] core_slice_loop])
qed

lemma check_preempt_tick_ok:
  assumes ok: "sched_ok st" and "1 < cfs_nr_running (cfs_rqs st c)" "se_cfs_rq (ses st cur) = c"
  shows "\<exists>st'. check_preempt_tick c cur st = Some st' \<and> sched_ok st' \<and> members st' = members st \<and>
    cfs_curr (cfs_rqs st' c) = cfs_curr (cfs_rqs st c)"
proof -
  obtain s s1 where s1: "sched_slice c cur st = Some (s, s1)" "core_view s1 = core_view st" using sched_slice_total [OF ok] by blast
  note e1 = core_view_eq [OF s1(2)]
  have ok1: "sched_ok s1" using sched_ok_core [OF s1(2)] ok by simp
  obtain x where x: "pick_first_entity s1 c = Some x" using tick_timeline [OF ok1, of c] assms(2) e1(13) by auto
  define s2 where "s2 = resched_task (rq_curr (rqs s1 (rq_of s1 c))) s1"
  have v2: "core_view s2 = core_view s1" by (simp add: s2_def)
  have ok2: "sched_ok s2" using sched_ok_core [OF v2] ok1 by simp
  have "c = se_cfs_rq (ses s2 cur)" using assms(3) e1 core_view_eq [OF v2] by simp
  then obtain s3 where s3: "clear_buddies c cur s2 = Some s3" "buddies_cleared s2 s3" by (rule clear_buddies_ok [OF ok2]) blast
  have keep: "sched_ok s' \<and> members s' = members st \<and> cfs_curr (cfs_rqs s' c) = cfs_curr (cfs_rqs st c)" if "core_view s' = core_view st" for s'
    using that sched_ok_core [OF that] ok shape_cong(4) [OF core_view_eq(16) [OF that]] core_view_eq(7) [OF that] by simp
  have v21: "core_view s2 = core_view st" using v2 s1(2) by simp
  have "sched_ok s3 \<and> members s3 = members st \<and> cfs_curr (cfs_rqs s3 c) = cfs_curr (cfs_rqs st c)"
    using sched_ok_cleared [OF s3(2) ok2] buddies_cleared_fields(4) [OF s3(2)] keep [OF v21] by simp
  then show ?thesis
    using s1(1) x s3(1) keep [OF s1(2)] keep [OF v21] by (simp add: check_preempt_tick_def s2_def [symmetric] Let_def)
qed

lemma entity_tick_ok:
  assumes ok: "sched_ok st" and cur: "cfs_curr (cfs_rqs st c) = Some cur"
  shows "\<exists>st'. entity_tick c cur st = Some st' \<and> sched_ok st' \<and> members st' = members st \<and>
    cfs_curr (cfs_rqs st' c) = Some cur"
proof -
  define s1 where "s1 = update_cfs_rq_blocked_load c True (update_entity_load_avg cur True (update_curr c st))"
  have v1: "core_view s1 = core_view st" by (simp add: s1_def)
  let ?s2 = "update_cfs_shares c s1"
  have ok2: "sched_ok ?s2" using sched_ok_shares sched_ok_core [OF v1] ok by blast
  have sh: "shape_view ?s2 = shape_view st" using core_view_eq(16) [OF v1] by simp
  have cur2: "cfs_curr (cfs_rqs ?s2 c) = Some cur" "se_cfs_rq (ses ?s2 cur) = c" "members ?s2 = members st"
    using shape_view_eq [OF sh] cur sched_ok_curr(2) [OF ok cur] shape_cong(4) [OF sh] by simp_all
  show ?thesis
    using check_preempt_tick_ok [OF ok2 _ cur2(2)] ok2 cur2
    by (cases "1 < cfs_nr_running (cfs_rqs ?s2 c)") (simp_all add: entity_tick_def s1_def [symmetric] Let_def)
qed


subsection \<open>Fair placement, shares\<close>

text \<open>C38. The credit of a sleeper is bounded: \<open>place_entity\<close> on a waking entity never fails and puts it at the
  later of its own virtual runtime and half a latency period before the clock of the queue.  Nothing
  but the virtual runtime of this entity changes in the whole state.\<close>

theorem place_entity_bounds:
  assumes "in_window base (se_vruntime (ses st se))"
    "in_window base (cfs_min_vruntime (cfs_rqs st c) - drop_bit 1 (ucast (sysctl_sched_latency st)))"
  shows "\<exists>v. place_entity c se False st = Some (st\<lparr>ses := (ses st)(se := (ses st se)\<lparr>se_vruntime := v\<rparr>)\<rparr>) \<and>
    vpos base v = max (vpos base (se_vruntime (ses st se)))
      (vpos base (cfs_min_vruntime (cfs_rqs st c) - drop_bit 1 (ucast (sysctl_sched_latency st))))"
proof -
  let ?v = "max_vruntime (se_vruntime (ses st se)) (cfs_min_vruntime (cfs_rqs st c) - drop_bit 1 (ucast (sysctl_sched_latency st)))"
  have "place_entity c se False st = Some (st\<lparr>ses := (ses st)(se := (ses st se)\<lparr>se_vruntime := ?v\<rparr>)\<rparr>)"
    by (simp add: place_entity_def upd_se_def)
  then show ?thesis using max_vruntime_vpos [OF assms] by blast
qed

theorem place_entity_bounds_witness:
  "\<exists>st'. place_entity 0 1 False (upd_cfs 0 (\<lambda>q. q\<lparr>cfs_min_vruntime := 5000000\<rparr>) sample_state) = Some st' \<and>
     vpos 0 (se_vruntime (ses st' 1)) = 2000000"
proof -
  let ?st = "upd_cfs 0 (\<lambda>q. q\<lparr>cfs_min_vruntime := 5000000\<rparr>) sample_state"
  have s: "sysctl_sched_latency ?st = 6000000" "cfs_min_vruntime (cfs_rqs ?st 0) = 5000000" "se_vruntime (ses ?st 1) = 0"
    by (simp_all add: upd_cfs_def sample_defs)
  have w: "in_window 0 (se_vruntime (ses ?st 1))"
    "in_window 0 (cfs_min_vruntime (cfs_rqs ?st 0) - drop_bit 1 (ucast (sysctl_sched_latency ?st)))"
    unfolding s by (simp_all add: in_window_def vpos_def drop_bit_eq_div)
  obtain v where v: "place_entity 0 1 False ?st = Some (?st\<lparr>ses := (ses ?st)(1 := (ses ?st 1)\<lparr>se_vruntime := v\<rparr>)\<rparr>)"
      "vpos 0 v = max (vpos 0 0) (vpos 0 (5000000 - drop_bit 1 (ucast (6000000 :: u32))))"
    using place_entity_bounds [OF w] unfolding s by blast
  have "vpos 0 v = 2000000" using v(2) by (simp add: vpos_def drop_bit_eq_div)
  then show ?thesis unfolding v(1) by simp
qed

lemma calc_cfs_shares_range:
  assumes "MIN_SHARES \<le> tg_shares tg"
  shows "MIN_SHARES \<le> calc_cfs_shares q tg" "calc_cfs_shares q tg \<le> tg_shares tg"
  using assms by (simp_all add: calc_cfs_shares_def Let_def not_less)

text \<open>C39. The share of a group on one CPU is between \<open>MIN_SHARES\<close> and the shares of the group; when
  nothing overflows and the total weight is positive it is the group's shares in proportion to the
  weight of this run queue.\<close>

theorem calc_cfs_shares_bounds:
  assumes "MIN_SHARES \<le> tg_shares tg"
  shows "MIN_SHARES \<le> calc_cfs_shares q tg \<and> calc_cfs_shares q tg \<le> tg_shares tg \<and>
    (unat (tg_shares tg) * unat (weight (cfs_load q)) < 9223372036854775808 \<and>
     0 < unat (calc_tg_weight tg q) \<and> unat (calc_tg_weight tg q) < 9223372036854775808 \<longrightarrow>
     unat (calc_cfs_shares q tg) =
       max 2 (min (unat (tg_shares tg))
         (unat (tg_shares tg) * unat (weight (cfs_load q)) div unat (calc_tg_weight tg q))))"
proof (intro conjI impI)
  let ?p = "tg_shares tg * weight (cfs_load q)" and ?w = "calc_tg_weight tg q"
  show "MIN_SHARES \<le> calc_cfs_shares q tg" "calc_cfs_shares q tg \<le> tg_shares tg"
    using calc_cfs_shares_range [OF assms] by simp_all
  assume h: "unat (tg_shares tg) * unat (weight (cfs_load q)) < 9223372036854775808 \<and>
     0 < unat ?w \<and> unat ?w < 9223372036854775808"
  have p: "unat ?p = unat (tg_shares tg) * unat (weight (cfs_load q))" using h by (intro unat_mult_64) simp
  have s: "sint ?p = int (unat ?p)" "sint ?w = int (unat ?w)"
    by (rule sint_unat_64, use h p in linarith)+
  have d: "unat (s64_div ?p ?w) = unat ?p div unat ?w"
  proof -
    have "int (unat ?p) sdiv int (unat ?w) = int (unat ?p div unat ?w)" by (rule sdiv_nat)
    moreover have "unat ?p div unat ?w < 18446744073709551616" using p h by (meson div_le_dividend le_less_trans less_trans unat_lt_64)
    ultimately show ?thesis by (simp add: s64_div_def s unat_of_nat)
  qed
  have "?w \<noteq> 0" using h by auto
  then show "unat (calc_cfs_shares q tg) =
       max 2 (min (unat (tg_shares tg)) (unat (tg_shares tg) * unat (weight (cfs_load q)) div unat ?w))"
    using assms d p by (simp add: calc_cfs_shares_def Let_def MIN_SHARES_def word_less_nat_alt word_le_nat_alt)
qed

theorem calc_cfs_shares_bounds_witness:
  "unat (calc_cfs_shares ((sample_cfs 1)\<lparr>cfs_load := \<lparr>weight = 2048, inv_weight = 0\<rparr>\<rparr>)
     ((tgs sample_state 1)\<lparr>tg_load_avg := 1024\<rparr>)) = 682"
  using calc_cfs_shares_bounds [of "(tgs sample_state 1)\<lparr>tg_load_avg := 1024\<rparr>"
    "(sample_cfs 1)\<lparr>cfs_load := \<lparr>weight = 2048, inv_weight = 0\<rparr>\<rparr>"]
  by (simp add: sample_defs calc_tg_weight_def MIN_SHARES_def)

subsection \<open>Runs of the scheduler\<close>

text \<open>The calls of the queueing methods as a transition system.  The guards are what the callers
  establish: an entity is enqueued when it is not queued, dequeued when it is, the next entity is
  picked when nothing runs and something is queued, and the running entity is put back or ticked.
  In between, the clocks of the CPUs may take any value.\<close>

datatype cfs_call =
  Enqueue nat s32
| Dequeue nat s32
| PickNext nat
| PutPrev nat
| Tick nat
| Clock nat u64 u64

inductive cfs_step :: "sched_state \<Rightarrow> cfs_call \<Rightarrow> sched_state \<Rightarrow> bool" where
  enqueue: "\<not> se_on_rq (ses st se) \<Longrightarrow> enqueue_entity (cfs_rq_of st se) se flags st = Some st' \<Longrightarrow>
    cfs_step st (Enqueue se flags) st'"
| dequeue: "se_on_rq (ses st se) \<Longrightarrow> dequeue_entity (cfs_rq_of st se) se flags st = Some st' \<Longrightarrow>
    cfs_step st (Dequeue se flags) st'"
| pick_next: "cfs_curr (cfs_rqs st c) = None \<Longrightarrow> cfs_nr_running (cfs_rqs st c) \<noteq> 0 \<Longrightarrow>
    pick_next_entity c st = Some (se, st1) \<Longrightarrow> set_next_entity c se st1 = Some st' \<Longrightarrow>
    cfs_step st (PickNext c) st'"
| put_prev: "cfs_curr (cfs_rqs st c) = Some prev \<Longrightarrow> put_prev_entity c prev st = Some st' \<Longrightarrow>
    cfs_step st (PutPrev c) st'"
| tick: "cfs_curr (cfs_rqs st c) = Some cur \<Longrightarrow> entity_tick c cur st = Some st' \<Longrightarrow>
    cfs_step st (Tick c) st'"
| clock: "cfs_step st (Clock cpu t tt) (upd_rq cpu (\<lambda>r. r\<lparr>rq_clock := t, rq_clock_task := tt\<rparr>) st)"

inductive cfs_run :: "sched_state \<Rightarrow> cfs_call list \<Rightarrow> sched_state \<Rightarrow> bool" where
  nil: "cfs_run st [] st"
| cons: "cfs_step st call st1 \<Longrightarrow> cfs_run st1 calls st2 \<Longrightarrow> cfs_run st (call # calls) st2"

fun enabled :: "sched_state \<Rightarrow> cfs_call \<Rightarrow> bool" where
  "enabled st (Enqueue se flags) \<longleftrightarrow> \<not> se_on_rq (ses st se)"
| "enabled st (Dequeue se flags) \<longleftrightarrow> se_on_rq (ses st se)"
| "enabled st (PickNext c) \<longleftrightarrow> cfs_curr (cfs_rqs st c) = None \<and> cfs_nr_running (cfs_rqs st c) \<noteq> 0"
| "enabled st (PutPrev c) \<longleftrightarrow> cfs_curr (cfs_rqs st c) \<noteq> None"
| "enabled st (Tick c) \<longleftrightarrow> cfs_curr (cfs_rqs st c) \<noteq> None"
| "enabled st (Clock cpu t tt) \<longleftrightarrow> True"

inductive_cases enqueueE: "cfs_step st (Enqueue se flags) st'"
inductive_cases dequeueE: "cfs_step st (Dequeue se flags) st'"
inductive_cases pick_nextE: "cfs_step st (PickNext c) st'"
inductive_cases put_prevE: "cfs_step st (PutPrev c) st'"
inductive_cases tickE: "cfs_step st (Tick c) st'"
inductive_cases run_consE: "cfs_run st (call # calls) st'"

lemma nr_running_members: "sched_ok st \<Longrightarrow> cfs_nr_running (cfs_rqs st c) \<noteq> 0 \<Longrightarrow> members st c \<noteq> {}"
  by (auto simp: sched_ok_def acct_ok_def)

lemma pick_set_next_ok:
  assumes "sched_ok st" "cfs_curr (cfs_rqs st c) = None" "cfs_nr_running (cfs_rqs st c) \<noteq> 0"
  shows "\<exists>se st1 st'. pick_next_entity c st = Some (se, st1) \<and> set_next_entity c se st1 = Some st' \<and> sched_ok st' \<and>
    members st' = members st \<and> se \<in> members st c \<and> cfs_curr (cfs_rqs st' c) = Some se"
proof -
  obtain se st1 where p: "pick_next_entity c st = Some (se, st1)" "sched_ok st1" "members st1 = members st"
      "queued st1 = queued st" "cfs_curr (cfs_rqs st1 c) = None" "se \<in> set (queued st c)"
    using pick_next_entity_ok [OF assms(1,2) nr_running_members [OF assms(1,3)]] by blast
  have "se \<in> set (queued st1 c)" using p(4,6) by simp
  then obtain st' where "set_next_entity c se st1 = Some st'" "sched_ok st'" "members st' = members st1"
      "cfs_curr (cfs_rqs st' c) = Some se"
    using set_next_entity_ok [OF p(2,5)] by blast
  moreover have "se \<in> members st c" using sched_ok_members [OF assms(1), of c] p(6) by simp
  ultimately show ?thesis using p(1,3) by auto
qed

lemma cfs_step_ok:
  assumes "cfs_step st call st'" "sched_ok st"
  shows "sched_ok st'"
  using assms
proof (induction rule: cfs_step.induct)
  case (enqueue st se flags st')
  then show ?case using enqueue_entity_ok [of st se "cfs_rq_of st se" flags] by (auto simp: cfs_rq_of_def)
next
  case (dequeue st se flags st')
  then show ?case using dequeue_entity_ok [of st se "cfs_rq_of st se" flags] by (auto simp: cfs_rq_of_def members_def)
next
  case (pick_next st c se st1 st')
  then show ?case using pick_set_next_ok [of st c] by auto
next
  case (put_prev st c prev st')
  then show ?case using put_prev_entity_ok [of st c prev] by auto
next
  case (tick st c cur st')
  then show ?case using entity_tick_ok [of st c cur] by auto
next
  case (clock st cpu t tt)
  then show ?case using sched_ok_core [OF core_view_upd(3)] by blast
qed

lemma cfs_run_ok: "cfs_run st calls st' \<Longrightarrow> sched_ok st \<Longrightarrow> sched_ok st'"
  by (induction rule: cfs_run.induct) (auto dest: cfs_step_ok)

lemma enabled_step:
  assumes "sched_ok st" "enabled st call"
  shows "\<exists>st'. cfs_step st call st'"
proof (cases call)
  case (Enqueue se flags)
  then show ?thesis using assms enqueue_entity_ok [of st se "cfs_rq_of st se" flags]
    by (auto simp: cfs_rq_of_def intro: cfs_step.enqueue [unfolded cfs_rq_of_def])
next
  case (Dequeue se flags)
  then show ?thesis using assms dequeue_entity_ok [of st se "cfs_rq_of st se" flags]
    by (auto simp: cfs_rq_of_def members_def intro: cfs_step.dequeue [unfolded cfs_rq_of_def])
next
  case (PickNext c)
  then show ?thesis using assms pick_set_next_ok [of st c] by (auto intro: cfs_step.pick_next)
next
  case (PutPrev c)
  then obtain prev where "cfs_curr (cfs_rqs st c) = Some prev" using assms(2) by auto
  then show ?thesis using PutPrev put_prev_entity_ok [OF assms(1), of c prev] by (blast intro: cfs_step.put_prev)
next
  case (Tick c)
  then obtain cur where "cfs_curr (cfs_rqs st c) = Some cur" using assms(2) by auto
  then show ?thesis using Tick entity_tick_ok [OF assms(1), of c cur] by (blast intro: cfs_step.tick)
next
  case (Clock cpu t tt)
  then show ?thesis by (blast intro: cfs_step.clock)
qed

lemma sample_ancestors: "for_each_sched_entity sample_state (Some e) \<noteq> None"
proof -
  have "parent_entity sample_state x = (if x = 4 then Some 3 else None)" for x
    by (simp add: parent_entity_def sample_defs)
  then show ?thesis by (simp add: for_each_sched_entity_def ancestors_Some)
qed

lemma sched_ok_sample: "sched_ok sample_state"
proof -
  have m: "members sample_state c = {}" for c by (simp add: members_def sample_defs)
  have t: "timelines_ok sample_state"
    by (simp add: timelines_ok_def m) (simp add: timeline_ok_def queued_def timeline_of_def tree_inv_def tree_seq_def
      running_def rbt_def sample_defs)
  have h: "hier_ok sample_state"
    unfolding hier_ok_def using sample_ancestors by (simp add: sample_defs)
  have "buddies_ok sample_state" "acct_ok sample_state (members sample_state)"
    by (simp_all add: buddies_ok_def acct_ok_def m) (simp_all add: sample_defs)
  with t h show ?thesis by (simp add: sched_ok_def)
qed

text \<open>C2. The run-queue invariant holds in every reachable state: after any sequence of enqueue,
  dequeue, pick, put-back and tick calls, on any entities of any hierarchy and with any clock
  readings, the timelines are well-formed red-black trees of exactly the waiting entities, the leftmost
  caches are right, \<open>nr_running\<close> and the load weights count exactly the queued entities, and no
  buddy pointer dangles.\<close>

theorem cfs_run_invariant:
  assumes "cfs_run st calls st'" "sched_ok st"
  shows "sched_ok st' \<and>
    (\<forall>c. cfs_nr_running (cfs_rqs st' c) = of_nat (card (members st' c)) \<and>
       weight (cfs_load (cfs_rqs st' c)) = (\<Sum>e\<in>members st' c. weight (se_load (ses st' e))) \<and>
       members st' c = set (queued st' c) \<union> running st' c)"
proof -
  have ok: "sched_ok st'" using assms by (rule cfs_run_ok)
  then have "acct_ok st' (members st')" by (simp add: sched_ok_def)
  with ok sched_ok_members [OF ok] show ?thesis unfolding acct_ok_def by blast
qed

theorem cfs_run_invariant_witness:
  "\<exists>st'. cfs_run sample_state [Enqueue 1 0] st' \<and> sched_ok st'"
proof -
  have "enabled sample_state (Enqueue 1 0)" by (simp add: sample_defs)
  then obtain st' where "cfs_step sample_state (Enqueue 1 0) st'" using enabled_step [OF sched_ok_sample] by blast
  then have r: "cfs_run sample_state [Enqueue 1 0] st'" by (blast intro: cfs_run.intros)
  show ?thesis using cfs_run_invariant [OF r sched_ok_sample] r by blast
qed

text \<open>C12. No fault is reachable: in every state reached by such calls, each call whose guard holds
  returns.  In particular \<open>pick_next_entity\<close> never follows a null or dangling buddy, \<open>set_next_entity\<close>
  and \<open>__dequeue_entity\<close> only remove entities that are in the tree, and \<open>check_preempt_tick\<close> finds
  a leftmost entity whenever more than one is running.\<close>

theorem cfs_run_no_fault:
  assumes "cfs_run st calls st'" "sched_ok st" "enabled st' call"
  shows "\<exists>st''. cfs_step st' call st''"
  using enabled_step [OF cfs_run_ok [OF assms(1,2)] assms(3)] .

theorem cfs_run_no_fault_witness:
  "\<exists>st''. cfs_step sample_state (Enqueue 4 1) st''"
  by (rule cfs_run_no_fault [OF cfs_run.nil sched_ok_sample]) (simp add: sample_defs)


end
