(* ===== verification/CFS_Class.thy ===== *)
theory CFS_Class
  imports CFS_Invariant
begin

text \<open>
  The methods of the fair scheduling class (\<open>fair_sched_class\<close> of \<open>kernel/sched/fair.c\<close>): what the core
  scheduler calls with a task and a run queue, each of them a walk over the entity hierarchy that
  calls the entity methods of \<open>CFS_Entity\<close> at every level.

  A loop over \<open>for_each_sched_entity\<close> takes the walk once, since no method changes a parent pointer,
  and stops where the code breaks out of it.  CFS bandwidth control is not configured, so no queue is
  throttled and \<open>if (!se)\<close> behind the loops always holds.  The high-resolution tick and NUMA
  balancing are not configured either.  The methods run under the lock of their run queue; the lock
  and unlock calls themselves are in the theories of the HMP balancer.  \<open>sched_clock_cpu\<close> is the argument
  \<open>clk\<close>.

  \<open>class_ok\<close> is the invariant of the hierarchy: besides the invariant of every queue, a group entity is
  queued exactly when its own queue has members, \<open>h_nr_running\<close> counts the tasks below a queue, and
  the running entities form one chain from a root queue down to a task.
\<close>

subsection \<open>Clocks, classes and groups\<close>

definition sched_feat_NEXT_BUDDY :: bool where
  "sched_feat_NEXT_BUDDY = False"

definition sched_feat_LAST_BUDDY :: bool where
  "sched_feat_LAST_BUDDY = True"

definition sched_feat_WAKEUP_PREEMPTION :: bool where
  "sched_feat_WAKEUP_PREEMPTION = True"

definition WF_FORK :: s32 where
  "WF_FORK = 2"

definition TASK_RUNNING :: u64 where
  "TASK_RUNNING = 0"

definition TASK_WAKING :: u64 where
  "TASK_WAKING = 256"

definition EINVAL :: int where
  "EINVAL = 22"

definition update_rq_clock_task :: "nat \<Rightarrow> s64 \<Rightarrow> sched_state \<Rightarrow> sched_state" where
  "update_rq_clock_task cpu delta st = upd_rq cpu (\<lambda>r. r\<lparr>rq_clock_task := rq_clock_task r + delta\<rparr>) st"

definition update_rq_clock :: "(nat \<Rightarrow> u64) \<Rightarrow> nat \<Rightarrow> sched_state \<Rightarrow> sched_state" where
  "update_rq_clock clk cpu st =
     (if rq_skip_clock_update (rqs st cpu) then st
      else (let delta = clk cpu - rq_clock (rqs st cpu);
                st = upd_rq cpu (\<lambda>r. r\<lparr>rq_clock := rq_clock r + delta\<rparr>) st
            in update_rq_clock_task cpu delta st))"

definition inc_nr_running :: "nat \<Rightarrow> sched_state \<Rightarrow> sched_state" where
  "inc_nr_running cpu st = upd_rq cpu (\<lambda>r. r\<lparr>rq_nr_running := rq_nr_running r + 1\<rparr>) st"

definition dec_nr_running :: "nat \<Rightarrow> sched_state \<Rightarrow> sched_state" where
  "dec_nr_running cpu st = upd_rq cpu (\<lambda>r. r\<lparr>rq_nr_running := rq_nr_running r - 1\<rparr>) st"

definition task_cfs_rq :: "sched_state \<Rightarrow> nat \<Rightarrow> nat" where
  "task_cfs_rq st p = se_cfs_rq (ses st p)"

definition set_task_rq :: "nat \<Rightarrow> nat \<Rightarrow> sched_state \<Rightarrow> sched_state" where
  "set_task_rq p cpu st =
     (let tg = tgs st (p_sched_task_group (tasks st p))
      in upd_se p (\<lambda>e. e\<lparr>se_cfs_rq := tg_cfs_rq tg cpu, se_parent := tg_se tg cpu\<rparr>) st)"

text \<open>\<open>__set_task_cpu\<close>.\<close>

definition raw_set_task_cpu :: "nat \<Rightarrow> nat \<Rightarrow> sched_state \<Rightarrow> sched_state" where
  "raw_set_task_cpu p cpu st = upd_task p (\<lambda>t. t\<lparr>p_cpu := cpu\<rparr>) (set_task_rq p cpu st)"

definition nohz_test_cpu :: "nat \<Rightarrow> sched_state \<Rightarrow> bool" where
  "nohz_test_cpu cpu st = nohz_idle_cpus_mask st cpu"

subsection \<open>Enqueue and dequeue of a task\<close>

definition upd_h_nr :: "nat \<Rightarrow> u32 \<Rightarrow> sched_state \<Rightarrow> sched_state" where
  "upd_h_nr c d st = upd_cfs c (\<lambda>q. q\<lparr>cfs_h_nr_running := cfs_h_nr_running q + d\<rparr>) st"

text \<open>The first loop of \<open>enqueue_task_fair\<close> returns the entities that are left.\<close>

fun enqueue_levels :: "nat list \<Rightarrow> s32 \<Rightarrow> sched_state \<Rightarrow> (nat list \<times> sched_state) option" where
  "enqueue_levels [] flags st = Some ([], st)"
| "enqueue_levels (se # es) flags st =
     (if se_on_rq (ses st se) then Some (se # es, st)
      else do {
        let c = cfs_rq_of st se;
        st \<leftarrow> enqueue_entity c se flags st;
        enqueue_levels es ENQUEUE_WAKEUP (upd_h_nr c 1 st) })"

text \<open>The second loop, which is the same in both functions up to the sign of the change.\<close>

fun refresh_levels :: "u32 \<Rightarrow> nat list \<Rightarrow> sched_state \<Rightarrow> sched_state" where
  "refresh_levels d [] st = st"
| "refresh_levels d (se # es) st =
     (let c = cfs_rq_of st se;
          st = upd_h_nr c d st;
          st = update_cfs_shares c st
      in refresh_levels d es (update_entity_load_avg se True st))"

definition enqueue_task_fair :: "nat \<Rightarrow> nat \<Rightarrow> s32 \<Rightarrow> sched_state \<Rightarrow> sched_state option" where
  "enqueue_task_fair cpu p flags st = do {
     es \<leftarrow> for_each_sched_entity st (Some p);
     (es, st) \<leftarrow> enqueue_levels es flags st;
     let st = refresh_levels 1 es st;
     let st = update_rq_runnable_avg cpu (rq_nr_running (rqs st cpu) \<noteq> 0) st;
     Some (inc_nr_running cpu st) }"

text \<open>The buddies of a whole branch of the hierarchy.\<close>

fun mark_next :: "nat list \<Rightarrow> sched_state \<Rightarrow> sched_state" where
  "mark_next [] st = st"
| "mark_next (se # es) st = mark_next es (upd_cfs (cfs_rq_of st se) (\<lambda>q. q\<lparr>cfs_next := Some se\<rparr>) st)"

fun mark_last :: "nat list \<Rightarrow> sched_state \<Rightarrow> sched_state" where
  "mark_last [] st = st"
| "mark_last (se # es) st = mark_last es (upd_cfs (cfs_rq_of st se) (\<lambda>q. q\<lparr>cfs_last := Some se\<rparr>) st)"

fun mark_skip :: "nat list \<Rightarrow> sched_state \<Rightarrow> sched_state" where
  "mark_skip [] st = st"
| "mark_skip (se # es) st = mark_skip es (upd_cfs (cfs_rq_of st se) (\<lambda>q. q\<lparr>cfs_skip := Some se\<rparr>) st)"

definition set_last_buddy :: "nat \<Rightarrow> sched_state \<Rightarrow> sched_state option" where
  "set_last_buddy se st =
     (if entity_is_task st se \<and> p_policy (tasks st (task_of se)) = SCHED_IDLE then Some st
      else map_option (\<lambda>es. mark_last es st) (for_each_sched_entity st (Some se)))"

definition set_next_buddy :: "nat \<Rightarrow> sched_state \<Rightarrow> sched_state option" where
  "set_next_buddy se st =
     (if entity_is_task st se \<and> p_policy (tasks st (task_of se)) = SCHED_IDLE then Some st
      else map_option (\<lambda>es. mark_next es st) (for_each_sched_entity st (Some se)))"

definition set_skip_buddy :: "nat \<Rightarrow> sched_state \<Rightarrow> sched_state option" where
  "set_skip_buddy se st = map_option (\<lambda>es. mark_skip es st) (for_each_sched_entity st (Some se))"

fun dequeue_levels :: "bool \<Rightarrow> nat list \<Rightarrow> s32 \<Rightarrow> sched_state \<Rightarrow> (nat list \<times> sched_state) option" where
  "dequeue_levels task_sleep [] flags st = Some ([], st)"
| "dequeue_levels task_sleep (se # es) flags st = do {
     let c = cfs_rq_of st se;
     st \<leftarrow> dequeue_entity c se flags st;
     let st = upd_h_nr c (- 1) st;
     if weight (cfs_load (cfs_rqs st c)) \<noteq> 0
     then do {
       st \<leftarrow> (case parent_entity st se of
               Some pse \<Rightarrow> if task_sleep then set_next_buddy pse st else Some st
             | None \<Rightarrow> Some st);
       Some (es, st) }
     else dequeue_levels task_sleep es (flags OR DEQUEUE_SLEEP) st }"

definition dequeue_task_fair :: "nat \<Rightarrow> nat \<Rightarrow> s32 \<Rightarrow> sched_state \<Rightarrow> sched_state option" where
  "dequeue_task_fair cpu p flags st = do {
     es \<leftarrow> for_each_sched_entity st (Some p);
     (es, st) \<leftarrow> dequeue_levels (flags AND DEQUEUE_SLEEP \<noteq> 0) es flags st;
     let st = refresh_levels (- 1) es st;
     Some (update_rq_runnable_avg cpu True (dec_nr_running cpu st)) }"

subsection \<open>Picking, putting back, the tick\<close>

partial_function (option) pick_levels :: "nat \<Rightarrow> sched_state \<Rightarrow> (nat \<times> sched_state) option" where
  "pick_levels c st = do {
     (se, st) \<leftarrow> pick_next_entity c st;
     st \<leftarrow> set_next_entity c se st;
     (case group_cfs_rq st se of
        None \<Rightarrow> Some (se, st)
      | Some q \<Rightarrow> pick_levels q st) }"

declare pick_levels.simps [simp del, code]

definition pick_next_task_fair :: "nat \<Rightarrow> sched_state \<Rightarrow> (nat option \<times> sched_state) option" where
  "pick_next_task_fair cpu st =
     (let c = rq_cfs (rqs st cpu) in
      if cfs_nr_running (cfs_rqs st c) = 0 then Some (None, st)
      else map_option (\<lambda>(se, st). (Some (task_of se), st)) (pick_levels c st))"

fun put_prev_levels :: "nat list \<Rightarrow> sched_state \<Rightarrow> sched_state option" where
  "put_prev_levels [] st = Some st"
| "put_prev_levels (se # es) st = do { st \<leftarrow> put_prev_entity (cfs_rq_of st se) se st; put_prev_levels es st }"

definition put_prev_task_fair :: "nat \<Rightarrow> sched_state \<Rightarrow> sched_state option" where
  "put_prev_task_fair prev st = do { es \<leftarrow> for_each_sched_entity st (Some prev); put_prev_levels es st }"

fun tick_levels :: "nat list \<Rightarrow> sched_state \<Rightarrow> sched_state option" where
  "tick_levels [] st = Some st"
| "tick_levels (se # es) st = do { st \<leftarrow> entity_tick (cfs_rq_of st se) se st; tick_levels es st }"

definition task_tick_fair :: "nat \<Rightarrow> nat \<Rightarrow> sched_state \<Rightarrow> sched_state option" where
  "task_tick_fair cpu cur st = do {
     es \<leftarrow> for_each_sched_entity st (Some cur);
     st \<leftarrow> tick_levels es st;
     Some (update_rq_runnable_avg cpu True st) }"

fun set_curr_levels :: "nat list \<Rightarrow> sched_state \<Rightarrow> sched_state option" where
  "set_curr_levels [] st = Some st"
| "set_curr_levels (se # es) st = do { st \<leftarrow> set_next_entity (cfs_rq_of st se) se st; set_curr_levels es st }"

definition set_curr_task_fair :: "nat \<Rightarrow> sched_state \<Rightarrow> sched_state option" where
  "set_curr_task_fair cpu st = do {
     es \<leftarrow> for_each_sched_entity st (Some (rq_curr (rqs st cpu)));
     set_curr_levels es st }"

subsection \<open>Preemption and yielding\<close>

text \<open>The code behind the label \<open>preempt\<close> of \<open>check_preempt_wakeup\<close>.\<close>

definition wakeup_preempt :: "nat \<Rightarrow> nat \<Rightarrow> nat \<Rightarrow> bool \<Rightarrow> sched_state \<Rightarrow> sched_state option" where
  "wakeup_preempt cpu cur se scale st =
     (let st = resched_task cur st in
      if \<not> se_on_rq (ses st se) \<or> cur = rq_idle (rqs st cpu) then Some st
      else if sched_feat_LAST_BUDDY \<and> scale \<and> entity_is_task st se then set_last_buddy se st
      else Some st)"

definition check_preempt_wakeup :: "nat \<Rightarrow> nat \<Rightarrow> s32 \<Rightarrow> sched_state \<Rightarrow> sched_state option" where
  "check_preempt_wakeup cpu p wake_flags st =
     (let cur = rq_curr (rqs st cpu);
          scale = (sched_nr_latency st \<le> cfs_nr_running (cfs_rqs st (task_cfs_rq st cur)));
          mark = (sched_feat_NEXT_BUDDY \<and> scale \<and> wake_flags AND WF_FORK = 0) in
      if cur = p then Some st
      else do {
        st \<leftarrow> (if mark then set_next_buddy p st else Some st);
        if p_need_resched (tasks st cur) then Some st
        else if p_policy (tasks st cur) = SCHED_IDLE \<and> p_policy (tasks st p) \<noteq> SCHED_IDLE
        then wakeup_preempt cpu cur cur scale st
        else if p_policy (tasks st p) \<noteq> SCHED_NORMAL \<or> \<not> sched_feat_WAKEUP_PREEMPTION then Some st
        else do {
          (se, pse) \<leftarrow> find_matching_se st cur p;
          let st = update_curr (cfs_rq_of st se) st;
          let (r, st) = wakeup_preempt_entity se pse st;
          if r = 1
          then do {
            st \<leftarrow> (if \<not> mark then set_next_buddy pse st else Some st);
            wakeup_preempt cpu cur se scale st }
          else Some st } })"

text \<open>\<open>check_preempt_curr\<close> of \<open>kernel/sched/core.c\<close>.  The method of another class than the fair one is
  the argument \<open>other\<close>.\<close>

fun class_preempts :: "sched_class list \<Rightarrow> sched_class \<Rightarrow> sched_class \<Rightarrow> bool" where
  "class_preempts [] cur new \<longleftrightarrow> False"
| "class_preempts (c # cs) cur new \<longleftrightarrow> (if c = cur then False else if c = new then True else class_preempts cs cur new)"

definition for_each_class :: "sched_class list" where
  "for_each_class = [stop_sched_class, rt_sched_class, fair_sched_class, idle_sched_class]"

definition check_preempt_curr ::
    "(sched_class \<Rightarrow> nat \<Rightarrow> nat \<Rightarrow> s32 \<Rightarrow> sched_state \<Rightarrow> sched_state option) \<Rightarrow> nat \<Rightarrow> nat \<Rightarrow> s32 \<Rightarrow> sched_state \<Rightarrow> sched_state option" where
  "check_preempt_curr other cpu p flags st = do {
     let cur = rq_curr (rqs st cpu);
     let cls = p_sched_class (tasks st cur);
     st \<leftarrow> (if p_sched_class (tasks st p) = cls
            then (if cls = fair_sched_class then check_preempt_wakeup cpu p flags st else other cls cpu p flags st)
            else Some (if class_preempts for_each_class cls (p_sched_class (tasks st p)) then resched_task cur st else st));
     let cur = rq_curr (rqs st cpu);
     Some (if p_on_rq (tasks st cur) \<and> p_need_resched (tasks st cur)
           then upd_rq cpu (\<lambda>r. r\<lparr>rq_skip_clock_update := True\<rparr>) st else st) }"

definition prio_changed_fair where
  "prio_changed_fair other cpu p oldprio st =
     (if \<not> se_on_rq (ses st p) then Some st
      else if rq_curr (rqs st cpu) = p
      then Some (if (oldprio::int) < p_prio (tasks st p) then resched_task p st else st)
      else check_preempt_curr other cpu p 0 st)"

definition switched_to_fair where
  "switched_to_fair other cpu p st =
     (if \<not> se_on_rq (ses st p) then Some st
      else if rq_curr (rqs st cpu) = p then Some (resched_task p st)
      else check_preempt_curr other cpu p 0 st)"

definition yield_task_fair :: "(nat \<Rightarrow> u64) \<Rightarrow> nat \<Rightarrow> sched_state \<Rightarrow> sched_state option" where
  "yield_task_fair clk cpu st =
     (let cur = rq_curr (rqs st cpu); c = task_cfs_rq st cur in
      if rq_nr_running (rqs st cpu) = 1 then Some st
      else do {
        st \<leftarrow> clear_buddies c cur st;
        let st = (if p_policy (tasks st cur) \<noteq> SCHED_BATCH
                  then upd_rq cpu (\<lambda>r. r\<lparr>rq_skip_clock_update := True\<rparr>) (update_curr c (update_rq_clock clk cpu st))
                  else st);
        set_skip_buddy cur st })"

definition yield_to_task_fair :: "(nat \<Rightarrow> u64) \<Rightarrow> nat \<Rightarrow> nat \<Rightarrow> sched_state \<Rightarrow> (bool \<times> sched_state) option" where
  "yield_to_task_fair clk cpu p st =
     (if \<not> se_on_rq (ses st p) then Some (False, st)
      else do {
        st \<leftarrow> set_next_buddy p st;
        st \<leftarrow> yield_task_fair clk cpu st;
        Some (True, st) })"

subsection \<open>Tasks that are not queued\<close>

definition migrate_task_rq_fair :: "(nat \<Rightarrow> u64) \<Rightarrow> nat \<Rightarrow> sched_state \<Rightarrow> sched_state" where
  "migrate_task_rq_fair clk p st =
     (let c = cfs_rq_of st p in
      if decay_count (se_avg (ses st p)) \<noteq> 0
      then
        (let cpu = p_cpu (tasks st p);
             st = (if \<not> se_on_rq (ses st p) \<and> nohz_test_cpu cpu st
                   then update_cfs_rq_blocked_load c False (update_rq_clock clk cpu st) else st);
             (decays, st) = synchronize_entity_decay p st;
             st = upd_avg p (\<lambda>a. a\<lparr>decay_count := - decays\<rparr>) st
         in upd_cfs c (\<lambda>q. q\<lparr>cfs_removed_load := cfs_removed_load q + load_avg_contrib (se_avg (ses st p))\<rparr>) st)
      else st)"

definition task_fork_fair :: "(nat \<Rightarrow> u64) \<Rightarrow> nat \<Rightarrow> nat \<Rightarrow> sched_state \<Rightarrow> sched_state option" where
  "task_fork_fair clk this_cpu p st = do {
     let st = update_rq_clock clk this_cpu st;
     let c = task_cfs_rq st (rq_curr (rqs st this_cpu));
     let cur = cfs_curr (cfs_rqs st c);
     let st = raw_set_task_cpu p this_cpu st;
     let st = update_curr c st;
     let st = (case cur of
                 None \<Rightarrow> st
               | Some x \<Rightarrow> upd_se p (\<lambda>e. e\<lparr>se_vruntime := se_vruntime (ses st x)\<rparr>) st);
     st \<leftarrow> place_entity c p True st;
     let st = (case cur of
                 None \<Rightarrow> st
               | Some x \<Rightarrow>
                   if sysctl_sched_child_runs_first st \<noteq> 0 \<and> entity_before st x p
                   then (let v = se_vruntime (ses st x);
                             st = upd_se x (\<lambda>e. e\<lparr>se_vruntime := se_vruntime (ses st p)\<rparr>) st;
                             st = upd_se p (\<lambda>e. e\<lparr>se_vruntime := v\<rparr>) st
                         in resched_task (rq_curr (rqs st this_cpu)) st)
                   else st);
     Some (upd_se p (\<lambda>e. e\<lparr>se_vruntime := se_vruntime e - cfs_min_vruntime (cfs_rqs st c)\<rparr>) st) }"

definition switched_from_fair :: "nat \<Rightarrow> sched_state \<Rightarrow> sched_state option" where
  "switched_from_fair p st = do {
     let c = cfs_rq_of st p;
     st \<leftarrow> (if \<not> p_on_rq (tasks st p) \<and> p_state (tasks st p) \<noteq> TASK_RUNNING
            then do { st \<leftarrow> place_entity c p False st;
                      Some (upd_se p (\<lambda>e. e\<lparr>se_vruntime := se_vruntime e - cfs_min_vruntime (cfs_rqs st c)\<rparr>) st) }
            else Some st);
     Some (if decay_count (se_avg (ses st p)) \<noteq> 0
           then (let (_, st) = synchronize_entity_decay p st
                 in subtract_blocked_load_contrib c (load_avg_contrib (se_avg (ses st p))) st)
           else st) }"

definition task_move_group_fair :: "nat \<Rightarrow> bool \<Rightarrow> sched_state \<Rightarrow> sched_state" where
  "task_move_group_fair p on_rq st =
     (let on_rq = (on_rq \<or> se_sum_exec_runtime (ses st p) = 0 \<or> p_state (tasks st p) = TASK_WAKING);
          st = (if \<not> on_rq
                then upd_se p (\<lambda>e. e\<lparr>se_vruntime := se_vruntime e - cfs_min_vruntime (cfs_rqs st (cfs_rq_of st p))\<rparr>) st
                else st);
          st = set_task_rq p (p_cpu (tasks st p)) st
      in if \<not> on_rq
         then (let c = cfs_rq_of st p;
                   st = upd_se p (\<lambda>e. e\<lparr>se_vruntime := se_vruntime e + cfs_min_vruntime (cfs_rqs st c)\<rparr>) st;
                   st = upd_avg p (\<lambda>a. a\<lparr>decay_count := cfs_decay_counter (cfs_rqs st c)\<rparr>) st
               in upd_cfs c (\<lambda>q. q\<lparr>cfs_blocked_load_avg := cfs_blocked_load_avg q + load_avg_contrib (se_avg (ses st p))\<rparr>) st)
         else st)"

subsection \<open>Groups\<close>

definition init_cfs_rq :: "nat \<Rightarrow> sched_state \<Rightarrow> sched_state" where
  "init_cfs_rq c st = upd_cfs c (\<lambda>q. q\<lparr>cfs_tasks_timeline := NIL, cfs_min_vruntime := - push_bit 20 1,
     cfs_decay_counter := 1, cfs_removed_load := 0\<rparr>) st"

text \<open>A parent entity always owns a queue; without one the code stores \<open>NULL\<close> in \<open>se->cfs_rq\<close>, which is
  \<^const>\<open>None\<close> here.\<close>

definition init_tg_cfs_entry :: "nat \<Rightarrow> nat \<Rightarrow> nat option \<Rightarrow> nat \<Rightarrow> nat option \<Rightarrow> sched_state \<Rightarrow> sched_state option" where
  "init_tg_cfs_entry tg c se cpu parent st = do {
     let st = upd_cfs c (\<lambda>q. q\<lparr>cfs_tg := tg, cfs_rq_cpu := cpu\<rparr>) st;
     let st = upd_tg tg (\<lambda>t. t\<lparr>tg_cfs_rq := (tg_cfs_rq t)(cpu := c), tg_se := (tg_se t)(cpu := se)\<rparr>) st;
     case se of
       None \<Rightarrow> Some st
     | Some s \<Rightarrow> do {
         q \<leftarrow> (case parent of None \<Rightarrow> Some (rq_cfs (rqs st cpu)) | Some p \<Rightarrow> se_my_q (ses st p));
         Some (upd_se s (\<lambda>e. e\<lparr>se_cfs_rq := q, se_my_q := Some c,
           se_load := update_load_set (se_load e) NICE_0_LOAD, se_parent := parent\<rparr>) st) } }"

definition unregister_fair_sched_group :: "nat \<Rightarrow> nat \<Rightarrow> sched_state \<Rightarrow> sched_state" where
  "unregister_fair_sched_group tg cpu st =
     (let c = tg_cfs_rq (tgs st tg) cpu
      in if \<not> cfs_on_list (cfs_rqs st c) then st else list_del_leaf_cfs_rq c st)"

text \<open>Reweighting a branch of the hierarchy: an entity without a queue of its own would be a \<open>NULL\<close>
  dereference.\<close>

fun share_levels :: "nat list \<Rightarrow> sched_state \<Rightarrow> sched_state option" where
  "share_levels [] st = Some st"
| "share_levels (se # es) st = do { q \<leftarrow> group_cfs_rq st se; share_levels es (update_cfs_shares q st) }"

fun share_cpus :: "nat \<Rightarrow> nat list \<Rightarrow> sched_state \<Rightarrow> sched_state option" where
  "share_cpus tg [] st = Some st"
| "share_cpus tg (i # cpus) st = do {
     es \<leftarrow> for_each_sched_entity st (tg_se (tgs st tg) i);
     st \<leftarrow> share_levels es st;
     share_cpus tg cpus st }"

definition MAX_SHARES :: u64 where
  "MAX_SHARES = 262144"

text \<open>\<open>possible\<close> lists the possible CPUs.\<close>

definition sched_group_set_shares :: "nat list \<Rightarrow> nat \<Rightarrow> u64 \<Rightarrow> sched_state \<Rightarrow> (int \<times> sched_state) option" where
  "sched_group_set_shares possible tg shares st =
     (if tg_se (tgs st tg) 0 = None then Some (- EINVAL, st)
      else
        (let shares = min (max shares MIN_SHARES) MAX_SHARES in
         if tg_shares (tgs st tg) = shares then Some (0, st)
         else map_option (Pair 0) (share_cpus tg possible (upd_tg tg (\<lambda>t. t\<lparr>tg_shares := shares\<rparr>) st))))"

definition get_rr_interval_fair :: "nat \<Rightarrow> nat \<Rightarrow> sched_state \<Rightarrow> (u32 \<times> sched_state) option" where
  "get_rr_interval_fair cpu p st =
     (if weight (cfs_load (cfs_rqs st (rq_cfs (rqs st cpu)))) \<noteq> 0
      then map_option (\<lambda>(s, st). (ucast (s div 10000000), st)) (sched_slice (cfs_rq_of st p) p st)
      else Some (0, st))"

subsection \<open>Moving a task between run queues\<close>

text \<open>From \<open>kernel/sched/core.c\<close>, for a task of the fair class.  The scheduling statistics of
  \<open>sched_info_queued\<close> and \<open>sched_info_dequeued\<close>, the perf event and the migration notifier are left out.\<close>

definition PF_FROZEN :: u32 where
  "PF_FROZEN = 65536"

definition task_contributes_to_load :: "sched_state \<Rightarrow> nat \<Rightarrow> bool" where
  "task_contributes_to_load st p =
     (p_state (tasks st p) AND TASK_UNINTERRUPTIBLE \<noteq> 0 \<and> p_flags (tasks st p) AND PF_FROZEN = 0)"

definition enqueue_task :: "(nat \<Rightarrow> u64) \<Rightarrow> nat \<Rightarrow> nat \<Rightarrow> s32 \<Rightarrow> sched_state \<Rightarrow> sched_state option" where
  "enqueue_task clk cpu p flags st = enqueue_task_fair cpu p flags (update_rq_clock clk cpu st)"

definition dequeue_task :: "(nat \<Rightarrow> u64) \<Rightarrow> nat \<Rightarrow> nat \<Rightarrow> s32 \<Rightarrow> sched_state \<Rightarrow> sched_state option" where
  "dequeue_task clk cpu p flags st = dequeue_task_fair cpu p flags (update_rq_clock clk cpu st)"

definition activate_task :: "(nat \<Rightarrow> u64) \<Rightarrow> nat \<Rightarrow> nat \<Rightarrow> s32 \<Rightarrow> sched_state \<Rightarrow> sched_state option" where
  "activate_task clk cpu p flags st =
     enqueue_task clk cpu p flags
       (if task_contributes_to_load st p
        then upd_rq cpu (\<lambda>r. r\<lparr>rq_nr_uninterruptible := rq_nr_uninterruptible r - 1\<rparr>) st else st)"

definition deactivate_task :: "(nat \<Rightarrow> u64) \<Rightarrow> nat \<Rightarrow> nat \<Rightarrow> s32 \<Rightarrow> sched_state \<Rightarrow> sched_state option" where
  "deactivate_task clk cpu p flags st =
     dequeue_task clk cpu p flags
       (if task_contributes_to_load st p
        then upd_rq cpu (\<lambda>r. r\<lparr>rq_nr_uninterruptible := rq_nr_uninterruptible r + 1\<rparr>) st else st)"

definition set_task_cpu :: "(nat \<Rightarrow> u64) \<Rightarrow> nat \<Rightarrow> nat \<Rightarrow> sched_state \<Rightarrow> sched_state" where
  "set_task_cpu clk p new_cpu st =
     raw_set_task_cpu p new_cpu
       (if p_cpu (tasks st p) \<noteq> new_cpu
        then upd_se p (\<lambda>e. e\<lparr>se_nr_migrations := se_nr_migrations e + 1\<rparr>) (migrate_task_rq_fair clk p st) else st)"

definition move_task where
  "move_task other clk src dst p st = do {
     st \<leftarrow> deactivate_task clk src p 0 st;
     let st = set_task_cpu clk p dst st;
     st \<leftarrow> activate_task clk dst p 0 st;
     check_preempt_curr other dst p 0 st }"

end
