(* ===== verification/CFS_Hierarchy.thy ===== *)
theory CFS_Hierarchy
  imports CFS_Class
begin

text \<open>
  The invariant of the hierarchy of run queues: on top of the invariant of the single queues
  (\<open>CFS_Invariant\<close>) the links between entities and the queues they own, the weights, the counters
  \<open>h_nr_running\<close>, and which group entities are queued and running.  The first part shows what each entity
  method leaves alone; the last part holds the lemmas on walks up the hierarchy and on views of the
  state which the methods of the class share.
\<close>

subsection \<open>What the entity methods leave alone\<close>

definition class_view where
  "class_view st = ((\<lambda>e. (se_cfs_rq (ses st e), se_parent (ses st e), se_my_q (ses st e))),
     (\<lambda>c. (cfs_curr (cfs_rqs st c), cfs_h_nr_running (cfs_rqs st c), cfs_tg (cfs_rqs st c), cfs_rq_cpu (cfs_rqs st c))),
     (\<lambda>t. (tg_se (tgs st t), tg_shares (tgs st t), tg_cfs_rq (tgs st t))), (\<lambda>r. (rq_cfs (rqs st r), rq_curr (rqs st r))),
     (\<lambda>p. (p_sched_class (tasks st p), p_sched_task_group (tasks st p))))"

lemma class_view_eq:
  assumes "class_view st' = class_view st"
  shows "se_cfs_rq (ses st' e) = se_cfs_rq (ses st e)" "se_parent (ses st' e) = se_parent (ses st e)"
    "se_my_q (ses st' e) = se_my_q (ses st e)" "cfs_curr (cfs_rqs st' c) = cfs_curr (cfs_rqs st c)"
    "cfs_h_nr_running (cfs_rqs st' c) = cfs_h_nr_running (cfs_rqs st c)" "cfs_tg (cfs_rqs st' c) = cfs_tg (cfs_rqs st c)"
    "cfs_rq_cpu (cfs_rqs st' c) = cfs_rq_cpu (cfs_rqs st c)" "tg_se (tgs st' t) = tg_se (tgs st t)"
    "tg_shares (tgs st' t) = tg_shares (tgs st t)" "tg_cfs_rq (tgs st' t) = tg_cfs_rq (tgs st t)"
    "rq_cfs (rqs st' r) = rq_cfs (rqs st r)" "rq_curr (rqs st' r) = rq_curr (rqs st r)"
    "p_sched_class (tasks st' p) = p_sched_class (tasks st p)"
    "p_sched_task_group (tasks st' p) = p_sched_task_group (tasks st p)"
  using assms by (simp_all add: class_view_def fun_eq_iff)

lemma queue_class: "queue_view st' = queue_view st \<Longrightarrow> class_view st' = class_view st"
  using queue_view_eq [of st' st] by (simp add: class_view_def fun_eq_iff)

lemma class_view_upd:
  "(\<And>x. se_cfs_rq (f x) = se_cfs_rq x \<and> se_parent (f x) = se_parent x \<and> se_my_q (f x) = se_my_q x) \<Longrightarrow>
   class_view (upd_se e f st) = class_view st"
  "(\<And>x. cfs_curr (g x) = cfs_curr x \<and> cfs_h_nr_running (g x) = cfs_h_nr_running x \<and> cfs_tg (g x) = cfs_tg x \<and>
     cfs_rq_cpu (g x) = cfs_rq_cpu x) \<Longrightarrow> class_view (upd_cfs c g st) = class_view st"
  "(\<And>x. rq_cfs (k x) = rq_cfs x \<and> rq_curr (k x) = rq_curr x) \<Longrightarrow> class_view (upd_rq r k st) = class_view st"
  "(\<And>x. p_sched_class (j x) = p_sched_class x \<and> p_sched_task_group (j x) = p_sched_task_group x) \<Longrightarrow>
   class_view (upd_task p j st) = class_view st"
  by (auto simp: class_view_def fun_eq_iff)

lemma class_set_timeline [simp]: "class_view (upd_cfs c (set_timeline tc) st) = class_view st"
  by (simp add: class_view_upd set_timeline_def)

lemma class_calc_delta_fair [simp]: "class_view (snd (calc_delta_fair d se st)) = class_view st"
  by (auto simp: calc_delta_fair_def class_view_upd split: prod.split)

lemma class_update_min_vruntime [simp]: "class_view (update_min_vruntime c st) = class_view st"
  by (simp add: update_min_vruntime_def Let_def class_view_upd)

lemma class_charge_curr [simp]: "class_view (charge_curr c cur d st) = class_view st"
  by (simp add: charge_curr_def Let_def case_prod_beta class_view_upd)

lemma class_update_curr [simp]: "class_view (update_curr c st) = class_view st"
  by (auto simp: update_curr_def Let_def class_view_upd split: option.split)

lemma class_stats [simp]:
  "class_view (upd_stats se f st) = class_view st" "class_view (update_stats_wait_start c se st) = class_view st"
  "class_view (update_stats_wait_end c se st) = class_view st" "class_view (update_stats_enqueue c se st) = class_view st"
  "class_view (update_stats_dequeue c se st) = class_view st" "class_view (update_stats_curr_start c se st) = class_view st"
  "class_view (sleep_stats c se st) = class_view st" "class_view (enqueue_sleeper c se st) = class_view st"
  by (simp_all add: upd_stats_def update_stats_wait_start_def update_stats_wait_end_def update_stats_enqueue_def
    update_stats_dequeue_def update_stats_curr_start_def sleep_stats_def enqueue_sleeper_def Let_def class_view_upd)

lemma class_pelt [simp]:
  "class_view (update_entity_load_avg se b st) = class_view st"
  "class_view (enqueue_entity_load_avg c se b st) = class_view st"
  "class_view (update_cfs_rq_blocked_load c b st) = class_view st"
  "class_view (dequeue_entity_load_avg c se b st) = class_view st"
  by (intro queue_class update_entity_load_avg_step(1) enqueue_load_avg_step(1) view_blocked_load queue_dequeue_load_avg)+

lemma class_list_add_leaf [simp]: "class_view (list_add_leaf_cfs_rq c st) = class_view st"
  by (simp add: list_add_leaf_cfs_rq_def Let_def class_view_upd)

lemma class_account [simp]:
  "class_view (account_entity_enqueue c se st) = class_view st" "class_view (account_entity_dequeue c se st) = class_view st"
  by (simp_all add: account_entity_enqueue_def account_entity_dequeue_def Let_def class_view_upd)

lemma class_reweight [simp]: "class_view (reweight_entity c se w st) = class_view st"
  by (simp add: reweight_entity_def Let_def class_view_upd)

lemma class_update_cfs_shares [simp]: "class_view (update_cfs_shares c st) = class_view st"
  by (simp add: update_cfs_shares_def Let_def split: option.split)

lemma class_enqueue_tree: "enqueue_entity_tree c se st = Some st' \<Longrightarrow> class_view st' = class_view st"
  by (auto simp: enqueue_entity_tree_def split: bind_splits)

lemma class_dequeue_tree: "dequeue_entity_tree c se st = Some st' \<Longrightarrow> class_view st' = class_view st"
  by (auto simp: dequeue_entity_tree_def split: bind_splits)

lemma class_place_entity: "place_entity c se False st = Some st' \<Longrightarrow> class_view st' = class_view st"
  by (auto simp: place_entity_def class_view_upd)

lemma queue_rq_runnable: "queue_view (update_rq_runnable_avg cpu b st) = queue_view st"
  by (simp add: update_rq_runnable_avg_def case_prod_beta)

lemma class_rq_runnable [simp]: "class_view (update_rq_runnable_avg cpu b st) = class_view st"
  "core_view (update_rq_runnable_avg cpu b st) = core_view st"
  using queue_rq_runnable by (rule queue_class, rule queue_core)

lemma class_resched [simp]: "class_view (resched_task p st) = class_view st"
  by (simp add: resched_task_def class_view_upd)

lemma class_slice_loop [simp]: "class_view (snd (slice_loop es s st)) = class_view st"
  by (induction es arbitrary: s st) (simp_all add: Let_def case_prod_beta class_view_upd)

lemma class_sched_slice: "sched_slice c se st = Some (s, st') \<Longrightarrow> class_view st' = class_view st"
  by (auto simp: sched_slice_def split: bind_splits dest: arg_cong [of _ _ snd]) (metis class_slice_loop snd_conv)

lemma class_clear_buddies_loops [simp]:
  "class_view (clear_buddies_last es st) = class_view st" "class_view (clear_buddies_next es st) = class_view st"
  "class_view (clear_buddies_skip es st) = class_view st"
proof -
  show "class_view (clear_buddies_last es st) = class_view st"
    by (induction es arbitrary: st) (simp_all add: class_view_upd)
  show "class_view (clear_buddies_next es st) = class_view st"
    by (induction es arbitrary: st) (simp_all add: class_view_upd)
  show "class_view (clear_buddies_skip es st) = class_view st"
    by (induction es arbitrary: st) (simp_all add: class_view_upd)
qed

lemma class_clear_buddies: "clear_buddies c se st = Some st' \<Longrightarrow> class_view st' = class_view st"
  by (auto simp: clear_buddies_def Let_def split: bind_splits)

lemma class_enqueue_entity:
  assumes "enqueue_entity c se flags st = Some st'"
  shows "class_view st' = class_view st"
  using assms unfolding enqueue_entity_def Let_def
  by (auto simp: class_view_upd split: bind_splits if_splits dest!: class_enqueue_tree class_place_entity)

lemma class_dequeue_entity:
  assumes "dequeue_entity c se flags st = Some st'"
  shows "class_view st' = class_view st"
  using assms unfolding dequeue_entity_def Let_def
  by (auto simp: class_view_upd split: bind_splits if_splits dest!: class_dequeue_tree class_clear_buddies)

lemma class_wakeup_preempt [simp]: "class_view (snd (wakeup_preempt_entity a b st)) = class_view st"
  by (simp add: wakeup_preempt_entity_def wakeup_gran_def Let_def case_prod_beta)

lemma class_prefer_buddy [simp]: "class_view (snd (prefer_buddy cand left p)) = class_view (snd p)"
  by (simp add: prefer_buddy_def case_prod_beta split: option.split)

lemma class_pick_next_entity: "pick_next_entity c st = Some (se, st') \<Longrightarrow> class_view st' = class_view st"
  by (auto simp: pick_next_entity_def Let_def case_prod_beta split: bind_splits if_splits dest!: class_clear_buddies)

lemma class_check_preempt_tick: "check_preempt_tick c cur st = Some st' \<Longrightarrow> class_view st' = class_view st"
  by (auto simp: check_preempt_tick_def Let_def split: bind_splits if_splits
    dest!: class_sched_slice class_clear_buddies)

lemma class_entity_tick: "entity_tick c cur st = Some st' \<Longrightarrow> class_view st' = class_view st"
  by (auto simp: entity_tick_def Let_def split: if_splits dest!: class_check_preempt_tick)

lemma class_upd_curr_cong:
  "class_view s' = class_view s \<Longrightarrow>
   class_view (upd_cfs c (\<lambda>q. q\<lparr>cfs_curr := x\<rparr>) s') = class_view (upd_cfs c (\<lambda>q. q\<lparr>cfs_curr := x\<rparr>) s)"
  by (simp add: class_view_def fun_eq_iff)

lemma class_set_next_entity:
  assumes "set_next_entity c se st = Some st'"
  shows "class_view st' = class_view (upd_cfs c (\<lambda>q. q\<lparr>cfs_curr := Some se\<rparr>) st)"
proof -
  obtain s where s: "(if se_on_rq (ses st se)
      then do { st \<leftarrow> dequeue_entity_tree c se (update_stats_wait_end c se st); Some (update_entity_load_avg se True st) }
      else Some st) = Some s" and
    st': "class_view st' = class_view (upd_cfs c (\<lambda>q. q\<lparr>cfs_curr := Some se\<rparr>) (update_stats_curr_start c se s))"
    using assms unfolding set_next_entity_def Let_def
    by (auto simp: class_view_upd split: bind_splits)
  have "class_view s = class_view st" using s by (auto split: bind_splits if_splits dest!: class_dequeue_tree)
  then show ?thesis unfolding st' by (intro class_upd_curr_cong) simp
qed

lemma class_put_prev_entity:
  assumes "put_prev_entity c se st = Some st'"
  shows "class_view st' = class_view (upd_cfs c (\<lambda>q. q\<lparr>cfs_curr := None\<rparr>) st)"
proof -
  define s1 where "s1 = (if se_on_rq (ses st se) then update_curr c st else st)"
  obtain s where s: "(if se_on_rq (ses s1 se)
      then do { st \<leftarrow> enqueue_entity_tree c se (update_stats_wait_start c se s1); Some (update_entity_load_avg se True st) }
      else Some s1) = Some s" and st': "st' = upd_cfs c (\<lambda>q. q\<lparr>cfs_curr := None\<rparr>) s"
    using assms unfolding put_prev_entity_def Let_def s1_def [symmetric] by (auto split: bind_splits)
  have "class_view s = class_view s1" using s by (auto split: bind_splits if_splits dest!: class_enqueue_tree)
  then show ?thesis unfolding st' by (intro class_upd_curr_cong) (simp add: s1_def)
qed

subsection \<open>Weights\<close>

definition weights_ok :: "sched_state \<Rightarrow> bool" where
  "weights_ok st \<longleftrightarrow> (\<forall>e. 0 < weight (se_load (ses st e)) \<and> weight (se_load (ses st e)) \<le> MAX_SHARES) \<and>
     (\<forall>t. MIN_SHARES \<le> tg_shares (tgs st t) \<and> tg_shares (tgs st t) \<le> MAX_SHARES)"

lemma weights_cong: "core_view st' = core_view st \<Longrightarrow> class_view st' = class_view st \<Longrightarrow> weights_ok st' = weights_ok st"
  using core_view_eq(5) [of st' st] class_view_eq(9) [of st' st] by (simp add: weights_ok_def)

lemma weights_upd [simp]:
  "(\<And>x. se_load (f x) = se_load x) \<Longrightarrow> weights_ok (upd_se e f st) = weights_ok st"
  "weights_ok (upd_cfs c g st) = weights_ok st" "weights_ok (upd_rq r k st) = weights_ok st"
  "weights_ok (upd_task p j st) = weights_ok st"
  by (auto simp: weights_ok_def)

lemma weights_frame [simp]:
  "weights_ok (update_curr c st) = weights_ok st" "weights_ok (update_entity_load_avg se b st) = weights_ok st"
  "weights_ok (enqueue_entity_load_avg c se b st) = weights_ok st" "weights_ok (update_cfs_rq_blocked_load c b st) = weights_ok st"
  "weights_ok (dequeue_entity_load_avg c se b st) = weights_ok st" "weights_ok (update_stats_enqueue c se st) = weights_ok st"
  "weights_ok (update_stats_dequeue c se st) = weights_ok st" "weights_ok (sleep_stats c se st) = weights_ok st"
  "weights_ok (enqueue_sleeper c se st) = weights_ok st" "weights_ok (list_add_leaf_cfs_rq c st) = weights_ok st"
  "weights_ok (update_min_vruntime c st) = weights_ok st" "weights_ok (update_rq_runnable_avg cpu b st) = weights_ok st"
  "weights_ok (resched_task p st) = weights_ok st"
  by (rule weights_cong; simp)+

lemma weights_account [simp]:
  "weights_ok (account_entity_enqueue c se st) = weights_ok st" "weights_ok (account_entity_dequeue c se st) = weights_ok st"
  by (simp_all add: weights_ok_def)

lemma weights_reweight:
  assumes "weights_ok st" "0 < w" "w \<le> MAX_SHARES"
  shows "weights_ok (reweight_entity c se w st)"
  using assms
proof -
  define s where "s = (if se_on_rq (ses st se)
    then account_entity_dequeue c se (if cfs_curr (cfs_rqs st c) = Some se then update_curr c st else st) else st)"
  have "weights_ok s" using assms(1) by (simp add: s_def)
  then have "weights_ok (upd_se se (\<lambda>e. e\<lparr>se_load := update_load_set (se_load e) w\<rparr>) s)"
    using assms(2,3) by (simp add: weights_ok_def update_load_set_def)
  then show ?thesis by (simp add: reweight_entity_def Let_def s_def [symmetric])
qed

lemma weights_shares: "weights_ok st \<Longrightarrow> weights_ok (update_cfs_shares c st)"
proof -
  assume w: "weights_ok st"
  let ?tg = "tgs st (cfs_tg (cfs_rqs st c))"
  have "MIN_SHARES \<le> tg_shares ?tg" "tg_shares ?tg \<le> MAX_SHARES" using w by (simp_all add: weights_ok_def)
  then have "0 < calc_cfs_shares (cfs_rqs st c) ?tg" "calc_cfs_shares (cfs_rqs st c) ?tg \<le> MAX_SHARES"
    using calc_cfs_shares_range [of ?tg "cfs_rqs st c"] by (auto simp: MIN_SHARES_def word_le_nat_alt word_less_nat_alt)
  then show ?thesis using w weights_reweight by (simp add: update_cfs_shares_def Let_def split: option.split)
qed

lemma weights_tree:
  "enqueue_entity_tree c se st = Some st' \<Longrightarrow> weights_ok st' = weights_ok st"
  "dequeue_entity_tree c se st = Some st' \<Longrightarrow> weights_ok st' = weights_ok st"
  by (auto simp: enqueue_entity_tree_def dequeue_entity_tree_def split: bind_splits)

lemma weights_place_entity: "place_entity c se False st = Some st' \<Longrightarrow> weights_ok st' = weights_ok st"
  by (auto simp: place_entity_def)

lemma weights_clear_loops [simp]:
  "weights_ok (clear_buddies_last es st) = weights_ok st" "weights_ok (clear_buddies_next es st) = weights_ok st"
  "weights_ok (clear_buddies_skip es st) = weights_ok st"
  by (simp_all add: weights_ok_def buddies_cleared_fields(1,2) [OF clear_last_step(1)]
    buddies_cleared_fields(1,2) [OF clear_next_step(1)] buddies_cleared_fields(1,2) [OF clear_skip_step(1)])

lemma weights_clear_buddies: "clear_buddies c se st = Some st' \<Longrightarrow> weights_ok st' = weights_ok st"
  by (clarsimp simp: clear_buddies_def Let_def split: bind_splits)

lemma weights_enqueue_entity:
  assumes "enqueue_entity c se flags st = Some st'" "weights_ok st"
  shows "weights_ok st'"
  using assms unfolding enqueue_entity_def Let_def
  by (auto split: bind_splits if_splits dest!: weights_tree weights_place_entity intro!: weights_shares)

lemma weights_dequeue_entity:
  assumes "dequeue_entity c se flags st = Some st'" "weights_ok st"
  shows "weights_ok st'"
  using assms unfolding dequeue_entity_def Let_def
  by (auto split: bind_splits if_splits dest!: weights_tree weights_clear_buddies intro!: weights_shares)

text \<open>Because weights are positive and bounded, the total weight of a queue does not wrap to 0.\<close>

lemma sum_weights:
  fixes w :: "nat \<Rightarrow> u64"
  assumes "finite M" "\<And>e. e \<in> M \<Longrightarrow> unat (w e) \<le> 262144" "card M < 4294967296"
  shows "unat (\<Sum>e\<in>M. w e) = (\<Sum>e\<in>M. unat (w e)) \<and> (\<Sum>e\<in>M. unat (w e)) \<le> card M * 262144"
  using assms
proof (induction M)
  case (insert x M)
  then have ih: "unat (\<Sum>e\<in>M. w e) = (\<Sum>e\<in>M. unat (w e))" "(\<Sum>e\<in>M. unat (w e)) \<le> card M * 262144" by simp_all
  have c: "card M < 4294967296" "unat (w x) \<le> 262144" using insert by simp_all
  then have "unat (w x) + unat (\<Sum>e\<in>M. w e) < 2 ^ 64" using ih by simp
  then have "unat (w x + (\<Sum>e\<in>M. w e)) = unat (w x) + unat (\<Sum>e\<in>M. w e)" by (subst unat_plus_simple [symmetric]) (simp add: no_olen_add_nat)
  moreover have "unat (w x) + (\<Sum>e\<in>M. unat (w e)) \<le> 262144 + card M * 262144" using ih c by linarith
  ultimately show ?case using insert.hyps ih by simp
qed simp

lemma load_zero_iff:
  assumes "sched_ok st" "weights_ok st" "card (members st c) < 4294967296"
  shows "weight (cfs_load (cfs_rqs st c)) = 0 \<longleftrightarrow> members st c = {}"
proof -
  let ?w = "\<lambda>e. weight (se_load (ses st e))"
  have f: "finite (members st c)" "weight (cfs_load (cfs_rqs st c)) = (\<Sum>e\<in>members st c. ?w e)"
    using assms(1) by (auto simp: sched_ok_def acct_ok_def)
  have b: "0 < unat (?w e)" "unat (?w e) \<le> 262144" for e
    using assms(2) by (auto simp: weights_ok_def MAX_SHARES_def word_le_nat_alt word_less_nat_alt)
  have "unat (\<Sum>e\<in>members st c. ?w e) = (\<Sum>e\<in>members st c. unat (?w e))" using sum_weights [of "members st c" ?w, OF f(1) b(2) assms(3)] by blast
  then have "weight (cfs_load (cfs_rqs st c)) = 0 \<longleftrightarrow> (\<Sum>e\<in>members st c. unat (?w e)) = 0"
    using f(2) by (metis unat_eq_zero)
  also have "\<dots> \<longleftrightarrow> members st c = {}" using f(1) b(1) by (simp add: sum_eq_0_iff) (metis all_not_in_conv less_irrefl)
  finally show ?thesis .
qed

subsection \<open>The invariant of the hierarchy\<close>

text \<open>An entity hangs below the entity that owns its queue, a queue has one owner, and the depth of the
  hierarchy is bounded.\<close>

definition links_ok :: "sched_state \<Rightarrow> bool" where
  "links_ok st \<longleftrightarrow>
     (\<forall>e g. se_parent (ses st e) = Some g \<longleftrightarrow> se_my_q (ses st g) = Some (se_cfs_rq (ses st e))) \<and>
     (\<forall>g h q. se_my_q (ses st g) = Some q \<and> se_my_q (ses st h) = Some q \<longrightarrow> g = h) \<and>
     (\<exists>D. \<forall>e es. for_each_sched_entity st (Some e) = Some es \<longrightarrow> length es \<le> D)"

definition chain_ok :: "sched_state \<Rightarrow> bool" where
  "chain_ok st \<longleftrightarrow> (\<forall>g q. se_my_q (ses st g) = Some q \<and> cfs_curr (cfs_rqs st q) \<noteq> None \<longrightarrow>
     cfs_curr (cfs_rqs st (se_cfs_rq (ses st g))) = Some g)"

definition base_ok :: "sched_state \<Rightarrow> bool" where
  "base_ok st \<longleftrightarrow> sched_ok st \<and> links_ok st \<and> weights_ok st \<and> (\<forall>c. card (members st c) < 4294967296)"

text \<open>A group entity is queued exactly when its own queue has members; inside the loops one entity may be
  an exception.\<close>

definition groups_ok :: "sched_state \<Rightarrow> nat option \<Rightarrow> bool" where
  "groups_ok st x \<longleftrightarrow> (\<forall>g q. se_my_q (ses st g) = Some q \<and> x \<noteq> Some g \<longrightarrow>
     (se_on_rq (ses st g) \<longleftrightarrow> members st q \<noteq> {}))"

text \<open>\<open>h_nr_running\<close> counts the tasks below a queue; inside the loops the queue of one entity is off by
  \<open>v\<close>.\<close>

definition tasks_below :: "sched_state \<Rightarrow> nat \<Rightarrow> u32" where
  "tasks_below st e = (case se_my_q (ses st e) of None \<Rightarrow> 1 | Some q \<Rightarrow> cfs_h_nr_running (cfs_rqs st q))"

definition counts_ok :: "sched_state \<Rightarrow> nat option \<Rightarrow> u32 \<Rightarrow> bool" where
  "counts_ok st x v \<longleftrightarrow> (\<forall>c. cfs_h_nr_running (cfs_rqs st c) + (if \<exists>e. x = Some e \<and> e \<in> members st c then v else 0) =
     (\<Sum>e\<in>members st c. tasks_below st e))"

definition class_ok :: "sched_state \<Rightarrow> bool" where
  "class_ok st \<longleftrightarrow> base_ok st \<and> chain_ok st \<and> groups_ok st None \<and> counts_ok st None 0"

lemma links_cong:
  assumes "\<And>e. se_cfs_rq (ses st' e) = se_cfs_rq (ses st e)" "\<And>e. se_parent (ses st' e) = se_parent (ses st e)"
    "\<And>e. se_my_q (ses st' e) = se_my_q (ses st e)"
  shows "links_ok st' = links_ok st" "for_each_sched_entity st' = for_each_sched_entity st"
proof -
  have "parent_entity st' = parent_entity st" by (simp add: parent_entity_def assms fun_eq_iff)
  then show w: "for_each_sched_entity st' = for_each_sched_entity st" by (intro ext) (simp add: for_each_sched_entity_def)
  show "links_ok st' = links_ok st" by (simp add: links_ok_def assms w)
qed

lemma links_class: "class_view st' = class_view st \<Longrightarrow> links_ok st' = links_ok st \<and> chain_ok st' = chain_ok st"
  using links_cong(1) [of st' st] class_view_eq [of st' st] by (simp add: chain_ok_def)

lemma links_parent:
  "links_ok st \<Longrightarrow> se_parent (ses st e) = Some g \<longleftrightarrow> se_my_q (ses st g) = Some (se_cfs_rq (ses st e))"
  by (simp add: links_ok_def)

lemma links_owner:
  "links_ok st \<Longrightarrow> se_my_q (ses st g) = Some q \<Longrightarrow> se_my_q (ses st h) = Some q \<Longrightarrow> g = h"
  by (auto simp: links_ok_def)

lemma walk_total: "sched_ok st \<Longrightarrow> \<exists>es. for_each_sched_entity st (Some e) = Some es"
  by (auto simp: sched_ok_def hier_ok_def)

text \<open>No entity is its own parent.\<close>

lemma no_self_parent:
  assumes "sched_ok st"
  shows "se_parent (ses st e) \<noteq> Some e"
proof
  assume p: "se_parent (ses st e) = Some e"
  obtain es where es: "for_each_sched_entity st (Some e) = Some es" using walk_total [OF assms] by blast
  then obtain es' where "es = e # es'" "ancestors (parent_entity st) (parent_entity st e) = Some es'"
    unfolding for_each_sched_entity_def by (rule ancestors_Cons)
  with es p show False by (simp add: for_each_sched_entity_def parent_entity_def)
qed

lemma owner_not_member:
  assumes "base_ok st" "se_my_q (ses st g) = Some c"
  shows "g \<notin> members st c"
proof
  assume "g \<in> members st c"
  then have "se_parent (ses st g) = Some g" using assms by (simp add: members_def base_ok_def links_parent)
  then show False using assms no_self_parent by (simp add: base_ok_def)
qed

lemma walk_Cons:
  assumes "for_each_sched_entity st (Some e) = Some es"
  obtains es' where "es = e # es'" "for_each_sched_entity st (parent_entity st e) = Some es'"
  using assms unfolding for_each_sched_entity_def by (rule ancestors_Cons)

lemma parent_queued:
  assumes "links_ok st" "groups_ok st x" "e \<in> members st c" "se_parent (ses st e) = Some g" "x \<noteq> Some g"
  shows "se_on_rq (ses st g)" "g \<in> members st (se_cfs_rq (ses st g))"
proof -
  have "se_my_q (ses st g) = Some c" using assms(1,3,4) by (simp add: links_parent members_def)
  then show "se_on_rq (ses st g)" using assms(2,3,5) by (auto simp: groups_ok_def)
  then show "g \<in> members st (se_cfs_rq (ses st g))" by (simp add: members_def)
qed

lemma walk_queued:
  assumes "links_ok st" "groups_ok st None"
  shows "for_each_sched_entity st (Some e) = Some es \<Longrightarrow> se_on_rq (ses st e) \<Longrightarrow> a \<in> set es \<Longrightarrow> se_on_rq (ses st a)"
proof (induction es arbitrary: e)
  case (Cons x es)
  obtain es' where es: "x # es = e # es'" "for_each_sched_entity st (parent_entity st e) = Some es'"
    using Cons.prems(1) by (rule walk_Cons)
  show ?case
  proof (cases "a = e")
    case False
    then have "a \<in> set es" using Cons.prems(3) es by simp
    then obtain g where g: "parent_entity st e = Some g" using es
      by (cases "parent_entity st e") (auto simp: for_each_sched_entity_def)
    have "se_on_rq (ses st g)"
      using parent_queued(1) [OF assms, of e "se_cfs_rq (ses st e)"] Cons.prems(2) g by (simp add: members_def parent_entity_def)
    then show ?thesis using Cons.IH [of g] es g \<open>a \<in> set es\<close> by simp
  qed (use Cons.prems in simp)
qed simp

subsection \<open>Levels of the hierarchy\<close>

lemma upd_h_nr_simps [simp]:
  "ses (upd_h_nr c d st) = ses st" "tgs (upd_h_nr c d st) = tgs st" "rqs (upd_h_nr c d st) = rqs st" "tasks (upd_h_nr c d st) = tasks st"
  "cfs_h_nr_running (cfs_rqs (upd_h_nr c d st) q) = cfs_h_nr_running (cfs_rqs st q) + (if q = c then d else 0)"
  "cfs_curr (cfs_rqs (upd_h_nr c d st) q) = cfs_curr (cfs_rqs st q)"
  "cfs_nr_running (cfs_rqs (upd_h_nr c d st) q) = cfs_nr_running (cfs_rqs st q)"
  "cfs_load (cfs_rqs (upd_h_nr c d st) q) = cfs_load (cfs_rqs st q)"
  "weights_ok (upd_h_nr c d st) = weights_ok st" "members (upd_h_nr c d st) = members st"
  by (simp_all add: upd_h_nr_def members_def fun_eq_iff)

lemma upd_h_nr_cpu [simp]: "cfs_rq_cpu (cfs_rqs (upd_h_nr c d st) q) = cfs_rq_cpu (cfs_rqs st q)"
  by (simp add: upd_h_nr_def)

lemma upd_h_nr_core [simp]: "core_view (upd_h_nr c d st) = core_view st"
  by (simp add: upd_h_nr_def core_view_upd view_defs)

lemma upd_h_nr_links [simp]:
  "links_ok (upd_h_nr c d st) = links_ok st" "chain_ok (upd_h_nr c d st) = chain_ok st"
  "base_ok (upd_h_nr c d st) = base_ok st" "groups_ok (upd_h_nr c d st) = groups_ok st"
  "for_each_sched_entity (upd_h_nr c d st) = for_each_sched_entity st"
  using links_cong [of "upd_h_nr c d st" st] sched_ok_core [OF upd_h_nr_core [of c d st]]
  by (simp_all add: chain_ok_def base_ok_def groups_ok_def fun_eq_iff)

text \<open>What one more task in the queue \<open>c\<close> means for the counts: the owner of \<open>c\<close> has one more, and so
  the queue of the owner is off by one if the owner is queued.\<close>

lemma counts_level:
  assumes base: "base_ok st" and links: "\<And>e. se_my_q (ses s e) = se_my_q (ses st e)" "\<And>e. se_cfs_rq (ses s e) = se_cfs_rq (ses st e)"
    and m: "members s = (members st)(c := M)" and fin: "finite M" "\<And>g. se_my_q (ses st g) = Some c \<Longrightarrow> g \<notin> M"
    and h: "\<And>q. cfs_h_nr_running (cfs_rqs s q) = cfs_h_nr_running (cfs_rqs st q) + (if q = c then d else 0)"
    and old: "\<And>q. q \<noteq> c \<Longrightarrow> cfs_h_nr_running (cfs_rqs st q) = (\<Sum>e\<in>members st q. tasks_below st e)"
    and new: "cfs_h_nr_running (cfs_rqs st c) + d = (\<Sum>e\<in>M. tasks_below st e)"
    and par: "\<And>g. par = Some g \<longleftrightarrow> se_my_q (ses st g) = Some c"
  shows "counts_ok s par d"
  unfolding counts_ok_def
proof
  fix q
  have tb: "tasks_below s e = tasks_below st e + (if par = Some e then d else 0)" for e
    using par [of e] by (simp add: tasks_below_def links h split: option.split)
  show "cfs_h_nr_running (cfs_rqs s q) + (if \<exists>e. par = Some e \<and> e \<in> members s q then d else 0) = (\<Sum>e\<in>members s q. tasks_below s e)"
  proof (cases "q = c")
    case True
    have "par \<noteq> Some e" if "e \<in> M" for e using fin(2) par that by blast
    then have "(\<Sum>e\<in>M. tasks_below s e) = (\<Sum>e\<in>M. tasks_below st e)" "\<not> (\<exists>e. par = Some e \<and> e \<in> M)"
      by (auto simp: tb intro!: sum.cong)
    then show ?thesis using True new by (auto simp: m h)
  next
    case False
    have f: "finite (members st q)" using base by (simp add: base_ok_def sched_ok_def acct_ok_def)
    have "(\<Sum>e\<in>members st q. if par = Some e then d else 0) = (if \<exists>e. par = Some e \<and> e \<in> members st q then d else 0)"
      using f by (cases par) (simp_all add: sum.delta)
    then show ?thesis using False old [OF False] by (simp add: m h tb sum.distrib)
  qed
qed

text \<open>The links, and the links with the running entities, which the queueing of a task does not change.\<close>

definition link_view where
  "link_view st = ((\<lambda>e. (se_cfs_rq (ses st e), se_parent (ses st e), se_my_q (ses st e))),
     (\<lambda>t. (tg_se (tgs st t), tg_cfs_rq (tgs st t))), (\<lambda>r. (rq_cfs (rqs st r), rq_curr (rqs st r))),
     (\<lambda>c. cfs_rq_cpu (cfs_rqs st c)), (\<lambda>p. (p_sched_class (tasks st p), p_sched_task_group (tasks st p))))"

definition hier_view where
  "hier_view st = (link_view st, (\<lambda>c. cfs_curr (cfs_rqs st c)))"

lemma link_view_eq:
  assumes "link_view s = link_view st"
  shows "se_cfs_rq (ses s e) = se_cfs_rq (ses st e)" "se_parent (ses s e) = se_parent (ses st e)"
    "se_my_q (ses s e) = se_my_q (ses st e)" "for_each_sched_entity s = for_each_sched_entity st" "links_ok s = links_ok st"
    "parent_entity s = parent_entity st" "rq_cfs (rqs s r) = rq_cfs (rqs st r)" "rq_curr (rqs s r) = rq_curr (rqs st r)"
    "tg_se (tgs s t) = tg_se (tgs st t)" "tg_cfs_rq (tgs s t) = tg_cfs_rq (tgs st t)"
    "cfs_rq_cpu (cfs_rqs s c) = cfs_rq_cpu (cfs_rqs st c)"
    "p_sched_class (tasks s p) = p_sched_class (tasks st p)" "p_sched_task_group (tasks s p) = p_sched_task_group (tasks st p)"
proof -
  show f: "se_cfs_rq (ses s e) = se_cfs_rq (ses st e)" "se_parent (ses s e) = se_parent (ses st e)"
    "se_my_q (ses s e) = se_my_q (ses st e)" for e using assms by (simp_all add: link_view_def fun_eq_iff)
  show "rq_cfs (rqs s r) = rq_cfs (rqs st r)" "rq_curr (rqs s r) = rq_curr (rqs st r)"
    "tg_se (tgs s t) = tg_se (tgs st t)" "tg_cfs_rq (tgs s t) = tg_cfs_rq (tgs st t)"
    "cfs_rq_cpu (cfs_rqs s c) = cfs_rq_cpu (cfs_rqs st c)"
    "p_sched_class (tasks s p) = p_sched_class (tasks st p)" "p_sched_task_group (tasks s p) = p_sched_task_group (tasks st p)"
    using assms by (simp_all add: link_view_def fun_eq_iff)
  show "for_each_sched_entity s = for_each_sched_entity st" "links_ok s = links_ok st"
    by (rule links_cong, simp_all add: f)+
  show "parent_entity s = parent_entity st" by (simp add: parent_entity_def f fun_eq_iff)
qed

lemma hier_view_eq:
  assumes "hier_view s = hier_view st"
  shows "se_cfs_rq (ses s e) = se_cfs_rq (ses st e)" "se_parent (ses s e) = se_parent (ses st e)"
    "se_my_q (ses s e) = se_my_q (ses st e)" "cfs_curr (cfs_rqs s c) = cfs_curr (cfs_rqs st c)"
    "for_each_sched_entity s = for_each_sched_entity st" "link_view s = link_view st"
proof -
  show l: "link_view s = link_view st" and "cfs_curr (cfs_rqs s c) = cfs_curr (cfs_rqs st c)"
    using assms by (simp_all add: hier_view_def fun_eq_iff)
  show "se_cfs_rq (ses s e) = se_cfs_rq (ses st e)" "se_parent (ses s e) = se_parent (ses st e)"
    "se_my_q (ses s e) = se_my_q (ses st e)" "for_each_sched_entity s = for_each_sched_entity st"
    using link_view_eq(1-4) [OF l] by simp_all
qed

lemma class_hier: "class_view s = class_view st \<Longrightarrow> hier_view s = hier_view st"
  using class_view_eq [of s st] by (simp add: hier_view_def link_view_def)

lemma hier_upd_h_nr [simp]: "hier_view (upd_h_nr c d st) = hier_view st"
  by (simp add: hier_view_def link_view_def)

lemma on_rq_members: "se_on_rq (ses st e) \<longleftrightarrow> e \<in> members st (se_cfs_rq (ses st e))"
  by (simp add: members_def)

text \<open>Operations that change neither the members nor the links keep every part of the invariant.\<close>

lemma hier_frame:
  assumes "class_view s = class_view st" "members s = members st" "sched_ok s" "weights_ok s"
  shows "base_ok st \<Longrightarrow> base_ok s" "chain_ok s = chain_ok st" "groups_ok s x = groups_ok st x" "counts_ok s x v = counts_ok st x v"
    "for_each_sched_entity s = for_each_sched_entity st" "se_on_rq (ses s e) = se_on_rq (ses st e)"
    "tasks_below s e = tasks_below st e" "cfs_nr_running (cfs_rqs s c) = cfs_nr_running (cfs_rqs st c) \<or> \<not> sched_ok st"
proof -
  note v = class_view_eq [OF assms(1)]
  show on: "se_on_rq (ses s e) = se_on_rq (ses st e)" for e using assms(2) v(1) by (simp add: on_rq_members)
  show t: "tasks_below s e = tasks_below st e" for e by (simp add: tasks_below_def v split: option.split)
  show "base_ok st \<Longrightarrow> base_ok s" "chain_ok s = chain_ok st" using links_class [OF assms(1)] assms by (simp_all add: base_ok_def)
  show "groups_ok s x = groups_ok st x" by (simp add: groups_ok_def v on assms(2))
  show "counts_ok s x v = counts_ok st x v" by (simp add: counts_ok_def v t assms(2))
  show "for_each_sched_entity s = for_each_sched_entity st" using v by (intro links_cong(2))
  show "cfs_nr_running (cfs_rqs s c) = cfs_nr_running (cfs_rqs st c) \<or> \<not> sched_ok st"
    using assms(2,3) by (auto simp: sched_ok_def acct_ok_def)
qed

lemma walk_shorter:
  "for_each_sched_entity st (Some e) = Some es \<Longrightarrow> a \<in> set es \<Longrightarrow>
   \<exists>as. for_each_sched_entity st (Some a) = Some as \<and> length as \<le> length es"
  unfolding for_each_sched_entity_def by (metis ancestors_drop diff_le_self in_set_conv_nth length_drop)

text \<open>The ancestors of an entity are queued elsewhere.\<close>

lemma ancestor_queue:
  assumes "links_ok st" "for_each_sched_entity st (Some e) = Some (e # es)" "a \<in> set es"
  shows "se_cfs_rq (ses st a) \<noteq> se_cfs_rq (ses st e)"
proof
  assume "se_cfs_rq (ses st a) = se_cfs_rq (ses st e)"
  then have "\<And>g. se_parent (ses st a) = Some g \<longleftrightarrow> se_parent (ses st e) = Some g" using assms(1) by (simp add: links_parent)
  then have p: "parent_entity st a = parent_entity st e" unfolding parent_entity_def by (metis not_None_eq)
  have w: "for_each_sched_entity st (parent_entity st e) = Some es" using assms(2) by (auto elim: walk_Cons)
  then obtain g where g: "parent_entity st e = Some g" using assms(3) by (cases "parent_entity st e") (auto simp: for_each_sched_entity_def)
  obtain as where "for_each_sched_entity st (Some a) = Some as" "length as \<le> length es"
    using walk_shorter [of st g es a] w g assms(3) by auto
  then show False using w p by (auto elim: walk_Cons)
qed

lemma finite_members: "sched_ok st \<Longrightarrow> finite (members st c)"
  by (simp add: sched_ok_def acct_ok_def)

lemma nr_running_card: "sched_ok st \<Longrightarrow> cfs_nr_running (cfs_rqs st c) = of_nat (card (members st c))"
  by (simp add: sched_ok_def acct_ok_def)

lemma card_room:
  assumes "base_ok st" "cfs_nr_running (cfs_rqs st c) \<noteq> - 1"
  shows "card (insert e (members st c)) < 4294967296"
proof -
  have c: "card (members st c) < 4294967296" using assms(1) by (simp add: base_ok_def)
  have "card (members st c) \<noteq> 4294967295"
  proof
    assume "card (members st c) = 4294967295"
    then have "cfs_nr_running (cfs_rqs st c) = - 1" using assms(1) nr_running_card [of st c] by (simp add: base_ok_def)
    with assms(2) show False by simp
  qed
  moreover have "card (insert e (members st c)) \<le> Suc (card (members st c))"
    using finite_members [of st c] assms(1) by (simp add: base_ok_def card_insert_if)
  ultimately show ?thesis using c by linarith
qed

end
