(* ===== verification/CFS_Task_Queue.thy ===== *)
theory CFS_Task_Queue
  imports CFS_Hierarchy
begin

text \<open>
  \<open>enqueue_task_fair\<close> and \<open>dequeue_task_fair\<close> keep the invariant of the hierarchy.  Both are two loops up the
  ancestors of the task: the first queues or dequeues entities, the second only refreshes counters
  and shares.  Between two rounds the counters of one queue are off by one, and the loop invariants
  (\<open>enqueue_inv\<close>, \<open>refresh_inv\<close> and the one of the dequeue) say which queue.
\<close>

text \<open>The state of the loop of \<open>enqueue_task_fair\<close> before the entity \<open>x\<close>.\<close>

definition enqueue_inv :: "sched_state \<Rightarrow> nat option \<Rightarrow> bool" where
  "enqueue_inv st x \<longleftrightarrow> base_ok st \<and> chain_ok st \<and> groups_ok st x \<and> counts_ok st x 1 \<and>
     (\<forall>e. x = Some e \<longrightarrow> (\<forall>q. se_my_q (ses st e) = Some q \<longrightarrow> members st q \<noteq> {}) \<and>
        (\<not> se_on_rq (ses st e) \<longrightarrow> tasks_below st e = 1))"

lemma enqueue_level:
  assumes inv: "enqueue_inv st (Some e)" and off: "\<not> se_on_rq (ses st e)" and c: "c = cfs_rq_of st e"
    and room: "cfs_nr_running (cfs_rqs st c) \<noteq> - 1"
  obtains s where "enqueue_entity c e flags st = Some s" "class_view s = class_view st"
    "members s = (members st)(c := insert e (members st c))" "enqueue_inv (upd_h_nr c 1 s) (parent_entity st e)"
proof -
  have base: "base_ok st" and ok: "sched_ok st" and lk: "links_ok st" and w: "weights_ok st"
    using inv by (simp_all add: enqueue_inv_def base_ok_def)
  have ce: "se_cfs_rq (ses st e) = c" using c by (simp add: cfs_rq_of_def)
  obtain s where s: "enqueue_entity c e flags st = Some s" "sched_ok s"
      "members s = (members st)(c := insert e (members st c))"
    using enqueue_entity_ok [OF ok off ce] by blast
  have v: "class_view s = class_view st" using s(1) by (rule class_enqueue_entity)
  note f = class_view_eq [OF v]
  have par: "parent_entity st e = Some g \<longleftrightarrow> se_my_q (ses st g) = Some c" for g
    using links_parent [OF lk, of e g] ce by (simp add: parent_entity_def)
  have on: "se_on_rq (ses s x) \<longleftrightarrow> x = e \<or> se_on_rq (ses st x)" for x
    using s(3) f(1) ce by (auto simp: on_rq_members)
  have fin: "finite (members st c)" "e \<notin> members st c" using finite_members [OF ok] off by (simp_all add: members_def)
  have base': "base_ok s"
    using s base lk w links_class [OF v] weights_enqueue_entity [OF s(1) w] card_room [OF base room, of e]
    by (simp add: base_ok_def)
  have counts: "cfs_h_nr_running (cfs_rqs st q) = (\<Sum>x\<in>members st q. tasks_below st x)" for q
    using inv off by (auto simp: enqueue_inv_def counts_ok_def members_def)
  have tb: "tasks_below st e = 1" using inv off by (simp add: enqueue_inv_def)
  have groups: "groups_ok s (parent_entity st e)"
    unfolding groups_ok_def
  proof (intro allI impI)
    fix g q assume g: "se_my_q (ses s g) = Some q \<and> parent_entity st e \<noteq> Some g"
    then have q: "q \<noteq> c" using par f by auto
    have "g \<noteq> e \<Longrightarrow> se_on_rq (ses st g) \<longleftrightarrow> members st q \<noteq> {}" "g = e \<Longrightarrow> members st q \<noteq> {}"
      using inv g f by (simp_all add: enqueue_inv_def groups_ok_def)
    then show "se_on_rq (ses s g) \<longleftrightarrow> members s q \<noteq> {}" using q by (auto simp: on s(3))
  qed
  have cnt: "counts_ok (upd_h_nr c 1 s) (parent_entity st e) 1"
  proof (rule counts_level [OF base])
    show "\<And>g. se_my_q (ses st g) = Some c \<Longrightarrow> g \<notin> insert e (members st c)"
      using par no_self_parent [OF ok, of e] owner_not_member [OF base] by (auto simp: parent_entity_def)
    show "cfs_h_nr_running (cfs_rqs st c) + 1 = (\<Sum>x\<in>insert e (members st c). tasks_below st x)"
      using fin tb counts [of c] by (simp add: add.commute)
  qed (use s f par counts fin in simp_all)
  have "enqueue_inv (upd_h_nr c 1 s) (parent_entity st e)"
    unfolding enqueue_inv_def
  proof (intro conjI allI impI)
    fix g assume g: "parent_entity st e = Some g"
    then have q: "se_my_q (ses st g) = Some c" using par by simp
    then show "\<And>q. se_my_q (ses (upd_h_nr c 1 s) g) = Some q \<Longrightarrow> members (upd_h_nr c 1 s) q \<noteq> {}"
      using f s(3) by simp
    assume "\<not> se_on_rq (ses (upd_h_nr c 1 s) g)"
    then have "\<not> se_on_rq (ses st g)" "g \<noteq> e" using on by auto
    then have "members st c = {}" using inv q by (simp add: enqueue_inv_def groups_ok_def)
    then show "tasks_below (upd_h_nr c 1 s) g = 1" using counts [of c] q f by (simp add: tasks_below_def)
  qed (use base' groups cnt links_class [OF v] inv in \<open>simp_all add: enqueue_inv_def\<close>)
  with s v show thesis using that by blast
qed

lemma enqueue_levels_ok:
  "enqueue_inv st x \<Longrightarrow> for_each_sched_entity st x = Some es \<Longrightarrow>
   (\<And>a. a \<in> set es \<Longrightarrow> cfs_nr_running (cfs_rqs st (cfs_rq_of st a)) \<noteq> - 1) \<Longrightarrow>
   \<exists>es' s y. enqueue_levels es flags st = Some (es', s) \<and> enqueue_inv s y \<and> for_each_sched_entity s y = Some es' \<and>
     (\<forall>e. y = Some e \<longrightarrow> se_on_rq (ses s e)) \<and> set es' \<subseteq> set es \<and>
     hier_view s = hier_view st \<and>
     (\<forall>e. se_on_rq (ses s e) \<longleftrightarrow> se_on_rq (ses st e) \<or> e \<in> set es - set es')"
proof (induction es arbitrary: x st flags)
  case Nil
  then show ?case by (intro exI [of _ "[]"] exI [of _ st] exI [of _ x]) (cases x, auto elim: walk_Cons)
next
  case (Cons e es)
  then obtain x0 where x0: "x = Some x0" by (cases x) (auto simp: for_each_sched_entity_def)
  then have x': "x = Some e" using Cons.prems(2) by (auto elim: walk_Cons)
  then have w: "for_each_sched_entity st (Some e) = Some (e # es)" using Cons.prems(2) by simp
  show ?case
  proof (cases "se_on_rq (ses st e)")
    case True
    then show ?thesis using Cons.prems x' by (intro exI [of _ "e # es"] exI [of _ st] exI [of _ x]) auto
  next
    case False
    define c where "c = cfs_rq_of st e"
    obtain s where s: "enqueue_entity c e flags st = Some s" "class_view s = class_view st"
        "members s = (members st)(c := insert e (members st c))" "enqueue_inv (upd_h_nr c 1 s) (parent_entity st e)"
      using enqueue_level [of st e c flags] Cons.prems(1,3) x' False c_def by auto
    let ?t = "upd_h_nr c 1 s"
    note f = class_view_eq [OF s(2)]
    have on: "se_on_rq (ses s a) \<longleftrightarrow> a = e \<or> se_on_rq (ses st a)" for a
      using s(3) f(1) by (auto simp: on_rq_members c_def cfs_rq_of_def)
    have wt: "for_each_sched_entity ?t (parent_entity st e) = Some es"
      using w links_cong(2) [of s st] f by (auto elim: walk_Cons)
    have ok: "sched_ok st" "sched_ok ?t" "links_ok st"
      using Cons.prems(1) s(4) by (simp_all add: enqueue_inv_def base_ok_def)
    have room: "cfs_nr_running (cfs_rqs ?t (cfs_rq_of ?t a)) \<noteq> - 1" if a: "a \<in> set es" for a
    proof -
      have "se_cfs_rq (ses st a) \<noteq> c" using ancestor_queue [OF ok(3) w a] by (simp add: c_def cfs_rq_of_def)
      then have "cfs_nr_running (cfs_rqs ?t (cfs_rq_of ?t a)) = cfs_nr_running (cfs_rqs st (cfs_rq_of st a))"
        using nr_running_card [OF ok(1)] nr_running_card [OF ok(2)] s(3) f(1) by (simp add: cfs_rq_of_def)
      then show ?thesis using Cons.prems(3) a by simp
    qed
    have e: "e \<notin> set es" using ancestor_queue [OF ok(3) w] by blast
    from Cons.IH [OF s(4) wt room, of ENQUEUE_WAKEUP]
    obtain es' t y where t: "enqueue_levels es ENQUEUE_WAKEUP ?t = Some (es', t)" "enqueue_inv t y"
        "for_each_sched_entity t y = Some es'" "\<forall>e. y = Some e \<longrightarrow> se_on_rq (ses t e)" "set es' \<subseteq> set es"
        "hier_view t = hier_view st"
        "\<forall>e. se_on_rq (ses t e) \<longleftrightarrow> se_on_rq (ses s e) \<or> e \<in> set es - set es'"
      using class_hier [OF s(2)] by auto
    have "enqueue_levels (e # es) flags st = Some (es', t)" using False s(1) t(1) by (simp add: c_def [symmetric] Let_def)
    moreover have "\<forall>a. se_on_rq (ses t a) \<longleftrightarrow> se_on_rq (ses st a) \<or> a \<in> set (e # es) - set es'"
      using t(5,7) on e by auto
    moreover have "set es' \<subseteq> set (e # es)" using t(5) by auto
    ultimately show ?thesis using t(2,3,4,6) by blast
  qed
qed

text \<open>The second loop of both functions: it moves the deviation of the counts up to the root.\<close>

definition refresh_inv :: "sched_state \<Rightarrow> nat option \<Rightarrow> u32 \<Rightarrow> bool" where
  "refresh_inv st x d \<longleftrightarrow> base_ok st \<and> chain_ok st \<and> groups_ok st None \<and> counts_ok st x d \<and>
     (\<forall>e. x = Some e \<longrightarrow> se_on_rq (ses st e))"

lemma refresh_inv_None: "refresh_inv st None d \<longleftrightarrow> class_ok st"
  by (simp add: refresh_inv_def class_ok_def counts_ok_def)

lemma refresh_level:
  assumes inv: "refresh_inv st (Some e) d" and c: "c = cfs_rq_of st e"
  defines "s \<equiv> update_entity_load_avg e True (update_cfs_shares c (upd_h_nr c d st))"
  shows "refresh_inv s (parent_entity st e) d" "hier_view s = hier_view st" "members s = members st"
proof -
  let ?t = "upd_h_nr c d st"
  have base: "base_ok st" and ok: "sched_ok st" and lk: "links_ok st" and w: "weights_ok st" and g: "groups_ok st None"
    using inv by (simp_all add: refresh_inv_def base_ok_def)
  have ce: "se_cfs_rq (ses st e) = c" using c by (simp add: cfs_rq_of_def)
  have par: "parent_entity st e = Some g \<longleftrightarrow> se_my_q (ses st g) = Some c" for g
    using links_parent [OF lk, of e g] ce by (simp add: parent_entity_def)
  have e: "e \<in> members st c" using inv ce by (simp add: refresh_inv_def members_def)
  have cnt: "counts_ok ?t (parent_entity st e) d"
  proof (rule counts_level [OF base])
    show "members ?t = (members st)(c := members st c)" by simp
    show "\<And>g. se_my_q (ses st g) = Some c \<Longrightarrow> g \<notin> members st c" using owner_not_member [OF base] .
    have eq: "cfs_h_nr_running (cfs_rqs st q) + (if q = c then d else 0) = (\<Sum>e\<in>members st q. tasks_below st e)" for q
    proof -
      have "e \<in> members st q \<longleftrightarrow> q = c" using e by (auto simp: members_def)
      moreover have "cfs_h_nr_running (cfs_rqs st q) + (if e \<in> members st q then d else 0) = (\<Sum>e\<in>members st q. tasks_below st e)"
        using inv by (simp add: refresh_inv_def counts_ok_def)
      ultimately show ?thesis by simp
    qed
    show "cfs_h_nr_running (cfs_rqs st c) + d = (\<Sum>e\<in>members st c. tasks_below st e)" using eq [of c] by simp
    show "cfs_h_nr_running (cfs_rqs st q) = (\<Sum>e\<in>members st q. tasks_below st e)" if "q \<noteq> c" for q using eq [of q] that by simp
  qed (use par finite_members [OF ok] in simp_all)
  have v: "class_view s = class_view ?t" by (simp add: s_def)
  have m: "members s = members ?t"
    using shape_cong(4) [OF shape_update_cfs_shares, of c ?t] shape_cong(4) [OF core_view_eq(16), of s "update_cfs_shares c ?t"]
    by (simp add: s_def)
  have ok': "sched_ok s"
    using sched_ok_shares [of ?t c] sched_ok_core [of s "update_cfs_shares c ?t"] sched_ok_core [OF upd_h_nr_core [of c d st]] ok
    by (simp add: s_def)
  have w': "weights_ok s" using w weights_shares [of ?t c] by (simp add: s_def)
  note fr = hier_frame [OF v m ok' w']
  show h: "hier_view s = hier_view st" "members s = members st" using class_hier [OF v] m by simp_all
  have "se_on_rq (ses s g)" if "parent_entity st e = Some g" for g
    using parent_queued(1) [OF lk g e, of g] that fr(6) by (simp add: parent_entity_def)
  then show "refresh_inv s (parent_entity st e) d"
    using fr(1-4) base inv cnt by (simp add: refresh_inv_def)
qed

lemma refresh_levels_ok:
  "refresh_inv st x d \<Longrightarrow> for_each_sched_entity st x = Some es \<Longrightarrow>
   class_ok (refresh_levels d es st) \<and> hier_view (refresh_levels d es st) = hier_view st \<and>
   members (refresh_levels d es st) = members st"
proof (induction es arbitrary: x st)
  case Nil
  then have "x = None" by (cases x) (auto elim: walk_Cons)
  then show ?case using Nil refresh_inv_None by simp
next
  case (Cons e es)
  then obtain x0 where x0: "x = Some x0" by (cases x) (auto simp: for_each_sched_entity_def)
  then have x: "x = Some e" using Cons.prems(2) by (auto elim: walk_Cons)
  let ?s = "update_entity_load_avg e True (update_cfs_shares (cfs_rq_of st e) (upd_h_nr (cfs_rq_of st e) d st))"
  note s = refresh_level [of st e d, OF _ refl]
  have "for_each_sched_entity ?s (parent_entity st e) = Some es"
    using Cons.prems x hier_view_eq(5) [OF s(2)] by (auto elim: walk_Cons)
  then show ?case using Cons.IH [OF s(1)] Cons.prems(1) x s(2,3) by (simp add: Let_def)
qed

lemma class_frame:
  assumes "class_view s = class_view st" "core_view s = core_view st" "class_ok st"
  shows "class_ok s" "hier_view s = hier_view st" "members s = members st"
proof -
  have b: "base_ok st" using assms(3) by (simp add: class_ok_def)
  have m: "members s = members st" using shape_cong(4) [OF core_view_eq(16) [OF assms(2)]] .
  have ok: "sched_ok s" "weights_ok s" using sched_ok_core [OF assms(2)] weights_cong [OF assms(2,1)] b by (simp_all add: base_ok_def)
  show "class_ok s" using hier_frame [OF assms(1) m ok] assms(3) by (simp add: class_ok_def)
  show "hier_view s = hier_view st" "members s = members st" using class_hier [OF assms(1)] m by simp_all
qed

lemma inc_dec_views [simp]:
  "class_view (inc_nr_running cpu st) = class_view st" "core_view (inc_nr_running cpu st) = core_view st"
  "class_view (dec_nr_running cpu st) = class_view st" "core_view (dec_nr_running cpu st) = core_view st"
  by (simp_all add: inc_nr_running_def dec_nr_running_def class_view_upd core_view_upd)

text \<open>No counter of a queue on the way up is at its maximum.\<close>

definition room_for :: "sched_state \<Rightarrow> nat \<Rightarrow> bool" where
  "room_for st p = (case for_each_sched_entity st (Some p) of None \<Rightarrow> False
     | Some es \<Rightarrow> list_all (\<lambda>a. cfs_nr_running (cfs_rqs st (cfs_rq_of st a)) \<noteq> - 1) es)"

lemma enqueue_task_fair_ok:
  assumes ok: "class_ok st" and p: "\<not> se_on_rq (ses st p)" "entity_is_task st p" "room_for st p"
  obtains es s where "for_each_sched_entity st (Some p) = Some es" "enqueue_task_fair cpu p flags st = Some s" "class_ok s"
    "hier_view s = hier_view st" "\<And>e. se_on_rq (ses s e) \<longleftrightarrow> se_on_rq (ses st e) \<or> e \<in> set es"
proof -
  have b: "base_ok st" "sched_ok st" "chain_ok st" "groups_ok st None" "counts_ok st None 0"
    using ok by (simp_all add: class_ok_def base_ok_def)
  obtain es where es: "for_each_sched_entity st (Some p) = Some es" using walk_total [OF b(2)] by blast
  have "enqueue_inv st (Some p)"
    using b p(1,2) by (auto simp: enqueue_inv_def groups_ok_def counts_ok_def members_def entity_is_task_def tasks_below_def)
  moreover have "cfs_nr_running (cfs_rqs st (cfs_rq_of st a)) \<noteq> - 1" if "a \<in> set es" for a
    using p(3) es that by (simp add: room_for_def list_all_iff)
  ultimately obtain es' s y where s: "enqueue_levels es flags st = Some (es', s)" "enqueue_inv s y"
      "for_each_sched_entity s y = Some es'" "\<forall>e. y = Some e \<longrightarrow> se_on_rq (ses s e)" "set es' \<subseteq> set es" "hier_view s = hier_view st"
      "\<forall>e. se_on_rq (ses s e) \<longleftrightarrow> se_on_rq (ses st e) \<or> e \<in> set es - set es'"
    using enqueue_levels_ok [OF _ es, of flags] by blast
  have g: "groups_ok s None"
    using s(2,4) unfolding enqueue_inv_def groups_ok_def by metis
  have r: "refresh_inv s y 1" using s(2,4) g by (simp add: refresh_inv_def enqueue_inv_def)
  let ?t = "refresh_levels 1 es' s"
  have t: "class_ok ?t" "hier_view ?t = hier_view s" "members ?t = members s" using refresh_levels_ok [OF r s(3)] by simp_all
  define u where "u = inc_nr_running cpu (update_rq_runnable_avg cpu (rq_nr_running (rqs ?t cpu) \<noteq> 0) ?t)"
  have u: "class_ok u" "hier_view u = hier_view ?t" "members u = members ?t"
    using class_frame [of u ?t] t(1) by (simp_all add: u_def)
  have up: "se_on_rq (ses s e)" if "e \<in> set es'" for e
    using walk_queued [of s, OF _ g] s(2-4) that by (cases y) (auto simp: enqueue_inv_def base_ok_def for_each_sched_entity_def)
  have h: "hier_view u = hier_view st" using u t s by simp
  have "se_on_rq (ses u e) \<longleftrightarrow> se_on_rq (ses s e)" for e
    using u(3) t(3) hier_view_eq(1) [OF u(2)] hier_view_eq(1) [OF t(2)] by (simp add: on_rq_members)
  then have "se_on_rq (ses u e) \<longleftrightarrow> se_on_rq (ses st e) \<or> e \<in> set es" for e using s(5,7) up by auto
  moreover have "enqueue_task_fair cpu p flags st = Some u" by (simp add: enqueue_task_fair_def es s(1) u_def Let_def)
  ultimately show thesis using that es u(1) h by blast
qed

subsection \<open>Marking buddies\<close>

text \<open>States that differ in buddies only, all of them queued where they are marked.\<close>

definition marked :: "sched_state \<Rightarrow> sched_state \<Rightarrow> bool" where
  "marked st s \<longleftrightarrow> ses s = ses st \<and> tgs s = tgs st \<and> rqs s = rqs st \<and> tasks s = tasks st \<and>
     (\<forall>d. no_buddies (cfs_rqs s d) = no_buddies (cfs_rqs st d)) \<and> (buddies_ok st \<longrightarrow> buddies_ok s)"

lemma marked_refl: "marked st st"
  by (simp add: marked_def)

lemma marked_trans: "marked st s \<Longrightarrow> marked s t \<Longrightarrow> marked st t"
  by (simp add: marked_def)

lemma marked_upd:
  assumes "e \<in> members st c"
  shows "marked st (upd_cfs c (\<lambda>q. q\<lparr>cfs_next := Some e\<rparr>) st)" "marked st (upd_cfs c (\<lambda>q. q\<lparr>cfs_last := Some e\<rparr>) st)"
    "marked st (upd_cfs c (\<lambda>q. q\<lparr>cfs_skip := Some e\<rparr>) st)"
  using assms by (simp_all add: marked_def no_buddies_def buddies_ok_def members_def)

lemma marked_levels:
  assumes "\<forall>a\<in>set es. se_on_rq (ses st a)"
  shows "marked st (mark_next es st)" "marked st (mark_last es st)" "marked st (mark_skip es st)"
proof -
  have m: "a \<in> members s (cfs_rq_of s a)" if "marked st s" "se_on_rq (ses st a)" for a s
    using that by (simp add: marked_def members_def cfs_rq_of_def)
  have "marked st s \<Longrightarrow> marked st (mark_next es s)" "marked st s \<Longrightarrow> marked st (mark_last es s)"
    "marked st s \<Longrightarrow> marked st (mark_skip es s)" for s
    using assms
    by (induction es arbitrary: s) (simp_all, metis m marked_trans marked_upd(1), metis m marked_trans marked_upd(2),
      metis m marked_trans marked_upd(3))
  then show "marked st (mark_next es st)" "marked st (mark_last es st)" "marked st (mark_skip es st)"
    using marked_refl by blast+
qed

lemma marked_class:
  assumes "marked st s"
  shows "class_view s = class_view st" "members s = members st" "weights_ok s = weights_ok st" "sched_ok st \<Longrightarrow> sched_ok s"
    "class_ok st \<Longrightarrow> class_ok s" "base_ok st \<Longrightarrow> base_ok s"
proof -
  have e: "ses s = ses st" "tgs s = tgs st" "rqs s = rqs st" "tasks s = tasks st" "buddies_ok st \<Longrightarrow> buddies_ok s" using assms by (simp_all add: marked_def)
  have q: "no_buddies (cfs_rqs s d) = no_buddies (cfs_rqs st d)" for d using assms by (simp add: marked_def)
  note f = no_buddies_sel(1-6)
  have c: "timeline_of (cfs_rqs s d) = timeline_of (cfs_rqs st d)" "cfs_curr (cfs_rqs s d) = cfs_curr (cfs_rqs st d)"
    "cfs_tg (cfs_rqs s d) = cfs_tg (cfs_rqs st d)" "cfs_rq_cpu (cfs_rqs s d) = cfs_rq_cpu (cfs_rqs st d)"
    "cfs_nr_running (cfs_rqs s d) = cfs_nr_running (cfs_rqs st d)" "cfs_load (cfs_rqs s d) = cfs_load (cfs_rqs st d)" for d
    by (metis q f(1), metis q f(2), metis q f(3), metis q f(4), metis q f(5), metis q f(6))
  have h: "cfs_h_nr_running (cfs_rqs s d) = cfs_h_nr_running (cfs_rqs st d)" for d
    using arg_cong [OF q [of d], of cfs_h_nr_running] by (simp add: no_buddies_def)
  show v: "class_view s = class_view st" by (simp add: class_view_def e c h)
  show m: "members s = members st" by (simp add: members_def e fun_eq_iff)
  show w: "weights_ok s = weights_ok st" by (simp add: weights_ok_def e)
  have qd: "queued s = queued st" "timeline_ok s = timeline_ok st" "running s = running st"
    by (simp_all add: queued_def timeline_ok_def running_def c e fun_eq_iff)
  have "timelines_ok s = timelines_ok st" by (simp add: timelines_ok_def m qd c e)
  moreover have "hier_ok s = hier_ok st" by (rule hier_cong) (simp_all add: e c)
  moreover have "acct_ok s (members s) = acct_ok st (members st)" unfolding m by (rule acct_fields) (simp_all add: e c)
  ultimately show ok: "sched_ok st \<Longrightarrow> sched_ok s" using e(5) by (simp add: sched_ok_def)
  show "class_ok st \<Longrightarrow> class_ok s" "base_ok st \<Longrightarrow> base_ok s"
    using hier_frame [OF v m ok] w by (simp_all add: class_ok_def base_ok_def)
qed

lemma set_buddy_ok:
  assumes "base_ok st" "groups_ok st None" "se_on_rq (ses st e)"
  shows "\<exists>s. set_next_buddy e st = Some s \<and> marked st s" "\<exists>s. set_last_buddy e st = Some s \<and> marked st s"
    "\<exists>s. set_skip_buddy e st = Some s \<and> marked st s"
proof -
  have b: "sched_ok st" "links_ok st" using assms(1) by (simp_all add: base_ok_def)
  obtain es where es: "for_each_sched_entity st (Some e) = Some es" using walk_total [OF b(1)] by blast
  have "\<forall>a\<in>set es. se_on_rq (ses st a)" using walk_queued [OF b(2) assms(2) es assms(3)] by blast
  note m = marked_levels [OF this]
  show "\<exists>s. set_next_buddy e st = Some s \<and> marked st s" "\<exists>s. set_last_buddy e st = Some s \<and> marked st s"
    "\<exists>s. set_skip_buddy e st = Some s \<and> marked st s"
    using m marked_refl by (simp_all add: set_next_buddy_def set_last_buddy_def set_skip_buddy_def es)
qed

subsection \<open>Dequeue of a task\<close>

definition dequeue_inv :: "sched_state \<Rightarrow> nat option \<Rightarrow> bool" where
  "dequeue_inv st x \<longleftrightarrow> base_ok st \<and> chain_ok st \<and> groups_ok st x \<and>
     (case x of None \<Rightarrow> counts_ok st None 0
      | Some e \<Rightarrow> se_on_rq (ses st e) \<and> counts_ok st x (tasks_below st e - 1) \<and>
          (\<forall>q. se_my_q (ses st e) = Some q \<longrightarrow> members st q = {}))"

lemma dequeue_level:
  assumes inv: "dequeue_inv st (Some e)" and c: "c = cfs_rq_of st e"
  obtains s where "dequeue_entity c e flags st = Some s" "class_view s = class_view st"
    "members s = (members st)(c := members st c - {e})" "base_ok s" "chain_ok s" "groups_ok s (parent_entity st e)"
    "counts_ok (upd_h_nr c (- 1) s) (parent_entity st e) (- 1)"
    "\<And>g. parent_entity st e = Some g \<Longrightarrow> se_my_q (ses st g) = Some c \<and> se_on_rq (ses s g)"
    "members s c = {} \<Longrightarrow> dequeue_inv (upd_h_nr c (- 1) s) (parent_entity st e)"
proof -
  have base: "base_ok st" and ok: "sched_ok st" and lk: "links_ok st" and w: "weights_ok st"
    and on_e: "se_on_rq (ses st e)" and grp: "groups_ok st (Some e)"
    using inv by (simp_all add: dequeue_inv_def base_ok_def)
  have ce: "se_cfs_rq (ses st e) = c" using c by (simp add: cfs_rq_of_def)
  have e: "e \<in> members st c" using on_e ce by (simp add: members_def)
  obtain s where s: "dequeue_entity c e flags st = Some s" "sched_ok s" "members s = (members st)(c := members st c - {e})"
    using dequeue_entity_ok [OF ok e] by blast
  have v: "class_view s = class_view st" using s(1) by (rule class_dequeue_entity)
  note f = class_view_eq [OF v]
  have par: "parent_entity st e = Some g \<longleftrightarrow> se_my_q (ses st g) = Some c" for g
    using links_parent [OF lk, of e g] ce by (simp add: parent_entity_def)
  have on: "se_on_rq (ses s x) \<longleftrightarrow> x \<noteq> e \<and> se_on_rq (ses st x)" for x
    using s(3) f(1) ce by (auto simp: on_rq_members)
  have fin: "finite (members st c)" using finite_members [OF ok] .
  have "card (members s q) < 4294967296" for q
    using base fin card_mono [of "members st c" "members st c - {e}"] s(3)
    by (auto simp: base_ok_def intro: le_less_trans)
  then have base': "base_ok s" "chain_ok s"
    using s lk w links_class [OF v] weights_dequeue_entity [OF s(1) w] inv by (simp_all add: base_ok_def dequeue_inv_def)
  have groups: "groups_ok s (parent_entity st e)"
    unfolding groups_ok_def
  proof (intro allI impI)
    fix g q assume g: "se_my_q (ses s g) = Some q \<and> parent_entity st e \<noteq> Some g"
    then have q: "q \<noteq> c" using par f by auto
    have "g \<noteq> e \<Longrightarrow> se_on_rq (ses st g) \<longleftrightarrow> members st q \<noteq> {}" "g = e \<Longrightarrow> members st q = {}"
      using inv g f by (simp_all add: dequeue_inv_def groups_ok_def)
    then show "se_on_rq (ses s g) \<longleftrightarrow> members s q \<noteq> {}" using q by (auto simp: on s(3))
  qed
  have old: "cfs_h_nr_running (cfs_rqs st q) + (if q = c then tasks_below st e - 1 else 0) = (\<Sum>x\<in>members st q. tasks_below st x)" for q
  proof -
    have "e \<in> members st q \<longleftrightarrow> q = c" using e by (auto simp: members_def)
    moreover have "cfs_h_nr_running (cfs_rqs st q) + (if e \<in> members st q then tasks_below st e - 1 else 0) =
        (\<Sum>x\<in>members st q. tasks_below st x)"
      using inv by (simp add: dequeue_inv_def counts_ok_def)
    ultimately show ?thesis by simp
  qed
  have cnt: "counts_ok (upd_h_nr c (- 1) s) (parent_entity st e) (- 1)"
  proof (rule counts_level [OF base])
    show "\<And>g. se_my_q (ses st g) = Some c \<Longrightarrow> g \<notin> members st c - {e}" using owner_not_member [OF base] by blast
    show "cfs_h_nr_running (cfs_rqs st q) = (\<Sum>e\<in>members st q. tasks_below st e)" if "q \<noteq> c" for q using old [of q] that by simp
    have "cfs_h_nr_running (cfs_rqs st c) + (tasks_below st e - 1) = tasks_below st e + (\<Sum>x\<in>members st c - {e}. tasks_below st x)"
      using old [of c] sum.remove [OF fin e, of "tasks_below st"] by simp
    then show "cfs_h_nr_running (cfs_rqs st c) + - 1 = (\<Sum>x\<in>members st c - {e}. tasks_below st x)"
      by (simp add: algebra_simps)
  qed (use s f par fin in simp_all)
  have up: "se_my_q (ses st g) = Some c \<and> se_on_rq (ses s g)" if "parent_entity st e = Some g" for g
  proof -
    have ge: "g \<noteq> e" using that no_self_parent [OF ok, of e] by (auto simp: parent_entity_def)
    have "se_on_rq (ses st g)" using parent_queued(1) [OF lk grp e, of g] that ge by (simp add: parent_entity_def)
    then show ?thesis using that par on ge by simp
  qed
  have "dequeue_inv (upd_h_nr c (- 1) s) (parent_entity st e)" if empty: "members s c = {}"
  proof (cases "parent_entity st e")
    case None
    then show ?thesis using base' groups cnt by (simp add: dequeue_inv_def counts_ok_def)
  next
    case (Some g)
    have "cfs_h_nr_running (cfs_rqs (upd_h_nr c (- 1) s) c) + (if \<exists>x. Some g = Some x \<and> x \<in> members s c then - 1 else 0) =
        (\<Sum>x\<in>members s c. tasks_below (upd_h_nr c (- 1) s) x)"
      using cnt Some unfolding counts_ok_def by (metis upd_h_nr_simps(10))
    then have "cfs_h_nr_running (cfs_rqs (upd_h_nr c (- 1) s) c) = 0" using empty by simp
    then have "tasks_below (upd_h_nr c (- 1) s) g = 0" using up [OF Some] f by (simp add: tasks_below_def)
    then show ?thesis using base' groups cnt up [OF Some] Some empty f by (simp add: dequeue_inv_def)
  qed
  with s v base' groups cnt up show thesis using that by blast
qed

lemma dequeue_levels_ok:
  "dequeue_inv st x \<Longrightarrow> for_each_sched_entity st x = Some es \<Longrightarrow>
   \<exists>es' s y. dequeue_levels ts es flags st = Some (es', s) \<and> refresh_inv s y (- 1) \<and> for_each_sched_entity s y = Some es' \<and>
     hier_view s = hier_view st \<and> set es' \<subseteq> set es \<and> (\<forall>e. x = Some e \<longrightarrow> e \<notin> set es') \<and>
     (\<forall>e. se_on_rq (ses s e) \<longleftrightarrow> se_on_rq (ses st e) \<and> e \<notin> set es - set es')"
proof (induction es arbitrary: x st flags)
  case Nil
  then have "x = None" by (cases x) (auto elim: walk_Cons)
  with Nil show ?case by (intro exI [of _ "[]"] exI [of _ st] exI [of _ None])
    (simp add: dequeue_inv_def refresh_inv_def counts_ok_def)
next
  case (Cons e es)
  then obtain x0 where x0: "x = Some x0" by (cases x) (auto simp: for_each_sched_entity_def)
  then have x: "x = Some e" using Cons.prems(2) by (auto elim: walk_Cons)
  then have w: "for_each_sched_entity st (Some e) = Some (e # es)" using Cons.prems(2) by simp
  define c where "c = cfs_rq_of st e"
  have inv: "dequeue_inv st (Some e)" using Cons.prems(1) x by simp
  obtain s where s: "dequeue_entity c e flags st = Some s" "class_view s = class_view st"
      "members s = (members st)(c := members st c - {e})" "base_ok s" "chain_ok s" "groups_ok s (parent_entity st e)"
      "counts_ok (upd_h_nr c (- 1) s) (parent_entity st e) (- 1)"
      "\<And>g. parent_entity st e = Some g \<Longrightarrow> se_my_q (ses st g) = Some c \<and> se_on_rq (ses s g)"
      "members s c = {} \<Longrightarrow> dequeue_inv (upd_h_nr c (- 1) s) (parent_entity st e)"
    using dequeue_level [OF inv c_def, of flags] by blast
  let ?t = "upd_h_nr c (- 1) s"
  have h: "hier_view ?t = hier_view st" using class_hier [OF s(2)] by simp
  note f = hier_view_eq [OF h]
  have on: "se_on_rq (ses ?t a) \<longleftrightarrow> a \<noteq> e \<and> se_on_rq (ses st a)" for a
    using s(3) class_view_eq(1) [OF s(2)] by (auto simp: on_rq_members c_def cfs_rq_of_def)
  have wt: "for_each_sched_entity ?t (parent_entity st e) = Some es" using w f(5) by (auto elim: walk_Cons)
  have lk: "links_ok st" using inv by (simp add: dequeue_inv_def base_ok_def)
  have e: "e \<notin> set es" using ancestor_queue [OF lk w] by blast
  have load: "weight (cfs_load (cfs_rqs ?t c)) = 0 \<longleftrightarrow> members s c = {}"
    using load_zero_iff [of s c] s(4) by (simp add: base_ok_def)
  have pe: "parent_entity ?t e = parent_entity st e" using f(2) by (simp add: parent_entity_def)
  show ?case
  proof (cases "members s c = {}")
    case True
    from Cons.IH [OF s(9) [OF True] wt, of "flags OR DEQUEUE_SLEEP"]
    obtain es' t y where t: "dequeue_levels ts es (flags OR DEQUEUE_SLEEP) ?t = Some (es', t)" "refresh_inv t y (- 1)"
        "for_each_sched_entity t y = Some es'" "hier_view t = hier_view ?t"
        "\<forall>e. se_on_rq (ses t e) \<longleftrightarrow> se_on_rq (ses ?t e) \<and> e \<notin> set es - set es'" "set es' \<subseteq> set es"
      by blast
    have "dequeue_levels ts (e # es) flags st = Some (es', t)" using s(1) t(1) load True by (simp add: c_def [symmetric] Let_def)
    moreover have "e \<notin> set es'" "set es' \<subseteq> set (e # es)" using e t(6) by auto
    moreover have "\<forall>a. se_on_rq (ses t a) \<longleftrightarrow> se_on_rq (ses st a) \<and> a \<notin> set (e # es) - set es'"
      using t(5,6) on e by auto
    moreover have "hier_view t = hier_view st" using t(4) h by simp
    ultimately show ?thesis using t(2,3) x by blast
  next
    case False
    have g: "groups_ok ?t None"
      using s(3,6,8) False f(3) unfolding groups_ok_def upd_h_nr_simps by (metis option.inject)
    have r: "refresh_inv ?t (parent_entity st e) (- 1)" using s(4,5,7,8) g by (simp add: refresh_inv_def)
    obtain u where u: "(case parent_entity ?t e of Some pse \<Rightarrow> if ts then set_next_buddy pse ?t else Some ?t | None \<Rightarrow> Some ?t) = Some u"
        "marked ?t u"
    proof (cases "parent_entity st e")
      case None
      then show thesis using that marked_refl pe by simp
    next
      case (Some pse)
      then obtain u where "set_next_buddy pse ?t = Some u" "marked ?t u"
        using set_buddy_ok(1) [of ?t pse] g s(4,8) by auto
      then show thesis using that marked_refl pe Some by (cases ts) auto
    qed
    note mu = marked_class [OF u(2)]
    have fu: "refresh_inv u (parent_entity st e) (- 1)" "hier_view u = hier_view ?t" "\<And>a. se_on_rq (ses u a) = se_on_rq (ses ?t a)"
      using hier_frame [OF mu(1,2) mu(4)] mu(3,6) r class_hier [OF mu(1)] by (auto simp: refresh_inv_def base_ok_def)
    have "dequeue_levels ts (e # es) flags st = Some (es, u)" using s(1) load False u(1) by (simp add: c_def [symmetric] Let_def)
    moreover have "for_each_sched_entity u (parent_entity st e) = Some es" using wt hier_view_eq(5) [OF fu(2)] by simp
    moreover have "\<forall>a. se_on_rq (ses u a) \<longleftrightarrow> se_on_rq (ses st a) \<and> a \<notin> set (e # es) - set es" using fu(3) on e by auto
    moreover have "hier_view u = hier_view st" using fu(2) h by simp
    moreover have "set es \<subseteq> set (e # es)" by auto
    ultimately show ?thesis using fu(1) x e by blast
  qed
qed

lemma dequeue_task_fair_ok:
  assumes ok: "class_ok st" and p: "se_on_rq (ses st p)" "entity_is_task st p"
  obtains es s where "for_each_sched_entity st (Some p) = Some es" "dequeue_task_fair cpu p flags st = Some s" "class_ok s"
    "hier_view s = hier_view st" "\<not> se_on_rq (ses s p)" "\<And>e. e \<notin> set es \<Longrightarrow> se_on_rq (ses s e) \<longleftrightarrow> se_on_rq (ses st e)"
    "\<And>e. se_on_rq (ses s e) \<Longrightarrow> se_on_rq (ses st e)"
proof -
  have b: "base_ok st" "sched_ok st" "chain_ok st" "groups_ok st None" "counts_ok st None 0"
    using ok by (simp_all add: class_ok_def base_ok_def)
  obtain es where es: "for_each_sched_entity st (Some p) = Some es" using walk_total [OF b(2)] by blast
  have "dequeue_inv st (Some p)"
    using b p by (auto simp: dequeue_inv_def groups_ok_def counts_ok_def entity_is_task_def tasks_below_def)
  then obtain es' s y where s: "dequeue_levels (flags AND DEQUEUE_SLEEP \<noteq> 0) es flags st = Some (es', s)" "refresh_inv s y (- 1)"
      "for_each_sched_entity s y = Some es'" "hier_view s = hier_view st" "p \<notin> set es'"
      "\<forall>e. se_on_rq (ses s e) \<longleftrightarrow> se_on_rq (ses st e) \<and> e \<notin> set es - set es'"
    using dequeue_levels_ok [OF _ es, of "flags AND DEQUEUE_SLEEP \<noteq> 0" flags] by blast
  let ?t = "refresh_levels (- 1) es' s"
  have t: "class_ok ?t" "hier_view ?t = hier_view s" "members ?t = members s" using refresh_levels_ok [OF s(2,3)] by simp_all
  define u where "u = update_rq_runnable_avg cpu True (dec_nr_running cpu ?t)"
  have u: "class_ok u" "hier_view u = hier_view ?t" "members u = members ?t"
    using class_frame [of u ?t] t(1) by (simp_all add: u_def)
  have on: "se_on_rq (ses u e) \<longleftrightarrow> se_on_rq (ses s e)" for e
    using u(3) t(3) hier_view_eq(1) [OF u(2)] hier_view_eq(1) [OF t(2)] by (simp add: on_rq_members)
  have "p \<in> set es" using es by (auto elim: walk_Cons)
  moreover have "dequeue_task_fair cpu p flags st = Some u" by (simp add: dequeue_task_fair_def es s(1) u_def Let_def)
  moreover have "hier_view u = hier_view st" using u t s by simp
  ultimately show thesis using that es u(1) on s(5,6) by auto
qed

end
