(* ===== verification/CFS_Task_Pick.thy ===== *)
theory CFS_Task_Pick
  imports CFS_Task_Queue
begin

text \<open>
  The methods that choose, charge and compare the running task keep the invariant of the hierarchy:
  picking the next task, putting the previous one back, the tick, preemption checks and yielding.  The last
  part is about tasks that are not queued, whose CPU or group may change.
\<close>

subsection \<open>Picking, putting back and the tick\<close>

lemma weights_stats [simp]:
  "weights_ok (upd_stats se f st) = weights_ok st" "weights_ok (update_stats_wait_start c se st) = weights_ok st"
  "weights_ok (update_stats_wait_end c se st) = weights_ok st" "weights_ok (update_stats_curr_start c se st) = weights_ok st"
  by (rule weights_cong; simp)+

lemma weights_set_next_entity: "set_next_entity c se st = Some s \<Longrightarrow> weights_ok st \<Longrightarrow> weights_ok s"
  by (auto simp: set_next_entity_def Let_def split: bind_splits if_splits dest!: weights_tree)

lemma weights_put_prev_entity: "put_prev_entity c se st = Some s \<Longrightarrow> weights_ok st \<Longrightarrow> weights_ok s"
  by (auto simp: put_prev_entity_def Let_def split: bind_splits if_splits dest!: weights_tree)

lemma weights_wakeup_preempt [simp]: "weights_ok (snd (wakeup_preempt_entity a b st)) = weights_ok st"
  by (rule weights_cong) simp_all

lemma weights_prefer_buddy [simp]: "weights_ok (snd (prefer_buddy cand left p)) = weights_ok (snd p)"
  by (simp add: prefer_buddy_def case_prod_beta split: option.split)

lemma weights_pick_next_entity: "pick_next_entity c st = Some (se, s) \<Longrightarrow> weights_ok st \<Longrightarrow> weights_ok s"
  by (auto simp: pick_next_entity_def Let_def case_prod_beta split: bind_splits if_splits dest!: weights_clear_buddies)

lemma weights_sched_slice: "sched_slice c se st = Some (x, s) \<Longrightarrow> weights_ok s = weights_ok st"
  by (intro weights_cong core_sched_slice class_sched_slice)

lemma weights_entity_tick:
  assumes "entity_tick c cur st = Some s" "weights_ok st"
  shows "weights_ok s"
proof -
  have "check_preempt_tick c cur t = Some s \<Longrightarrow> weights_ok t \<Longrightarrow> weights_ok s" for t
    by (auto simp: check_preempt_tick_def Let_def split: bind_splits if_splits
      dest!: weights_clear_buddies weights_sched_slice)
  then show ?thesis using assms weights_shares
    by (fastforce simp: entity_tick_def Let_def split: if_splits)
qed

text \<open>A change of the running entity of one queue.  The invariant apart from the chain of running entities,
  and the chain apart from one entity, which \<open>set_curr_task_fair\<close> has not reached yet.\<close>

definition queues_ok :: "sched_state \<Rightarrow> bool" where
  "queues_ok st \<longleftrightarrow> base_ok st \<and> groups_ok st None \<and> counts_ok st None 0"

definition chain_but :: "sched_state \<Rightarrow> nat option \<Rightarrow> bool" where
  "chain_but st x \<longleftrightarrow> (\<forall>g q. se_my_q (ses st g) = Some q \<and> cfs_curr (cfs_rqs st q) \<noteq> None \<and> x \<noteq> Some g \<longrightarrow>
     cfs_curr (cfs_rqs st (se_cfs_rq (ses st g))) = Some g)"

lemma class_queues: "class_ok st \<longleftrightarrow> queues_ok st \<and> chain_but st None"
  by (auto simp: class_ok_def queues_ok_def chain_but_def chain_ok_def)

lemma switch_queues:
  assumes ok: "queues_ok st" and v: "class_view s = class_view (upd_cfs c (\<lambda>q. q\<lparr>cfs_curr := x\<rparr>) st)"
    and s: "sched_ok s" "members s = members st" "weights_ok s"
  shows "queues_ok s" "link_view s = link_view st" "\<And>d. cfs_curr (cfs_rqs s d) = (if d = c then x else cfs_curr (cfs_rqs st d))"
proof -
  note f = class_view_eq [OF v]
  have m: "se_cfs_rq (ses s e) = se_cfs_rq (ses st e)" "se_parent (ses s e) = se_parent (ses st e)"
    "se_my_q (ses s e) = se_my_q (ses st e)" "cfs_h_nr_running (cfs_rqs s d) = cfs_h_nr_running (cfs_rqs st d)" for e d
    using f by simp_all
  show l: "link_view s = link_view st" using f by (simp add: link_view_def fun_eq_iff)
  show "\<And>d. cfs_curr (cfs_rqs s d) = (if d = c then x else cfs_curr (cfs_rqs st d))"
    using f by simp_all
  have "base_ok s" using ok s link_view_eq(5) [OF l] by (simp add: queues_ok_def base_ok_def)
  moreover have on: "se_on_rq (ses s e) = se_on_rq (ses st e)" for e using s(2) m(1) by (simp add: on_rq_members)
  moreover have "tasks_below s e = tasks_below st e" for e by (simp add: tasks_below_def m split: option.split)
  ultimately show "queues_ok s" using ok s(2) m by (simp add: queues_ok_def groups_ok_def counts_ok_def)
qed

lemma switch_level:
  assumes ok: "class_ok st" and v: "class_view s = class_view (upd_cfs c (\<lambda>q. q\<lparr>cfs_curr := x\<rparr>) st)"
    and s: "sched_ok s" "members s = members st" "weights_ok s"
    and chain: "chain_ok s"
  shows "class_ok s" "link_view s = link_view st" "\<And>d. cfs_curr (cfs_rqs s d) = (if d = c then x else cfs_curr (cfs_rqs st d))"
proof -
  have q: "queues_ok st" using ok by (simp add: class_queues)
  show "class_ok s" using switch_queues(1) [OF q v s] chain by (simp add: class_ok_def queues_ok_def)
  show "link_view s = link_view st" "\<And>d. cfs_curr (cfs_rqs s d) = (if d = c then x else cfs_curr (cfs_rqs st d))"
    by (rule switch_queues(2,3) [OF q v s])+
qed

lemma set_next_level:
  assumes ok: "class_ok st" and none: "cfs_curr (cfs_rqs st c) = None" and q: "se \<in> set (queued st c)"
    and own: "\<And>g. se_my_q (ses st g) = Some c \<Longrightarrow> cfs_curr (cfs_rqs st (se_cfs_rq (ses st g))) = Some g"
  obtains s where "set_next_entity c se st = Some s" "class_ok s" "members s = members st" "link_view s = link_view st"
    "\<And>d. cfs_curr (cfs_rqs s d) = (if d = c then Some se else cfs_curr (cfs_rqs st d))"
proof -
  have b: "base_ok st" "sched_ok st" "links_ok st" "weights_ok st" "chain_ok st" using ok by (simp_all add: class_ok_def base_ok_def)
  obtain s where s: "set_next_entity c se st = Some s" "sched_ok s" "members s = members st"
    using set_next_entity_ok [OF b(2) none q] by blast
  note v = class_set_next_entity [OF s(1)]
  note f = class_view_eq [OF v]
  have nr: "se_cfs_rq (ses st g) \<noteq> c" if "se_my_q (ses st g) = Some c" for g
    using that no_self_parent [OF b(2), of g] links_parent [OF b(3), of g g] by auto
  have "chain_ok s"
    unfolding chain_ok_def
  proof (intro allI impI)
    fix g q assume a: "se_my_q (ses s g) = Some q \<and> cfs_curr (cfs_rqs s q) \<noteq> None"
    then have "cfs_curr (cfs_rqs st (se_cfs_rq (ses st g))) = Some g"
      using own b(5) f(3,4) by (cases "q = c") (auto simp: chain_ok_def)
    moreover have "se_cfs_rq (ses st g) \<noteq> c" using nr calculation none by auto
    ultimately show "cfs_curr (cfs_rqs s (se_cfs_rq (ses s g))) = Some g" using f(1,4) by simp
  qed
  note sw = switch_level [OF ok v s(2,3) weights_set_next_entity [OF s(1) b(4)] this]
  show thesis by (rule that [OF s(1) sw(1) s(3) sw(2,3)])
qed

lemma put_prev_level:
  assumes ok: "class_ok st" and cur: "cfs_curr (cfs_rqs st c) = Some e"
    and below: "\<And>q. se_my_q (ses st e) = Some q \<Longrightarrow> cfs_curr (cfs_rqs st q) = None"
  obtains s where "put_prev_entity c e st = Some s" "class_ok s" "members s = members st" "link_view s = link_view st"
    "\<And>d. cfs_curr (cfs_rqs s d) = (if d = c then None else cfs_curr (cfs_rqs st d))"
proof -
  have b: "base_ok st" "sched_ok st" "links_ok st" "weights_ok st" "chain_ok st" using ok by (simp_all add: class_ok_def base_ok_def)
  obtain s where s: "put_prev_entity c e st = Some s" "sched_ok s" "members s = members st"
    using put_prev_entity_ok [OF b(2) cur] by blast
  note v = class_put_prev_entity [OF s(1)]
  note f = class_view_eq [OF v]
  have "chain_ok s"
    unfolding chain_ok_def
  proof (intro allI impI)
    fix g q assume a: "se_my_q (ses s g) = Some q \<and> cfs_curr (cfs_rqs s q) \<noteq> None"
    then have q: "q \<noteq> c" "se_my_q (ses st g) = Some q" "cfs_curr (cfs_rqs st q) \<noteq> None" using f(3,4) by (auto split: if_splits)
    then have g: "cfs_curr (cfs_rqs st (se_cfs_rq (ses st g))) = Some g" using b(5) by (auto simp: chain_ok_def)
    moreover have "se_cfs_rq (ses st g) \<noteq> c" using g q below cur by auto
    ultimately show "cfs_curr (cfs_rqs s (se_cfs_rq (ses s g))) = Some g" using f(1,4) by simp
  qed
  note sw = switch_level [OF ok v s(2,3) weights_put_prev_entity [OF s(1) b(4)] this]
  show thesis by (rule that [OF s(1) sw(1) s(3) sw(2,3)])
qed

text \<open>The levels below a queue: two entities of a queue are equally deep, and the entities of the queue
  of a group are one level below it.\<close>

lemma same_depth:
  assumes "links_ok st" "se_cfs_rq (ses st a) = se_cfs_rq (ses st b)"
    "for_each_sched_entity st (Some a) = Some as" "for_each_sched_entity st (Some b) = Some bs"
  shows "length as = length bs"
proof -
  have "\<And>g. se_parent (ses st a) = Some g \<longleftrightarrow> se_parent (ses st b) = Some g" using assms(1,2) by (simp add: links_parent)
  then have "parent_entity st a = parent_entity st b" unfolding parent_entity_def by (metis not_None_eq)
  then show ?thesis using assms(3,4) by (auto elim!: walk_Cons)
qed

lemma walk_parent:
  assumes "for_each_sched_entity st (Some e) = Some es" "a \<in> set es" "parent_entity st a = Some g"
  shows "g \<in> set es"
proof -
  obtain n where n: "n < length es" "a = es ! n" using assms(2) by (auto simp: in_set_conv_nth)
  then have "ancestors (parent_entity st) (Some a) = Some (drop n es)"
    using assms(1) ancestors_drop by (simp add: for_each_sched_entity_def)
  then have "g \<in> set (drop n es)" using assms(3) by (auto elim!: ancestors_Cons)
  then show ?thesis by (rule in_set_dropD)
qed

lemma pick_levels_ok:
  assumes D: "\<forall>e es. for_each_sched_entity st (Some e) = Some es \<longrightarrow> length es \<le> D"
  shows "class_ok st \<Longrightarrow> cfs_curr (cfs_rqs st c) = None \<Longrightarrow> e \<in> members st c \<Longrightarrow>
    for_each_sched_entity st (Some e) = Some es \<Longrightarrow> n = D - length es \<Longrightarrow>
    (\<forall>g. se_my_q (ses st g) = Some c \<longrightarrow> cfs_curr (cfs_rqs st (se_cfs_rq (ses st g))) = Some g) \<Longrightarrow>
    \<exists>p s ps. pick_levels c st = Some (p, s) \<and> class_ok s \<and> members s = members st \<and> link_view s = link_view st \<and>
      entity_is_task s p \<and> se_on_rq (ses s p) \<and> cfs_curr (cfs_rqs s (se_cfs_rq (ses s p))) = Some p \<and>
      for_each_sched_entity st (Some p) = Some ps \<and> (\<exists>a\<in>set ps. se_cfs_rq (ses st a) = c)"
  using D
proof (induction n arbitrary: st c e es rule: less_induct)
  case (less n)
  note ok = less.prems(1)
  have b: "base_ok st" "sched_ok st" "links_ok st" "weights_ok st" "chain_ok st" "groups_ok st None"
    using ok by (simp_all add: class_ok_def base_ok_def)
  obtain se s1 where p: "pick_next_entity c st = Some (se, s1)" "sched_ok s1" "members s1 = members st"
      "queued s1 = queued st" "cfs_curr (cfs_rqs s1 c) = None" "se \<in> set (queued st c)"
    using pick_next_entity_ok [OF b(2) less.prems(2)] less.prems(3) by blast
  have v1: "class_view s1 = class_view st" using p(1) by (rule class_pick_next_entity)
  have fr: "class_ok s1" using hier_frame [OF v1 p(3) p(2) weights_pick_next_entity [OF p(1) b(4)]] ok by (simp add: class_ok_def)
  note f1 = class_view_eq [OF v1]
  have own: "\<And>g. se_my_q (ses s1 g) = Some c \<Longrightarrow> cfs_curr (cfs_rqs s1 (se_cfs_rq (ses s1 g))) = Some g"
    using less.prems(6) f1 by simp
  obtain s where s: "set_next_entity c se s1 = Some s" "class_ok s" "members s = members s1" "link_view s = link_view s1"
      "\<And>d. cfs_curr (cfs_rqs s d) = (if d = c then Some se else cfs_curr (cfs_rqs s1 d))"
    using set_next_level [OF fr p(5) _ own, of se] p(4,6) by auto
  have l: "link_view s = link_view st" using s(4) f1 by (simp add: link_view_def)
  note fl = link_view_eq [OF l]
  have se: "se \<in> members st c" using sched_ok_members [OF b(2), of c] p(6) by simp
  then have sc: "se_cfs_rq (ses st se) = c" "se_on_rq (ses st se)" by (simp_all add: members_def)
  have m: "members s = members st" using s(3) p(3) by simp
  have on: "se_on_rq (ses s x) = se_on_rq (ses st x)" for x using m fl(1) by (simp add: on_rq_members)
  obtain ps where ps: "for_each_sched_entity st (Some se) = Some ps" using walk_total [OF b(2)] by blast
  have len: "length ps = length es" using same_depth [OF b(3) _ ps less.prems(4)] sc less.prems(3) by (simp add: members_def)
  show ?case
  proof (cases "se_my_q (ses st se)")
    case None
    have "pick_levels c st = Some (se, s)"
      using None fl(3) by (subst pick_levels.simps) (simp add: p(1) s(1) group_cfs_rq_def)
    then show ?thesis using s(2) m l None fl sc s(5) on ps
      by (intro exI [of _ se] exI [of _ s] exI [of _ ps]) (auto simp: entity_is_task_def elim: walk_Cons)
  next
    case (Some q)
    then have "members st q \<noteq> {}" using b(6) sc(2) by (auto simp: groups_ok_def)
    then obtain e' where e': "e' \<in> members st q" by blast
    have pe: "se_parent (ses st e') = Some se" using links_parent [OF b(3), of e' se] Some e' by (simp add: members_def)
    then have w': "for_each_sched_entity s (Some e') = Some (e' # ps)"
      using ps fl(4) by (simp add: for_each_sched_entity_def ancestors_Some parent_entity_def)
    have qc: "q \<noteq> c" using owner_not_member [OF b(1) Some] se by auto
    have cq: "cfs_curr (cfs_rqs s q) = None"
    proof -
      have "cfs_curr (cfs_rqs st q) = None" using b(5) Some sc(1) less.prems(2) unfolding chain_ok_def by (metis option.distinct(1))
      then show ?thesis using s(5) [of q] qc f1(4) by simp
    qed
    have Ds: "\<forall>e es. for_each_sched_entity s (Some e) = Some es \<longrightarrow> length es \<le> D" using less.prems(7) fl(4) by simp
    have "length (e' # ps) \<le> D" using Ds w' by blast
    then have lt: "D - length (e' # ps) < n" using len less.prems(5) by simp
    have own': "\<forall>g. se_my_q (ses s g) = Some q \<longrightarrow> cfs_curr (cfs_rqs s (se_cfs_rq (ses s g))) = Some g"
      using links_owner [OF b(3) _ Some] fl sc s(5) by auto
    have em: "e' \<in> members s q" using e' m by simp
    obtain p' t ts where t: "pick_levels q s = Some (p', t)" "class_ok t" "members t = members s" "link_view t = link_view s"
        "entity_is_task t p'" "se_on_rq (ses t p')" "cfs_curr (cfs_rqs t (se_cfs_rq (ses t p'))) = Some p'"
        "for_each_sched_entity s (Some p') = Some ts" "\<exists>a\<in>set ts. se_cfs_rq (ses s a) = q"
      using less.IH [OF lt s(2) cq em w' refl own' Ds] by blast
    have "pick_levels c st = Some (p', t)"
      using Some fl(3) t(1) by (subst pick_levels.simps) (simp add: p(1) s(1) group_cfs_rq_def)
    moreover have "\<exists>a\<in>set ts. se_cfs_rq (ses st a) = c"
    proof -
      obtain a where a: "a \<in> set ts" "se_cfs_rq (ses s a) = q" using t(9) by blast
      then have "parent_entity s a = Some se" using links_parent [OF b(3), of a se] Some fl by (simp add: parent_entity_def)
      then show ?thesis using walk_parent [OF t(8) a(1)] sc(1) by blast
    qed
    ultimately show ?thesis using t m l fl(4) by (intro exI [of _ p'] exI [of _ t] exI [of _ ts]) simp
  qed
qed

text \<open>The wiring of the groups: a root queue has no owner, and the entity of a task group on a CPU owns
  the queue of the group there.  A queue belongs to the CPU of the entity that owns it, and an entity
  without a parent is on the root queue of its CPU.\<close>

definition entity_cpu :: "sched_state \<Rightarrow> nat \<Rightarrow> nat" where
  "entity_cpu st e = cfs_rq_cpu (cfs_rqs st (se_cfs_rq (ses st e)))"

definition wiring_ok :: "sched_state \<Rightarrow> bool" where
  "wiring_ok st \<longleftrightarrow> (\<forall>cpu g. se_my_q (ses st g) \<noteq> Some (rq_cfs (rqs st cpu))) \<and>
     (\<forall>t cpu g. tg_se (tgs st t) cpu = Some g \<longleftrightarrow> se_my_q (ses st g) = Some (tg_cfs_rq (tgs st t) cpu)) \<and>
     (\<forall>t cpu. tg_se (tgs st t) cpu = None \<longrightarrow> tg_cfs_rq (tgs st t) cpu = rq_cfs (rqs st cpu)) \<and>
     (\<forall>t cpu. cfs_rq_cpu (cfs_rqs st (tg_cfs_rq (tgs st t) cpu)) = cpu) \<and>
     (\<forall>e. se_parent (ses st e) = None \<longrightarrow> se_cfs_rq (ses st e) = rq_cfs (rqs st (entity_cpu st e))) \<and>
     (\<forall>g q. se_my_q (ses st g) = Some q \<longrightarrow> cfs_rq_cpu (cfs_rqs st q) = entity_cpu st g)"

lemma wiring_link: "link_view s = link_view st \<Longrightarrow> wiring_ok s = wiring_ok st"
  using link_view_eq [of s st] by (simp add: wiring_ok_def entity_cpu_def)

lemma pick_next_task_fair_ok:
  assumes ok: "class_ok st" "wiring_ok st" and none: "cfs_curr (cfs_rqs st (rq_cfs (rqs st cpu))) = None"
    and nr: "cfs_nr_running (cfs_rqs st (rq_cfs (rqs st cpu))) \<noteq> 0"
  obtains p s ps where "pick_next_task_fair cpu st = Some (Some p, s)" "class_ok s" "members s = members st" "link_view s = link_view st"
    "entity_is_task s p" "se_on_rq (ses s p)" "cfs_curr (cfs_rqs s (se_cfs_rq (ses s p))) = Some p"
    "for_each_sched_entity st (Some p) = Some ps" "\<exists>a\<in>set ps. se_cfs_rq (ses st a) = rq_cfs (rqs st cpu)"
proof -
  let ?c = "rq_cfs (rqs st cpu)"
  have b: "sched_ok st" "links_ok st" using ok(1) by (simp_all add: class_ok_def base_ok_def)
  obtain e where e: "e \<in> members st ?c" using nr_running_members [OF b(1) nr] by blast
  obtain es where es: "for_each_sched_entity st (Some e) = Some es" using walk_total [OF b(1)] by blast
  obtain D where D: "\<forall>e es. for_each_sched_entity st (Some e) = Some es \<longrightarrow> length es \<le> D" using b(2) by (auto simp: links_ok_def)
  have "\<forall>g. se_my_q (ses st g) = Some ?c \<longrightarrow> cfs_curr (cfs_rqs st (se_cfs_rq (ses st g))) = Some g"
    using ok(2) by (auto simp: wiring_ok_def)
  from pick_levels_ok [OF D ok(1) none e es refl this]
  obtain p s ps where "pick_levels ?c st = Some (p, s)" "class_ok s" "members s = members st" "link_view s = link_view st"
      "entity_is_task s p" "se_on_rq (ses s p)" "cfs_curr (cfs_rqs s (se_cfs_rq (ses s p))) = Some p"
      "for_each_sched_entity st (Some p) = Some ps" "\<exists>a\<in>set ps. se_cfs_rq (ses st a) = ?c" by blast
  then show thesis using that nr by (simp add: pick_next_task_fair_def task_of_def)
qed

text \<open>The running entity and all its ancestors are running.\<close>

lemma chain_up:
  assumes "links_ok st" "chain_ok st" "cfs_curr (cfs_rqs st (se_cfs_rq (ses st e))) = Some e" "parent_entity st e = Some g"
  shows "cfs_curr (cfs_rqs st (se_cfs_rq (ses st g))) = Some g" "se_my_q (ses st g) = Some (se_cfs_rq (ses st e))"
proof -
  show "se_my_q (ses st g) = Some (se_cfs_rq (ses st e))" using links_parent [OF assms(1)] assms(4) by (simp add: parent_entity_def)
  then show "cfs_curr (cfs_rqs st (se_cfs_rq (ses st g))) = Some g" using assms(2,3) unfolding chain_ok_def by (metis option.distinct(1))
qed

lemma put_prev_levels_ok:
  "class_ok st \<Longrightarrow> for_each_sched_entity st x = Some es \<Longrightarrow>
   (\<forall>e. x = Some e \<longrightarrow> cfs_curr (cfs_rqs st (se_cfs_rq (ses st e))) = Some e \<and>
      (\<forall>q. se_my_q (ses st e) = Some q \<longrightarrow> cfs_curr (cfs_rqs st q) = None)) \<Longrightarrow>
   \<exists>s. put_prev_levels es st = Some s \<and> class_ok s \<and> members s = members st \<and> link_view s = link_view st \<and>
     (\<forall>d. cfs_curr (cfs_rqs s d) = (if \<exists>a\<in>set es. se_cfs_rq (ses st a) = d then None else cfs_curr (cfs_rqs st d)))"
proof (induction es arbitrary: x st)
  case (Cons e es)
  then obtain x0 where x0: "x = Some x0" by (cases x) (auto simp: for_each_sched_entity_def)
  then have x: "x = Some e" using Cons.prems(2) by (auto elim: walk_Cons)
  then have w: "for_each_sched_entity st (Some e) = Some (e # es)" using Cons.prems(2) by simp
  let ?c = "se_cfs_rq (ses st e)"
  have b: "links_ok st" "chain_ok st" "sched_ok st" using Cons.prems(1) by (simp_all add: class_ok_def base_ok_def)
  obtain s where s: "put_prev_entity ?c e st = Some s" "class_ok s" "members s = members st" "link_view s = link_view st"
      "\<And>d. cfs_curr (cfs_rqs s d) = (if d = ?c then None else cfs_curr (cfs_rqs st d))"
    using put_prev_level [OF Cons.prems(1), of ?c e] Cons.prems(3) x by blast
  note f = link_view_eq [OF s(4)]
  have wt: "for_each_sched_entity s (parent_entity st e) = Some es" using w f(4) by (auto elim: walk_Cons)
  have up: "\<forall>g. parent_entity st e = Some g \<longrightarrow> cfs_curr (cfs_rqs s (se_cfs_rq (ses s g))) = Some g \<and>
      (\<forall>q. se_my_q (ses s g) = Some q \<longrightarrow> cfs_curr (cfs_rqs s q) = None)"
  proof (intro allI impI)
    fix g assume g: "parent_entity st e = Some g"
    note u = chain_up [OF b(1,2) _ g]
    have "cfs_curr (cfs_rqs st ?c) = Some e" using Cons.prems(3) x by simp
    moreover have "se_cfs_rq (ses st g) \<noteq> ?c" using ancestor_queue [OF b(1) w] wt g by (auto elim: walk_Cons)
    ultimately show "cfs_curr (cfs_rqs s (se_cfs_rq (ses s g))) = Some g \<and>
      (\<forall>q. se_my_q (ses s g) = Some q \<longrightarrow> cfs_curr (cfs_rqs s q) = None)" using u f s(5) by simp
  qed
  from Cons.IH [OF s(2) wt up]
  obtain t where t: "put_prev_levels es s = Some t" "class_ok t" "members t = members s" "link_view t = link_view s"
     "\<forall>d. cfs_curr (cfs_rqs t d) = (if \<exists>a\<in>set es. se_cfs_rq (ses s a) = d then None else cfs_curr (cfs_rqs s d))" by blast
  have "put_prev_levels (e # es) st = Some t" using s(1) t(1) by (simp add: cfs_rq_of_def)
  moreover have "\<forall>d. cfs_curr (cfs_rqs t d) = (if \<exists>a\<in>set (e # es). se_cfs_rq (ses st a) = d then None else cfs_curr (cfs_rqs st d))"
    using t(5) s(5) f(1) by auto
  ultimately show ?case using t(2-4) s(3,4) by simp
qed simp

lemma put_prev_task_fair_ok:
  assumes "class_ok st" "entity_is_task st p" "cfs_curr (cfs_rqs st (se_cfs_rq (ses st p))) = Some p"
  obtains es s where "for_each_sched_entity st (Some p) = Some es" "put_prev_task_fair p st = Some s" "class_ok s"
    "members s = members st" "link_view s = link_view st"
    "\<And>d. cfs_curr (cfs_rqs s d) = (if \<exists>a\<in>set es. se_cfs_rq (ses st a) = d then None else cfs_curr (cfs_rqs st d))"
proof -
  have b: "sched_ok st" using assms(1) by (simp add: class_ok_def base_ok_def)
  obtain es where es: "for_each_sched_entity st (Some p) = Some es" using walk_total [OF b] by blast
  from put_prev_levels_ok [OF assms(1) es] assms(2,3)
  obtain s where "put_prev_levels es st = Some s" "class_ok s" "members s = members st" "link_view s = link_view st"
      "\<forall>d. cfs_curr (cfs_rqs s d) = (if \<exists>a\<in>set es. se_cfs_rq (ses st a) = d then None else cfs_curr (cfs_rqs st d))"
    by (auto simp: entity_is_task_def)
  then show thesis using that es by (simp add: put_prev_task_fair_def)
qed

lemma tick_levels_ok:
  "class_ok st \<Longrightarrow> for_each_sched_entity st x = Some es \<Longrightarrow>
   (\<forall>e. x = Some e \<longrightarrow> cfs_curr (cfs_rqs st (se_cfs_rq (ses st e))) = Some e) \<Longrightarrow>
   \<exists>s. tick_levels es st = Some s \<and> class_ok s \<and> members s = members st \<and> hier_view s = hier_view st"
proof (induction es arbitrary: x st)
  case (Cons e es)
  then obtain x0 where x0: "x = Some x0" by (cases x) (auto simp: for_each_sched_entity_def)
  then have x: "x = Some e" using Cons.prems(2) by (auto elim: walk_Cons)
  let ?c = "se_cfs_rq (ses st e)"
  have b: "links_ok st" "chain_ok st" "sched_ok st" "weights_ok st" "base_ok st" using Cons.prems(1) by (simp_all add: class_ok_def base_ok_def)
  obtain s where s: "entity_tick ?c e st = Some s" "sched_ok s" "members s = members st"
    using entity_tick_ok [OF b(3), of ?c e] Cons.prems(3) x by blast
  note v = class_entity_tick [OF s(1)]
  have ok: "class_ok s" using hier_frame [OF v s(3,2) weights_entity_tick [OF s(1) b(4)]] Cons.prems(1) by (simp add: class_ok_def)
  note h = class_hier [OF v]
  have w: "for_each_sched_entity s (parent_entity st e) = Some es" using Cons.prems(2) x hier_view_eq(5) [OF h] by (auto elim: walk_Cons)
  have "\<forall>g. parent_entity st e = Some g \<longrightarrow> cfs_curr (cfs_rqs s (se_cfs_rq (ses s g))) = Some g"
    using chain_up(1) [OF b(1,2)] Cons.prems(3) x hier_view_eq [OF h] by simp
  from Cons.IH [OF ok w this] show ?case using s(1,3) h by (auto simp: cfs_rq_of_def)
qed simp

lemma task_tick_fair_ok:
  assumes "class_ok st" "cfs_curr (cfs_rqs st (se_cfs_rq (ses st p))) = Some p"
  obtains s where "task_tick_fair cpu p st = Some s" "class_ok s" "members s = members st" "hier_view s = hier_view st"
proof -
  have b: "sched_ok st" using assms(1) by (simp add: class_ok_def base_ok_def)
  obtain es where es: "for_each_sched_entity st (Some p) = Some es" using walk_total [OF b] by blast
  from tick_levels_ok [OF assms(1) es] assms(2)
  obtain s where s: "tick_levels es st = Some s" "class_ok s" "members s = members st" "hier_view s = hier_view st" by auto
  let ?t = "update_rq_runnable_avg cpu True s"
  have "class_ok ?t" "hier_view ?t = hier_view s" "members ?t = members s" using class_frame [of ?t s] s(2) by simp_all
  then show thesis using that [of ?t] es s by (simp add: task_tick_fair_def)
qed

subsection \<open>Preemption and yielding\<close>

text \<open>The result of a method that keeps the queues, the links and the running entities.\<close>

definition kept :: "sched_state \<Rightarrow> sched_state \<Rightarrow> bool" where
  "kept st s \<longleftrightarrow> class_ok s \<and> hier_view s = hier_view st \<and> members s = members st"

lemma kept_refl: "class_ok st \<Longrightarrow> kept st st"
  by (simp add: kept_def)

lemma kept_trans: "kept st s \<Longrightarrow> kept s t \<Longrightarrow> kept st t"
  by (simp add: kept_def)

lemma kept_views: "class_ok st \<Longrightarrow> class_view s = class_view st \<Longrightarrow> core_view s = core_view st \<Longrightarrow> kept st s"
  using class_frame [of s st] by (simp add: kept_def)

lemma kept_marked: "class_ok st \<Longrightarrow> marked st s \<Longrightarrow> kept st s"
  using marked_class [of st s] class_hier [of s st] by (simp add: kept_def)

lemma kept_on: "kept st s \<Longrightarrow> se_on_rq (ses s e) = se_on_rq (ses st e)"
  using hier_view_eq(1) [of s st e] by (simp add: kept_def on_rq_members)

lemma kept_class_ok: "kept st s \<Longrightarrow> class_ok s"
  by (simp add: kept_def)

lemma kept_buddy:
  assumes "class_ok st" "se_on_rq (ses st e)"
  shows "\<exists>s. set_next_buddy e st = Some s \<and> kept st s" "\<exists>s. set_last_buddy e st = Some s \<and> kept st s"
    "\<exists>s. set_skip_buddy e st = Some s \<and> kept st s"
proof -
  have b: "base_ok st" "groups_ok st None" using assms(1) by (simp_all add: class_ok_def)
  note m = set_buddy_ok [OF b assms(2)]
  show "\<exists>s. set_next_buddy e st = Some s \<and> kept st s" "\<exists>s. set_last_buddy e st = Some s \<and> kept st s"
    "\<exists>s. set_skip_buddy e st = Some s \<and> kept st s" using m kept_marked [OF assms(1)] by blast+
qed

lemma kept_wakeup_preempt:
  assumes "class_ok st"
  shows "\<exists>s. wakeup_preempt cpu cur se scale st = Some s \<and> kept st s"
proof -
  let ?t = "resched_task cur st"
  have t: "kept st ?t" using assms by (intro kept_views) simp_all
  then show ?thesis
    using kept_buddy(2) [OF kept_class_ok [OF t], of se] kept_trans [OF t] by (auto simp: wakeup_preempt_def Let_def)
qed

text \<open>The entities of two tasks of one CPU have a common root queue.\<close>

definition same_root :: "sched_state \<Rightarrow> nat \<Rightarrow> nat \<Rightarrow> bool" where
  "same_root st a b = (case (for_each_sched_entity st (Some a), for_each_sched_entity st (Some b)) of
     (Some as, Some bs) \<Rightarrow> is_same_group st (last as) (last bs) | _ \<Rightarrow> False)"

lemma check_preempt_wakeup_ok:
  assumes ok: "class_ok st" and p: "se_on_rq (ses st p)" and r: "same_root st (rq_curr (rqs st cpu)) p"
  shows "\<exists>s. check_preempt_wakeup cpu p flags st = Some s \<and> kept st s"
proof -
  let ?cur = "rq_curr (rqs st cpu)"
  obtain as bs where w: "for_each_sched_entity st (Some ?cur) = Some as" "for_each_sched_entity st (Some p) = Some bs"
      "is_same_group st (last as) (last bs)" using r by (auto simp: same_root_def split: option.splits)
  obtain se pse where m: "find_matching_se st ?cur p = Some (se, pse)" "pse \<in> set bs" using find_matching_se_ok [OF w] by blast
  have on: "se_on_rq (ses st pse)" using walk_queued [OF _ _ w(2) p m(2)] ok by (simp add: class_ok_def base_ok_def)
  define t where "t = update_curr (cfs_rq_of st se) st"
  obtain x u where u: "wakeup_preempt_entity se pse t = (x, u)" by fastforce
  have "class_view u = class_view t" "core_view u = core_view t"
    using class_wakeup_preempt [of se pse t] core_wakeup_preempt [of se pse t] by (simp_all add: u)
  then have "class_view u = class_view st" "core_view u = core_view st" by (simp_all add: t_def)
  then have ku: "kept st u" using ok by (intro kept_views)
  obtain v where v: "set_next_buddy pse u = Some v" "kept u v"
    using kept_buddy(1) [OF kept_class_ok [OF ku], of pse] on kept_on [OF ku] by blast
  define scale where "scale = (sched_nr_latency st \<le> cfs_nr_running (cfs_rqs st (task_cfs_rq st ?cur)))"
  obtain a where a: "wakeup_preempt cpu ?cur ?cur scale st = Some a" "kept st a" using kept_wakeup_preempt [OF ok] by blast
  obtain b where b: "wakeup_preempt cpu ?cur se scale v = Some b" "kept v b"
    using kept_wakeup_preempt [OF kept_class_ok [OF v(2)]] by blast
  have kb: "kept st b" using kept_trans [OF kept_trans [OF ku v(2)] b(2)] .
  show ?thesis
    using a kb ku kept_refl [OF ok]
    by (simp add: check_preempt_wakeup_def Let_def sched_feat_NEXT_BUDDY_def scale_def [symmetric] m(1) t_def [symmetric] u v(1) b(1))
qed

lemma kept_skip_clock: "class_ok st \<Longrightarrow> kept st (upd_rq cpu (\<lambda>r. r\<lparr>rq_skip_clock_update := b\<rparr>) st)"
  by (intro kept_views) (simp_all add: class_view_upd core_view_upd)

lemma kept_update_rq_clock: "class_ok st \<Longrightarrow> kept st (update_rq_clock clk cpu st)"
  by (intro kept_views) (simp_all add: update_rq_clock_def update_rq_clock_task_def Let_def class_view_upd core_view_upd)

lemma kept_update_curr: "class_ok st \<Longrightarrow> kept st (update_curr c st)"
  by (intro kept_views) simp_all

lemma kept_clear_buddies:
  assumes "class_ok st" "c = se_cfs_rq (ses st e)"
  shows "\<exists>s. clear_buddies c e st = Some s \<and> kept st s"
proof -
  have b: "sched_ok st" "weights_ok st" using assms(1) by (simp_all add: class_ok_def base_ok_def)
  obtain s where s: "clear_buddies c e st = Some s" "buddies_cleared st s" using clear_buddies_ok [OF b(1) assms(2)] by blast
  have v: "class_view s = class_view st" using class_clear_buddies [OF s(1)] .
  have "class_ok s"
    using hier_frame [OF v sched_ok_cleared(2,1) [OF s(2) b(1)]] weights_clear_buddies [OF s(1)] b(2) assms(1) by (simp add: class_ok_def)
  then show ?thesis using s(1) class_hier [OF v] sched_ok_cleared(2) [OF s(2) b(1)] by (simp add: kept_def)
qed

lemma yield_task_fair_ok:
  assumes ok: "class_ok st" and cur: "se_on_rq (ses st (rq_curr (rqs st cpu)))"
  shows "\<exists>s. yield_task_fair clk cpu st = Some s \<and> kept st s"
proof -
  let ?cur = "rq_curr (rqs st cpu)"
  obtain s where s: "clear_buddies (task_cfs_rq st ?cur) ?cur st = Some s" "kept st s"
    using kept_clear_buddies [OF ok] by (auto simp: task_cfs_rq_def)
  define t where "t = (if p_policy (tasks s ?cur) \<noteq> SCHED_BATCH
    then upd_rq cpu (\<lambda>r. r\<lparr>rq_skip_clock_update := True\<rparr>) (update_curr (task_cfs_rq st ?cur) (update_rq_clock clk cpu s)) else s)"
  have "kept s t"
  proof -
    have ok': "class_ok s" using s(2) by (rule kept_class_ok)
    note c = kept_update_rq_clock [OF ok', of clk cpu]
    note d = kept_trans [OF c kept_update_curr [OF kept_class_ok [OF c], of "task_cfs_rq st ?cur"]]
    show ?thesis
      using kept_trans [OF d kept_skip_clock [OF kept_class_ok [OF d], of cpu True]] kept_refl [OF ok'] by (simp add: t_def)
  qed
  with s(2) have t: "kept st t" by (rule kept_trans)
  obtain u where "set_skip_buddy ?cur t = Some u" "kept t u"
    using kept_buddy(3) [OF kept_class_ok [OF t], of ?cur] kept_on [OF t] cur by auto
  moreover from this have "kept st u" using t kept_trans by blast
  ultimately show ?thesis using kept_refl [OF ok] by (simp add: yield_task_fair_def Let_def s(1) t_def [symmetric])
qed

lemma yield_to_task_fair_ok:
  assumes ok: "class_ok st" and cur: "se_on_rq (ses st (rq_curr (rqs st cpu)))"
  shows "\<exists>s. yield_to_task_fair clk cpu p st = Some (se_on_rq (ses st p), s) \<and> kept st s"
proof (cases "se_on_rq (ses st p)")
  case True
  obtain s where s: "set_next_buddy p st = Some s" "kept st s" using kept_buddy(1) [OF ok True] by blast
  have h: "hier_view s = hier_view st" using s(2) by (simp add: kept_def)
  have "rq_curr (rqs s cpu) = rq_curr (rqs st cpu)" using link_view_eq(8) [OF hier_view_eq(6) [OF h]] .
  then have "se_on_rq (ses s (rq_curr (rqs s cpu)))" using cur kept_on [OF s(2)] by simp
  then obtain t where "yield_task_fair clk cpu s = Some t" "kept s t" using yield_task_fair_ok [OF kept_class_ok [OF s(2)]] by blast
  moreover from this have "kept st t" using s(2) kept_trans by blast
  ultimately show ?thesis using True s(1) by (simp add: yield_to_task_fair_def)
qed (use kept_refl [OF ok] in \<open>simp add: yield_to_task_fair_def\<close>)

subsection \<open>Tasks that are not queued\<close>

lemma kept_queue_view: "class_ok st \<Longrightarrow> queue_view s = queue_view st \<Longrightarrow> kept st s"
  by (intro kept_views queue_class queue_core)

lemma kept_upd_se: "class_ok st \<Longrightarrow> (\<And>x. se_shape (f x) = se_shape x \<and> se_load (f x) = se_load x) \<Longrightarrow> kept st (upd_se e f st)"
  by (intro kept_views) (simp_all add: class_view_upd core_view_upd view_defs)

lemma kept_migrate_task_rq_fair:
  assumes ok: "class_ok st"
  shows "kept st (migrate_task_rq_fair clk p st)"
proof -
  define t where "t = (if \<not> se_on_rq (ses st p) \<and> nohz_test_cpu (p_cpu (tasks st p)) st
    then update_cfs_rq_blocked_load (cfs_rq_of st p) False (update_rq_clock clk (p_cpu (tasks st p)) st) else st)"
  have t: "kept st t"
  proof (cases "\<not> se_on_rq (ses st p) \<and> nohz_test_cpu (p_cpu (tasks st p)) st")
    case True
    have c: "kept st (update_rq_clock clk (p_cpu (tasks st p)) st)" using ok by (rule kept_update_rq_clock)
    with kept_queue_view [OF kept_class_ok [OF c] view_blocked_load] show ?thesis using True kept_trans unfolding t_def by simp
  next
    case False
    then show ?thesis using kept_refl [OF ok] by (auto simp: t_def)
  qed
  obtain d u where u: "synchronize_entity_decay p t = (d, u)" by fastforce
  then have "queue_view u = queue_view t" by (metis snd_conv view_synchronize)
  then have "kept t (upd_cfs (cfs_rq_of st p) (\<lambda>q. q\<lparr>cfs_removed_load := cfs_removed_load q +
      load_avg_contrib (se_avg (ses (upd_avg p (\<lambda>a. a\<lparr>decay_count := - d\<rparr>) u) p))\<rparr>) (upd_avg p (\<lambda>a. a\<lparr>decay_count := - d\<rparr>) u))"
    using kept_class_ok [OF t] by (intro kept_queue_view) (simp_all add: queue_view_upd part_defs)
  with t have "kept st (upd_cfs (cfs_rq_of st p) (\<lambda>q. q\<lparr>cfs_removed_load := cfs_removed_load q +
      load_avg_contrib (se_avg (ses (upd_avg p (\<lambda>a. a\<lparr>decay_count := - d\<rparr>) u) p))\<rparr>) (upd_avg p (\<lambda>a. a\<lparr>decay_count := - d\<rparr>) u))"
    by (rule kept_trans)
  then show ?thesis
    using kept_refl [OF ok] by (simp add: migrate_task_rq_fair_def Let_def t_def [symmetric] u)
qed

lemma switched_from_fair_ok:
  assumes ok: "class_ok st"
  shows "\<exists>s. switched_from_fair p st = Some s \<and> kept st s"
proof -
  let ?c = "cfs_rq_of st p"
  obtain t where t: "(if \<not> p_on_rq (tasks st p) \<and> p_state (tasks st p) \<noteq> TASK_RUNNING
      then do { st \<leftarrow> place_entity ?c p False st;
                Some (upd_se p (\<lambda>e. e\<lparr>se_vruntime := se_vruntime e - cfs_min_vruntime (cfs_rqs st ?c)\<rparr>) st) }
      else Some st) = Some t" "kept st t"
  proof (cases "\<not> p_on_rq (tasks st p) \<and> p_state (tasks st p) \<noteq> TASK_RUNNING")
    case True
    obtain s where s: "place_entity ?c p False st = Some s" "core_view s = core_view st" using place_entity_wakeup by blast
    have k: "kept st s" using ok s(2) class_place_entity [OF s(1)] by (intro kept_views)
    have "kept s (upd_se p (\<lambda>e. e\<lparr>se_vruntime := se_vruntime e - cfs_min_vruntime (cfs_rqs s ?c)\<rparr>) s)"
      using kept_class_ok [OF k] by (intro kept_upd_se) (simp_all add: se_shape_def)
    then show thesis using that s(1) True kept_trans [OF k] by simp
  next
    case False
    then show thesis by (intro that [of st]) (auto simp: kept_refl [OF ok])
  qed
  have "kept t (let (_, st) = synchronize_entity_decay p t in subtract_blocked_load_contrib ?c (load_avg_contrib (se_avg (ses st p))) st)"
    using kept_class_ok [OF t(2)] by (intro kept_queue_view) (simp_all add: case_prod_beta)
  then have "kept st (let (_, st) = synchronize_entity_decay p t in subtract_blocked_load_contrib ?c (load_avg_contrib (se_avg (ses st p))) st)"
    using kept_trans [OF t(2)] by blast
  then show ?thesis using t by (simp add: switched_from_fair_def Let_def)
qed

text \<open>Giving an unqueued task another queue.\<close>

lemma ancestors_redirect:
  assumes "\<And>e. par e \<noteq> Some p"
  shows "ancestors par (Some e) = Some es \<Longrightarrow> e \<noteq> p \<Longrightarrow> ancestors (par(p := x)) (Some e) = Some es"
proof (induction es arbitrary: e)
  case Nil
  then show ?case by (auto elim: ancestors_Cons)
next
  case (Cons y es)
  then have y: "y = e" "ancestors par (par e) = Some es" by (auto elim: ancestors_Cons)
  show ?case
  proof (cases "par e")
    case None
    then show ?thesis using y Cons.prems(2) by (simp add: ancestors_Some)
  next
    case (Some g)
    have "ancestors par (Some g) = Some es" "g \<noteq> p" using Some y assms [of e] by auto
    then have "ancestors (par(p := x)) (Some g) = Some es" by (rule Cons.IH)
    then have "ancestors (par(p := x)) (Some e) = Some (e # es)"
      using Some Cons.prems(2) ancestors_Some [of "par(p := x)" e] by simp
    then show ?thesis using y(1) by (simp only:)
  qed
qed

lemma set_task_rq_simps:
  "ses (set_task_rq p cpu st) = (ses st)(p := (ses st p)\<lparr>se_cfs_rq := tg_cfs_rq (tgs st (p_sched_task_group (tasks st p))) cpu,
     se_parent := tg_se (tgs st (p_sched_task_group (tasks st p))) cpu\<rparr>)"
  "cfs_rqs (set_task_rq p cpu st) = cfs_rqs st" "tgs (set_task_rq p cpu st) = tgs st" "rqs (set_task_rq p cpu st) = rqs st"
  "tasks (set_task_rq p cpu st) = tasks st"
  by (simp_all add: set_task_rq_def Let_def)

definition detached :: "sched_state \<Rightarrow> nat \<Rightarrow> bool" where
  "detached st p \<longleftrightarrow> \<not> se_on_rq (ses st p) \<and> entity_is_task st p \<and> (\<forall>c. cfs_curr (cfs_rqs st c) \<noteq> Some p)"

lemma set_task_rq_ok:
  assumes ok: "class_ok st" "wiring_ok st" and p: "detached st p"
  shows "class_ok (set_task_rq p cpu st)" "wiring_ok (set_task_rq p cpu st)" "members (set_task_rq p cpu st) = members st"
    "detached (set_task_rq p cpu st) p"
proof -
  define s where "s = set_task_rq p cpu st"
  let ?tg = "tgs st (p_sched_task_group (tasks st p))"
  note f = set_task_rq_simps [of p cpu st, folded s_def]
  have b: "base_ok st" "sched_ok st" "links_ok st" "weights_ok st" "chain_ok st" "groups_ok st None" "counts_ok st None 0"
    using ok(1) by (simp_all add: class_ok_def base_ok_def)
  have tp: "se_my_q (ses st p) = None" "\<not> se_on_rq (ses st p)" "\<And>c. cfs_curr (cfs_rqs st c) \<noteq> Some p"
    using p by (simp_all add: detached_def entity_is_task_def)
  have noch: "se_parent (ses st e) \<noteq> Some p" for e using links_parent [OF b(3), of e p] tp(1) by simp
  have q: "se_my_q (ses s e) = se_my_q (ses st e)" "se_on_rq (ses s e) = se_on_rq (ses st e)" "se_load (ses s e) = se_load (ses st e)" for e
    by (simp_all add: f)
  show m: "members (set_task_rq p cpu st) = members st" unfolding s_def [symmetric]
    using tp(2) by (auto simp: members_def f fun_eq_iff)
  have par: "parent_entity s = (parent_entity st)(p := tg_se ?tg cpu)" by (auto simp: parent_entity_def f fun_eq_iff)
  have walk: "for_each_sched_entity s (Some e) = for_each_sched_entity st (Some e)" if "e \<noteq> p" for e
  proof -
    obtain es where "for_each_sched_entity st (Some e) = Some es" using walk_total [OF b(2)] by blast
    then show ?thesis using ancestors_redirect [of "parent_entity st" p e es] noch that
      by (simp add: for_each_sched_entity_def par parent_entity_def)
  qed
  have walk_p: "for_each_sched_entity s (Some p) = map_option ((#) p) (for_each_sched_entity st (tg_se ?tg cpu))"
  proof (cases "tg_se ?tg cpu")
    case (Some g)
    then have g: "g \<noteq> p" using ok(2) tp(1) by (auto simp: wiring_ok_def)
    obtain es where es: "for_each_sched_entity st (Some g) = Some es" using walk_total [OF b(2)] by blast
    then have "ancestors (parent_entity s) (Some g) = Some es" using walk [OF g] by (simp add: for_each_sched_entity_def)
    then show ?thesis using Some es ancestors_Some [of "parent_entity s" p] by (simp add: for_each_sched_entity_def par)
  qed (simp add: for_each_sched_entity_def ancestors_Some par)
  have total: "\<exists>es. for_each_sched_entity st x = Some es" for x
    using walk_total [OF b(2)] by (cases x) (auto simp: for_each_sched_entity_def)
  have hier: "hier_ok s"
    unfolding hier_ok_def
  proof (intro conjI allI impI)
    show "for_each_sched_entity s (Some e) \<noteq> None" for e using walk [of e] walk_p total by (cases "e = p") auto
    fix c g assume g: "tg_se (tgs s (cfs_tg (cfs_rqs s c))) (cfs_rq_cpu (cfs_rqs s c)) = Some g"
    then have "g \<noteq> p" using ok(2) tp(1) f by (auto simp: wiring_ok_def)
    moreover have "se_cfs_rq (ses st g) \<noteq> c" using g b(2) f unfolding sched_ok_def hier_ok_def by auto
    ultimately show "se_cfs_rq (ses s g) \<noteq> c" by (simp add: f)
  qed
  have qd: "queued s = queued st" "timeline_ok s = timeline_ok st" "running s = running st"
    by (simp_all add: queued_def timeline_ok_def running_def f(2) q fun_eq_iff)
  have "timelines_ok s" using b(2) tp(3) by (auto simp: sched_ok_def timelines_ok_def m [folded s_def] qd f)
  moreover have "buddies_ok s" using b(2) by (simp add: sched_ok_def buddies_ok_def m [folded s_def] f)
  moreover have "acct_ok s (members s)"
  proof -
    have "se_cfs_rq (ses s e) = c" if "e \<in> members st c" for e c using that tp(2) by (auto simp: members_def f)
    then show ?thesis using b(2) by (simp add: sched_ok_def acct_ok_def m [folded s_def] q f(2))
  qed
  ultimately have "sched_ok s" using hier by (simp add: sched_ok_def)
  moreover have "links_ok s"
    unfolding links_ok_def
  proof (intro conjI allI impI)
    fix e g show "se_parent (ses s e) = Some g \<longleftrightarrow> se_my_q (ses s g) = Some (se_cfs_rq (ses s e))"
      unfolding q using links_parent [OF b(3), of e g] ok(2) by (simp add: f wiring_ok_def)
  next
    show "\<And>g h q. se_my_q (ses s g) = Some q \<and> se_my_q (ses s h) = Some q \<Longrightarrow> g = h" using links_owner [OF b(3)] q by auto
  next
    obtain D where D: "\<forall>e es. for_each_sched_entity st (Some e) = Some es \<longrightarrow> length es \<le> D" using b(3) by (auto simp: links_ok_def)
    have "for_each_sched_entity s (Some e) = Some es \<Longrightarrow> length es \<le> Suc D" for e es
    proof (cases "e = p")
      case True
      assume "for_each_sched_entity s (Some e) = Some es"
      then obtain es' where "for_each_sched_entity st (tg_se ?tg cpu) = Some es'" "es = p # es'" using True walk_p by auto
      then show ?thesis using D by (cases "tg_se ?tg cpu") (auto simp: for_each_sched_entity_def)
    next
      case False
      then show "for_each_sched_entity s (Some e) = Some es \<Longrightarrow> length es \<le> Suc D" using D walk le_SucI by metis
    qed
    then show "\<exists>D. \<forall>e es. for_each_sched_entity s (Some e) = Some es \<longrightarrow> length es \<le> D" by blast
  qed
  moreover have "weights_ok s" using b(4) by (simp add: weights_ok_def f q)
  ultimately have base: "base_ok s" using b(1) by (simp add: base_ok_def m [folded s_def])
  have "chain_ok s" using b(5) tp(1) by (auto simp: chain_ok_def f split: if_splits)
  moreover have "groups_ok s None" using b(6) by (simp add: groups_ok_def q m [folded s_def])
  moreover have "tasks_below s e = tasks_below st e" for e by (simp add: tasks_below_def q(1) f(2) split: option.split)
  then have "counts_ok s None 0" using b(7) by (simp add: counts_ok_def m [folded s_def] f(2))
  ultimately show "class_ok (set_task_rq p cpu st)" using base by (simp add: class_ok_def s_def)
  have ec: "entity_cpu s e = (if e = p then cpu else entity_cpu st e)" for e
    using ok(2) by (simp add: wiring_ok_def entity_cpu_def f)
  show "wiring_ok (set_task_rq p cpu st)"
    using ok(2) tp(1) unfolding wiring_ok_def s_def [symmetric] q f(2,3,4) ec by (auto simp: f(1))
  show "detached (set_task_rq p cpu st) p" using p by (simp add: detached_def set_task_rq_simps entity_is_task_def)
qed

end
