(* ===== verification/CFS_Lifecycle.thy ===== *)
theory CFS_Lifecycle
  imports CFS_Task_Pick
begin

text \<open>
  Operations that carry a task from one run queue to another: the preemption check of the core
  scheduler, \<open>set_task_cpu\<close>, \<open>task_fork_fair\<close>, \<open>task_move_group_fair\<close> and \<open>move_task\<close> of the load balancer,
  \<open>set_curr_task_fair\<close> and the change of the shares of a group.  The counter \<open>h_nr_running\<close> is shown to be
  the number of tasks below a queue.
\<close>

definition hierarchy_ok :: "sched_state \<Rightarrow> bool" where
  "hierarchy_ok st \<longleftrightarrow> class_ok st \<and> wiring_ok st"

lemma kept_hierarchy: "hierarchy_ok st \<Longrightarrow> kept st s \<Longrightarrow> hierarchy_ok s"
  using wiring_link [OF hier_view_eq(6), of s st] by (simp add: hierarchy_ok_def kept_def)

lemma walk_root:
  assumes "links_ok st" "wiring_ok st"
  shows "for_each_sched_entity st (Some e) = Some es \<Longrightarrow> se_cfs_rq (ses st (last es)) = rq_cfs (rqs st (entity_cpu st e))"
proof (induction es arbitrary: e)
  case Nil
  then show ?case by (auto elim: walk_Cons)
next
  case (Cons x es)
  then have x: "x = e" "for_each_sched_entity st (parent_entity st e) = Some es" by (auto elim: walk_Cons)
  show ?case
  proof (cases "parent_entity st e")
    case None
    then show ?thesis using x assms(2) by (auto simp: for_each_sched_entity_def wiring_ok_def parent_entity_def)
  next
    case (Some g)
    then have "es \<noteq> []" using x by (auto elim: walk_Cons)
    moreover have "entity_cpu st g = entity_cpu st e"
      using links_parent [OF assms(1), of e g] Some assms(2) by (auto simp: wiring_ok_def parent_entity_def entity_cpu_def)
    ultimately show ?thesis using Cons.IH [of g] x Some by simp
  qed
qed

lemma same_root_cpu:
  assumes "hierarchy_ok st" "entity_cpu st a = entity_cpu st b"
  shows "same_root st a b"
proof -
  have b: "sched_ok st" "links_ok st" "wiring_ok st" using assms(1) by (simp_all add: hierarchy_ok_def class_ok_def base_ok_def)
  obtain as bs where w: "for_each_sched_entity st (Some a) = Some as" "for_each_sched_entity st (Some b) = Some bs"
    using walk_total [OF b(1)] by blast
  then show ?thesis using walk_root [OF b(2,3) w(1)] walk_root [OF b(2,3) w(2)] assms(2)
    by (simp add: same_root_def is_same_group_def)
qed

subsection \<open>Preemption checks of the core scheduler\<close>

lemma check_preempt_curr_ok:
  assumes ok: "hierarchy_ok st" and p: "se_on_rq (ses st p)" "p_sched_class (tasks st p) = fair_sched_class"
    and cpu: "p_sched_class (tasks st (rq_curr (rqs st cpu))) = fair_sched_class \<Longrightarrow> entity_cpu st (rq_curr (rqs st cpu)) = entity_cpu st p"
  shows "\<exists>s. check_preempt_curr other cpu p flags st = Some s \<and> kept st s"
proof -
  let ?cur = "rq_curr (rqs st cpu)"
  have c: "class_ok st" using ok by (simp add: hierarchy_ok_def)
  obtain s where s: "(if p_sched_class (tasks st p) = p_sched_class (tasks st ?cur)
      then (if p_sched_class (tasks st ?cur) = fair_sched_class then check_preempt_wakeup cpu p flags st
            else other (p_sched_class (tasks st ?cur)) cpu p flags st)
      else Some (if class_preempts for_each_class (p_sched_class (tasks st ?cur)) (p_sched_class (tasks st p))
                 then resched_task ?cur st else st)) = Some s" "kept st s"
  proof (cases "p_sched_class (tasks st p) = p_sched_class (tasks st ?cur)")
    case True
    then have "same_root st ?cur p" using same_root_cpu [OF ok] cpu p(2) by simp
    then obtain s where "check_preempt_wakeup cpu p flags st = Some s" "kept st s" using check_preempt_wakeup_ok [OF c p(1)] by blast
    then show thesis using that True p(2) by simp
  next
    case False
    have "kept st (resched_task ?cur st)" using c by (intro kept_views) simp_all
    then show thesis using that False kept_refl [OF c] by simp
  qed
  let ?b = "p_on_rq (tasks s (rq_curr (rqs s cpu))) \<and> p_need_resched (tasks s (rq_curr (rqs s cpu)))"
  have "kept st (if ?b then upd_rq cpu (\<lambda>r. r\<lparr>rq_skip_clock_update := True\<rparr>) s else s)"
    using s(2) kept_trans [OF s(2) kept_skip_clock [OF kept_class_ok [OF s(2)], of cpu True]] by simp
  then show ?thesis by (simp add: check_preempt_curr_def Let_def s(1))
qed

subsection \<open>Changing the CPU or the group of a task\<close>

lemma kept_detached: "kept st s \<Longrightarrow> detached s p = detached st p"
  using hier_view_eq [of s st] kept_on [of st s p] by (simp add: detached_def kept_def entity_is_task_def)

lemma kept_upd_task:
  "class_ok st \<Longrightarrow> (\<And>x. p_sched_class (f x) = p_sched_class x \<and> p_sched_task_group (f x) = p_sched_task_group x) \<Longrightarrow>
   kept st (upd_task p f st)"
  by (intro kept_views) (simp_all add: class_view_upd core_view_upd)

text \<open>States that differ in the link of one detached task.\<close>

definition relinked :: "sched_state \<Rightarrow> nat \<Rightarrow> sched_state \<Rightarrow> bool" where
  "relinked st p s \<longleftrightarrow> hierarchy_ok s \<and> members s = members st \<and> detached s p \<and>
     (\<forall>e. se_on_rq (ses s e) = se_on_rq (ses st e) \<and> se_my_q (ses s e) = se_my_q (ses st e)) \<and>
     (\<forall>e. e \<noteq> p \<longrightarrow> se_cfs_rq (ses s e) = se_cfs_rq (ses st e)) \<and>
     (\<forall>c. cfs_curr (cfs_rqs s c) = cfs_curr (cfs_rqs st c) \<and> cfs_rq_cpu (cfs_rqs s c) = cfs_rq_cpu (cfs_rqs st c)) \<and>
     (\<forall>r. rq_cfs (rqs s r) = rq_cfs (rqs st r) \<and> rq_curr (rqs s r) = rq_curr (rqs st r)) \<and>
     (\<forall>t. tg_cfs_rq (tgs s t) = tg_cfs_rq (tgs st t)) \<and>
     (\<forall>x. p_sched_class (tasks s x) = p_sched_class (tasks st x) \<and> p_sched_task_group (tasks s x) = p_sched_task_group (tasks st x))"

lemma kept_relinked: "hierarchy_ok st \<Longrightarrow> detached st p \<Longrightarrow> kept st s \<Longrightarrow> relinked st p s"
  using kept_hierarchy [of st s] kept_detached [of st s p] hier_view_eq [of s st] link_view_eq [OF hier_view_eq(6), of s st] kept_on [of st s]
  by (auto simp: relinked_def kept_def)

lemma relinked_trans: "relinked st p s \<Longrightarrow> relinked s p t \<Longrightarrow> relinked st p t"
  by (simp add: relinked_def)

lemma relinked_kept: "relinked st p s \<Longrightarrow> kept s t \<Longrightarrow> relinked st p t"
  using kept_relinked [of s p t] relinked_trans by (simp add: relinked_def)

lemma raw_set_task_cpu_ok:
  assumes "hierarchy_ok st" "detached st p"
  shows "relinked st p (raw_set_task_cpu p cpu st)"
    "se_cfs_rq (ses (raw_set_task_cpu p cpu st) p) = tg_cfs_rq (tgs st (p_sched_task_group (tasks st p))) cpu"
proof -
  let ?s = "set_task_rq p cpu st"
  note s = set_task_rq_ok [of st p cpu]
  have "relinked st p ?s" using s assms by (simp add: relinked_def hierarchy_ok_def set_task_rq_simps)
  moreover have "kept ?s (raw_set_task_cpu p cpu st)"
    using s(1) assms kept_upd_task by (simp add: hierarchy_ok_def raw_set_task_cpu_def)
  ultimately show "relinked st p (raw_set_task_cpu p cpu st)" by (rule relinked_kept)
  show "se_cfs_rq (ses (raw_set_task_cpu p cpu st) p) = tg_cfs_rq (tgs st (p_sched_task_group (tasks st p))) cpu"
    by (simp add: raw_set_task_cpu_def set_task_rq_simps)
qed

lemma set_task_cpu_ok:
  assumes "hierarchy_ok st" "detached st p"
  shows "relinked st p (set_task_cpu clk p cpu st)"
    "se_cfs_rq (ses (set_task_cpu clk p cpu st) p) = tg_cfs_rq (tgs st (p_sched_task_group (tasks st p))) cpu"
proof -
  define s where "s = (if p_cpu (tasks st p) \<noteq> cpu
    then upd_se p (\<lambda>e. e\<lparr>se_nr_migrations := se_nr_migrations e + 1\<rparr>) (migrate_task_rq_fair clk p st) else st)"
  have c: "class_ok st" using assms(1) by (simp add: hierarchy_ok_def)
  have m: "kept st (migrate_task_rq_fair clk p st)" using kept_migrate_task_rq_fair [OF c] .
  have "kept (migrate_task_rq_fair clk p st)
      (upd_se p (\<lambda>e. e\<lparr>se_nr_migrations := se_nr_migrations e + 1\<rparr>) (migrate_task_rq_fair clk p st))"
    using kept_class_ok [OF m] by (intro kept_upd_se) (simp_all add: se_shape_def)
  then have k: "kept st s" using kept_trans [OF m] kept_refl [OF c] by (simp add: s_def)
  note r = raw_set_task_cpu_ok [OF kept_hierarchy [OF assms(1) k], of p cpu] and d = kept_relinked [OF assms k]
  have e: "set_task_cpu clk p cpu st = raw_set_task_cpu p cpu s" by (simp add: set_task_cpu_def s_def)
  show "relinked st p (set_task_cpu clk p cpu st)"
    unfolding e using relinked_trans [OF d r(1)] assms(2) kept_detached [OF k] by simp
  show "se_cfs_rq (ses (set_task_cpu clk p cpu st) p) = tg_cfs_rq (tgs st (p_sched_task_group (tasks st p))) cpu"
    unfolding e using r(2) d kept_detached [OF k] assms(2) by (simp add: relinked_def)
qed

lemma kept_vruntime: "class_ok st \<Longrightarrow> kept st (upd_se e (\<lambda>x. x\<lparr>se_vruntime := f x\<rparr>) st)"
  by (intro kept_upd_se) (simp_all add: se_shape_def)

lemma place_entity_ok:
  assumes "class_ok st"
  shows "\<exists>s. place_entity c p b st = Some s \<and> kept st s"
proof (cases b)
  case False
  obtain s where s: "place_entity c p False st = Some s" "core_view s = core_view st" using place_entity_wakeup by blast
  then have "kept st s" by (intro kept_views [OF assms] class_place_entity [OF s(1)])
  with s(1) False show ?thesis by simp
next
  case True
  have ok: "sched_ok st" using assms by (simp add: class_ok_def base_ok_def)
  obtain x s where s: "sched_slice c p st = Some (x, s)" "core_view s = core_view st" using sched_slice_total [OF ok] by blast
  obtain d t where t: "calc_delta_fair x p s = (d, t)" by fastforce
  have "core_view t = core_view s" "class_view t = class_view s"
    using core_calc_delta_fair [of x p s] class_calc_delta_fair [of x p s] by (simp_all add: t)
  then have k: "kept st t" using s(2) class_sched_slice [OF s(1)] by (intro kept_views [OF assms]) simp_all
  have "kept st (upd_se p (\<lambda>e. e\<lparr>se_vruntime := max_vruntime (se_vruntime e) (cfs_min_vruntime (cfs_rqs st c) + d)\<rparr>) t)"
    using kept_trans [OF k kept_vruntime [OF kept_class_ok [OF k]]] .
  then show ?thesis using True s(1) t by (simp add: place_entity_def sched_vslice_def)
qed

lemma kept_resched: "class_ok st \<Longrightarrow> kept st (resched_task p st)"
  by (simp add: resched_task_def kept_upd_task)

lemma relinked_class_ok: "relinked st p s \<Longrightarrow> class_ok s"
  by (simp add: relinked_def hierarchy_ok_def)

lemma task_fork_fair_ok:
  assumes ok: "hierarchy_ok st" and p: "detached st p"
  shows "\<exists>s. task_fork_fair clk cpu p st = Some s \<and> relinked st p s"
proof -
  define s0 where "s0 = update_rq_clock clk cpu st"
  have k0: "kept st s0" using ok kept_update_rq_clock by (simp add: hierarchy_ok_def s0_def)
  define c where "c = task_cfs_rq s0 (rq_curr (rqs s0 cpu))"
  define cur where "cur = cfs_curr (cfs_rqs s0 c)"
  define s1 where "s1 = raw_set_task_cpu p cpu s0"
  have r1: "relinked st p s1"
    using relinked_trans [OF kept_relinked [OF ok p k0] raw_set_task_cpu_ok(1)] kept_hierarchy [OF ok k0] kept_detached [OF k0] p
    by (simp add: s1_def)
  define s2 where "s2 = update_curr c s1"
  have r2: "relinked st p s2" using relinked_kept [OF r1] kept_update_curr [OF relinked_class_ok [OF r1]] by (simp add: s2_def)
  define s3 where "s3 = (case cur of None \<Rightarrow> s2 | Some x \<Rightarrow> upd_se p (\<lambda>e. e\<lparr>se_vruntime := se_vruntime (ses s2 x)\<rparr>) s2)"
  have r3: "relinked st p s3"
    using r2 relinked_kept [OF r2 kept_vruntime [OF relinked_class_ok [OF r2]]] by (simp add: s3_def split: option.split)
  obtain s4 where s4: "place_entity c p True s3 = Some s4" "kept s3 s4" using place_entity_ok [OF relinked_class_ok [OF r3]] by blast
  have r4: "relinked st p s4" using relinked_kept [OF r3 s4(2)] .
  define s5 where "s5 = (case cur of None \<Rightarrow> s4 | Some x \<Rightarrow>
       if sysctl_sched_child_runs_first s4 \<noteq> 0 \<and> entity_before s4 x p
       then (let v = se_vruntime (ses s4 x);
                 st = upd_se x (\<lambda>e. e\<lparr>se_vruntime := se_vruntime (ses s4 p)\<rparr>) s4;
                 st = upd_se p (\<lambda>e. e\<lparr>se_vruntime := v\<rparr>) st
             in resched_task (rq_curr (rqs st cpu)) st)
       else s4)"
  have r5: "relinked st p s5"
  proof -
    have a: "kept s4 (upd_se x (\<lambda>e. e\<lparr>se_vruntime := v\<rparr>) s4)" for x v using kept_vruntime [OF relinked_class_ok [OF r4]] .
    have b: "kept s4 (upd_se y (\<lambda>e. e\<lparr>se_vruntime := w\<rparr>) (upd_se x (\<lambda>e. e\<lparr>se_vruntime := v\<rparr>) s4))" for x v y w
      using kept_trans [OF a kept_vruntime [OF kept_class_ok [OF a]]] .
    have "kept s4 (resched_task r (upd_se y (\<lambda>e. e\<lparr>se_vruntime := w\<rparr>) (upd_se x (\<lambda>e. e\<lparr>se_vruntime := v\<rparr>) s4)))" for x v y w r
      using kept_trans [OF b kept_resched [OF kept_class_ok [OF b]]] .
    then show ?thesis using r4 relinked_kept [OF r4] by (simp add: s5_def Let_def split: option.split)
  qed
  have "relinked st p (upd_se p (\<lambda>e. e\<lparr>se_vruntime := se_vruntime e - cfs_min_vruntime (cfs_rqs s5 c)\<rparr>) s5)"
    using relinked_kept [OF r5 kept_vruntime [OF relinked_class_ok [OF r5]]] .
  moreover have "task_fork_fair clk cpu p st = Some (upd_se p (\<lambda>e. e\<lparr>se_vruntime := se_vruntime e - cfs_min_vruntime (cfs_rqs s5 c)\<rparr>) s5)"
    unfolding task_fork_fair_def Let_def s0_def [symmetric] c_def [symmetric] cur_def [symmetric] s1_def [symmetric] s2_def [symmetric]
      s3_def [symmetric] s4(1) bind.bind_lunit s5_def [unfolded Let_def, symmetric] ..
  ultimately show ?thesis by blast
qed

lemma task_move_group_fair_ok:
  assumes ok: "hierarchy_ok st" and p: "detached st p"
  shows "relinked st p (task_move_group_fair p b st)"
proof -
  define b' where "b' = (b \<or> se_sum_exec_runtime (ses st p) = 0 \<or> p_state (tasks st p) = TASK_WAKING)"
  define s1 where "s1 = (if \<not> b'
    then upd_se p (\<lambda>e. e\<lparr>se_vruntime := se_vruntime e - cfs_min_vruntime (cfs_rqs st (cfs_rq_of st p))\<rparr>) st else st)"
  have c: "class_ok st" using ok by (simp add: hierarchy_ok_def)
  have k1: "kept st s1" using kept_vruntime [OF c] kept_refl [OF c] by (simp add: s1_def)
  define s2 where "s2 = set_task_rq p (p_cpu (tasks s1 p)) s1"
  note h1 = kept_hierarchy [OF ok k1]
  have d1: "detached s1 p" using p kept_detached [OF k1] by simp
  have "relinked s1 p s2"
    using set_task_rq_ok [of s1 p "p_cpu (tasks s1 p)"] h1 d1 by (simp add: relinked_def hierarchy_ok_def s2_def set_task_rq_simps)
  then have r2: "relinked st p s2" using relinked_trans [OF kept_relinked [OF ok p k1]] by blast
  let ?c = "cfs_rq_of s2 p"
  let ?s3 = "upd_se p (\<lambda>e. e\<lparr>se_vruntime := se_vruntime e + cfs_min_vruntime (cfs_rqs s2 ?c)\<rparr>) s2"
  have r3: "relinked st p ?s3" using relinked_kept [OF r2 kept_vruntime [OF relinked_class_ok [OF r2]]] .
  have "kept ?s3 (upd_cfs ?c (\<lambda>q. q\<lparr>cfs_blocked_load_avg := x q\<rparr>) (upd_avg p (\<lambda>a. a\<lparr>decay_count := y\<rparr>) ?s3))" for x y
    using relinked_class_ok [OF r3] by (intro kept_queue_view) (simp_all add: queue_view_upd part_defs)
  then have "relinked st p (upd_cfs ?c (\<lambda>q. q\<lparr>cfs_blocked_load_avg := x q\<rparr>) (upd_avg p (\<lambda>a. a\<lparr>decay_count := y\<rparr>) ?s3))" for x y
    using relinked_kept [OF r3] by blast
  then show ?thesis
    using r2 unfolding task_move_group_fair_def b'_def [symmetric] Let_def s1_def [symmetric] s2_def [symmetric] by simp
qed

subsection \<open>Moving a queued task to another CPU\<close>

lemma relinked_eq:
  assumes "relinked st p s"
  shows "hierarchy_ok s" "members s = members st" "detached s p" "se_on_rq (ses s e) = se_on_rq (ses st e)"
    "se_my_q (ses s e) = se_my_q (ses st e)" "e \<noteq> p \<Longrightarrow> se_cfs_rq (ses s e) = se_cfs_rq (ses st e)"
    "cfs_curr (cfs_rqs s c) = cfs_curr (cfs_rqs st c)" "cfs_rq_cpu (cfs_rqs s c) = cfs_rq_cpu (cfs_rqs st c)"
    "rq_cfs (rqs s r) = rq_cfs (rqs st r)" "rq_curr (rqs s r) = rq_curr (rqs st r)" "tg_cfs_rq (tgs s t) = tg_cfs_rq (tgs st t)"
    "p_sched_class (tasks s x) = p_sched_class (tasks st x)" "p_sched_task_group (tasks s x) = p_sched_task_group (tasks st x)"
  using assms by (simp_all add: relinked_def)

lemma deactivate_task_ok:
  assumes "class_ok st" "se_on_rq (ses st p)" "entity_is_task st p"
  obtains es s where "for_each_sched_entity st (Some p) = Some es" "deactivate_task clk cpu p flags st = Some s" "class_ok s"
    "hier_view s = hier_view st" "\<not> se_on_rq (ses s p)" "\<And>e. e \<notin> set es \<Longrightarrow> se_on_rq (ses s e) \<longleftrightarrow> se_on_rq (ses st e)"
    "\<And>e. se_on_rq (ses s e) \<Longrightarrow> se_on_rq (ses st e)"
proof -
  define s1 where "s1 = update_rq_clock clk cpu (if task_contributes_to_load st p
    then upd_rq cpu (\<lambda>r. r\<lparr>rq_nr_uninterruptible := rq_nr_uninterruptible r + 1\<rparr>) st else st)"
  have k: "kept st s1"
    using assms(1) unfolding s1_def
    by (intro kept_views) (simp_all add: update_rq_clock_def update_rq_clock_task_def Let_def class_view_upd core_view_upd)
  have "entity_is_task s1 p" "se_on_rq (ses s1 p)"
    using assms(2,3) kept_on [OF k] k hier_view_eq(3) [of s1 st] by (simp_all add: entity_is_task_def kept_def)
  then obtain es s where s: "for_each_sched_entity s1 (Some p) = Some es" "dequeue_task_fair cpu p flags s1 = Some s" "class_ok s"
    "hier_view s = hier_view s1" "\<not> se_on_rq (ses s p)" "\<And>e. e \<notin> set es \<Longrightarrow> se_on_rq (ses s e) \<longleftrightarrow> se_on_rq (ses s1 e)"
    "\<And>e. se_on_rq (ses s e) \<Longrightarrow> se_on_rq (ses s1 e)"
    using dequeue_task_fair_ok [OF kept_class_ok [OF k]] by metis
  have h: "hier_view s1 = hier_view st" using k by (simp add: kept_def)
  have "deactivate_task clk cpu p flags st = Some s" using s(2) by (simp add: deactivate_task_def dequeue_task_def s1_def)
  then show thesis using that [of es s] s hier_view_eq(5) [OF h] h kept_on [OF k] by simp
qed

lemma activate_task_ok:
  assumes "class_ok st" "\<not> se_on_rq (ses st p)" "entity_is_task st p" "room_for st p"
  obtains es s where "for_each_sched_entity st (Some p) = Some es" "activate_task clk cpu p flags st = Some s" "class_ok s"
    "hier_view s = hier_view st" "\<And>e. se_on_rq (ses s e) \<longleftrightarrow> se_on_rq (ses st e) \<or> e \<in> set es"
proof -
  define s1 where "s1 = update_rq_clock clk cpu (if task_contributes_to_load st p
    then upd_rq cpu (\<lambda>r. r\<lparr>rq_nr_uninterruptible := rq_nr_uninterruptible r - 1\<rparr>) st else st)"
  have k: "kept st s1"
    using assms(1) unfolding s1_def
    by (intro kept_views) (simp_all add: update_rq_clock_def update_rq_clock_task_def Let_def class_view_upd core_view_upd)
  have h: "hier_view s1 = hier_view st" using k by (simp add: kept_def)
  note f = hier_view_eq [OF h]
  have "cfs_rqs s1 = cfs_rqs st" by (simp add: s1_def update_rq_clock_def update_rq_clock_task_def Let_def)
  then have "room_for s1 p" using assms(4) f(1,5) by (simp add: room_for_def cfs_rq_of_def split: option.splits)
  moreover have "entity_is_task s1 p" "\<not> se_on_rq (ses s1 p)" using assms(2,3) kept_on [OF k] f(3) by (simp_all add: entity_is_task_def)
  ultimately obtain es s where s: "for_each_sched_entity s1 (Some p) = Some es" "enqueue_task_fair cpu p flags s1 = Some s" "class_ok s"
    "hier_view s = hier_view s1" "\<And>e. se_on_rq (ses s e) \<longleftrightarrow> se_on_rq (ses s1 e) \<or> e \<in> set es"
    using enqueue_task_fair_ok [OF kept_class_ok [OF k]] by metis
  have "activate_task clk cpu p flags st = Some s" using s(2) by (simp add: activate_task_def enqueue_task_def s1_def)
  then show thesis using that [of es s] s f(5) h kept_on [OF k] by simp
qed

lemma walk_groups:
  assumes "links_ok st" "for_each_sched_entity st (Some p) = Some es" "a \<in> set es" "a \<noteq> p"
  shows "\<not> entity_is_task st a"
  using assms(2,3,4)
proof (induction es arbitrary: p)
  case (Cons x es)
  then have x: "x = p" "for_each_sched_entity st (parent_entity st p) = Some es" by (auto elim: walk_Cons)
  then have "a \<in> set es" using Cons.prems by simp
  then obtain g where g: "parent_entity st p = Some g" using x by (cases "parent_entity st p") (auto simp: for_each_sched_entity_def)
  then have "\<not> entity_is_task st g" using links_parent [OF assms(1), of p g] by (simp add: parent_entity_def entity_is_task_def)
  then show ?case using Cons.IH [of g] x g \<open>a \<in> set es\<close> by (cases "a = g") auto
qed simp

lemma room_everywhere:
  assumes "base_ok s" "\<And>c. card (members s c) < 4294967295"
  shows "room_for s p"
proof -
  have ok: "sched_ok s" using assms(1) by (simp add: base_ok_def)
  obtain es where "for_each_sched_entity s (Some p) = Some es" using walk_total [OF ok] by blast
  moreover have "cfs_nr_running (cfs_rqs s c) \<noteq> - 1" for c
  proof
    assume "cfs_nr_running (cfs_rqs s c) = - 1"
    then have "(of_nat (card (members s c)) :: u32) = of_nat 4294967295" using nr_running_card [OF ok, of c] by simp
    then have "unat (of_nat (card (members s c)) :: u32) = unat (of_nat 4294967295 :: u32)" by (simp only:)
    then show False using assms(2) [of c] unfolding unat_of_nat by simp
  qed
  ultimately show ?thesis by (simp add: room_for_def list_all_iff)
qed

lemma move_task_ok:
  assumes ok: "hierarchy_ok st" and p: "se_on_rq (ses st p)" "entity_is_task st p" "\<And>c. cfs_curr (cfs_rqs st c) \<noteq> Some p"
      "p_sched_class (tasks st p) = fair_sched_class"
    and room: "\<And>c. card (members st c) < 4294967295"
    and cur: "p_sched_class (tasks st (rq_curr (rqs st dst))) = fair_sched_class \<Longrightarrow>
      rq_curr (rqs st dst) \<noteq> p \<and> entity_cpu st (rq_curr (rqs st dst)) = dst"
  shows "\<exists>s. move_task other clk src dst p st = Some s \<and> hierarchy_ok s \<and> se_on_rq (ses s p) \<and> entity_cpu s p = dst \<and>
    se_cfs_rq (ses s p) = tg_cfs_rq (tgs st (p_sched_task_group (tasks st p))) dst \<and>
    (\<forall>e. entity_is_task st e \<and> e \<noteq> p \<longrightarrow> se_on_rq (ses s e) = se_on_rq (ses st e) \<and> se_cfs_rq (ses s e) = se_cfs_rq (ses st e)) \<and>
    (\<forall>c. cfs_curr (cfs_rqs s c) = cfs_curr (cfs_rqs st c))"
proof -
  have c: "class_ok st" "wiring_ok st" "links_ok st" "sched_ok st" using ok by (simp_all add: hierarchy_ok_def class_ok_def base_ok_def)
  obtain es s1 where s1: "for_each_sched_entity st (Some p) = Some es" "deactivate_task clk src p 0 st = Some s1" "class_ok s1"
    "hier_view s1 = hier_view st" "\<not> se_on_rq (ses s1 p)" "\<And>e. e \<notin> set es \<Longrightarrow> se_on_rq (ses s1 e) \<longleftrightarrow> se_on_rq (ses st e)"
    "\<And>e. se_on_rq (ses s1 e) \<Longrightarrow> se_on_rq (ses st e)"
    using deactivate_task_ok [OF c(1) p(1,2), of clk src 0] by metis
  note f1 = hier_view_eq [OF s1(4)] and l1 = link_view_eq [OF hier_view_eq(6) [OF s1(4)]]
  have h1: "hierarchy_ok s1" using s1(3) c(2) wiring_link [OF f1(6)] by (simp add: hierarchy_ok_def)
  have d1: "detached s1 p" using s1(5) p(2,3) f1(3,4) by (simp add: detached_def entity_is_task_def)
  define s2 where "s2 = set_task_cpu clk p dst s1"
  have r: "relinked s1 p s2" and q2: "se_cfs_rq (ses s2 p) = tg_cfs_rq (tgs st (p_sched_task_group (tasks st p))) dst"
    using set_task_cpu_ok [OF h1 d1, of clk dst] l1 by (simp_all add: s2_def)
  note r2 = relinked_eq [OF r]
  have h2: "class_ok s2" "wiring_ok s2" using r2(1) by (simp_all add: hierarchy_ok_def)
  then have b2: "links_ok s2" "base_ok s2" by (simp_all add: class_ok_def base_ok_def)
  have "members s2 d \<subseteq> members st d" for d using r2(2) s1(7) f1(1) by (auto simp: members_def)
  then have "card (members s2 d) \<le> card (members st d)" for d
    by (rule card_mono [OF finite_members [OF c(4)]])
  then have "card (members s2 d) < 4294967295" for d using room [of d] le_less_trans by blast
  then have room2: "room_for s2 p" using room_everywhere [OF b2(2)] by blast
  have d2: "\<not> se_on_rq (ses s2 p)" "entity_is_task s2 p" using r2(3) by (simp_all add: detached_def)
  obtain es2 s3 where s3: "for_each_sched_entity s2 (Some p) = Some es2" "activate_task clk dst p 0 s2 = Some s3" "class_ok s3"
    "hier_view s3 = hier_view s2" "\<And>e. se_on_rq (ses s3 e) \<longleftrightarrow> se_on_rq (ses s2 e) \<or> e \<in> set es2"
    using activate_task_ok [OF h2(1) d2 room2, of clk dst 0] by metis
  note f3 = hier_view_eq [OF s3(4)] and l3 = link_view_eq [OF hier_view_eq(6) [OF s3(4)]]
  have h3: "hierarchy_ok s3" using s3(3) h2(2) wiring_link [OF f3(6)] by (simp add: hierarchy_ok_def)
  have "p \<in> set es2" using s3(1) by (auto elim: walk_Cons)
  then have on3: "se_on_rq (ses s3 p)" using s3(5) by simp
  have "cfs_rq_cpu (cfs_rqs st (tg_cfs_rq (tgs st t) dst)) = dst" for t using c(2) by (simp add: wiring_ok_def)
  then have cpu3: "entity_cpu s3 p = dst" by (simp add: entity_cpu_def f3(1) l3(11) q2 r2(8) l1(11))
  have cls: "p_sched_class (tasks s3 x) = p_sched_class (tasks st x)" "rq_curr (rqs s3 k) = rq_curr (rqs st k)"
      "cfs_curr (cfs_rqs s3 d) = cfs_curr (cfs_rqs st d)" for x k d
    by (simp_all add: l3(8,12) r2(7,10,12) l1(8,12) f1(4) f3(4))
  have q3: "se_cfs_rq (ses s3 e) = (if e = p then se_cfs_rq (ses s2 p) else se_cfs_rq (ses st e))" for e
    by (simp add: f3(1) r2(6) f1(1))
  have "entity_cpu s3 e = entity_cpu st e" if "e \<noteq> p" for e
    using that by (simp add: entity_cpu_def q3 l3(11) r2(8) l1(11))
  then have "p_sched_class (tasks s3 (rq_curr (rqs s3 dst))) = fair_sched_class \<Longrightarrow> entity_cpu s3 (rq_curr (rqs s3 dst)) = entity_cpu s3 p"
    using cls(1,2) cur cpu3 by simp
  moreover have "p_sched_class (tasks s3 p) = fair_sched_class" using p(4) cls(1) by simp
  ultimately obtain s where s: "check_preempt_curr other dst p 0 s3 = Some s" "kept s3 s"
    using check_preempt_curr_ok [OF h3 on3, of dst other 0] by blast
  note hs = hier_view_eq [OF conjunct1 [OF conjunct2 [OF s(2) [unfolded kept_def]]]]
  have mv: "move_task other clk src dst p st = Some s" using s1(2) s3(2) s(1) by (simp add: move_task_def s2_def Let_def)
  have ks: "se_on_rq (ses s e) = se_on_rq (ses s3 e)" "se_cfs_rq (ses s e) = se_cfs_rq (ses s3 e)"
    "entity_cpu s e = entity_cpu s3 e" "cfs_curr (cfs_rqs s d) = cfs_curr (cfs_rqs s3 d)" for e d
    using kept_on [OF s(2)] hs(1,4) link_view_eq(11) [OF hs(6)] by (simp_all add: entity_cpu_def)
  have on: "se_on_rq (ses s3 e) = se_on_rq (ses st e)" if "entity_is_task st e" "e \<noteq> p" for e
  proof -
    have "e \<notin> set es" using walk_groups [OF c(3) s1(1)] that by blast
    moreover have "entity_is_task s2 e" using that(1) by (simp add: entity_is_task_def r2(5) f1(3))
    then have "e \<notin> set es2" using walk_groups [OF b2(1) s3(1)] that(2) by blast
    ultimately show ?thesis using s3(5) s1(6) r2(4) by simp
  qed
  show ?thesis
    using mv kept_hierarchy [OF h3 s(2)] on3 cpu3 q2 on
    by (intro exI [of _ s] conjI allI impI) (simp_all add: ks q3 cls(3))
qed

subsection \<open>What h_nr_running counts\<close>

definition tasks_under :: "sched_state \<Rightarrow> nat \<Rightarrow> nat set" where
  "tasks_under st c = {p. entity_is_task st p \<and> se_on_rq (ses st p) \<and>
     (\<exists>es. for_each_sched_entity st (Some p) = Some es \<and> (\<exists>a\<in>set es. se_cfs_rq (ses st a) = c))}"

lemma walk_child:
  assumes "for_each_sched_entity st (Some p) = Some es" "a \<in> set es" "a \<noteq> p"
  shows "\<exists>b\<in>set es. parent_entity st b = Some a"
  using assms
proof (induction es arbitrary: p)
  case (Cons x es)
  then have x: "x = p" "for_each_sched_entity st (parent_entity st p) = Some es" by (auto elim: walk_Cons)
  then have a: "a \<in> set es" using Cons.prems by simp
  then obtain g where g: "parent_entity st p = Some g" using x by (cases "parent_entity st p") (auto simp: for_each_sched_entity_def)
  show ?case
  proof (cases "a = g")
    case False
    then have "\<exists>b\<in>set es. parent_entity st b = Some a" using Cons.IH [of g] x g a by simp
    then show ?thesis by auto
  qed (use g x in auto)
qed simp

lemma walk_queue_inj:
  assumes "links_ok st"
  shows "for_each_sched_entity st (Some p) = Some es \<Longrightarrow> a \<in> set es \<Longrightarrow> b \<in> set es \<Longrightarrow>
    se_cfs_rq (ses st a) = se_cfs_rq (ses st b) \<Longrightarrow> a = b"
proof (induction es arbitrary: p)
  case (Cons x es)
  then have x: "x = p" "for_each_sched_entity st (parent_entity st p) = Some es" by (auto elim: walk_Cons)
  have q: "c \<in> set es \<Longrightarrow> se_cfs_rq (ses st c) \<noteq> se_cfs_rq (ses st p)" for c
    using ancestor_queue [OF assms, of p es c] Cons.prems(1) x by simp
  show ?case
  proof (cases "a \<in> set es \<and> b \<in> set es")
    case True
    then obtain g where g: "parent_entity st p = Some g" using x by (cases "parent_entity st p") (auto simp: for_each_sched_entity_def)
    then show ?thesis using Cons.IH [of g] x True Cons.prems(4) by simp
  next
    case False
    then show ?thesis using q Cons.prems(2,3,4) x(1) by (metis set_ConsD)
  qed
qed simp

text \<open>The tasks below one entity.\<close>

definition tasks_of :: "sched_state \<Rightarrow> nat \<Rightarrow> nat set" where
  "tasks_of st e = (case se_my_q (ses st e) of None \<Rightarrow> {e} | Some q \<Rightarrow> tasks_under st q)"

lemma tasks_of_walk:
  assumes "links_ok st" "sched_ok st" "p \<in> tasks_of st e"
  shows "\<exists>es. for_each_sched_entity st (Some p) = Some es \<and> e \<in> set es"
proof (cases "se_my_q (ses st e)")
  case None
  obtain es where "for_each_sched_entity st (Some e) = Some es" using walk_total [OF assms(2)] by blast
  then show ?thesis using None assms(3) by (auto simp: tasks_of_def elim: walk_Cons)
next
  case (Some q)
  then obtain es x where p: "for_each_sched_entity st (Some p) = Some es" "x \<in> set es" "se_cfs_rq (ses st x) = q"
    using assms(3) by (auto simp: tasks_of_def tasks_under_def)
  then have "parent_entity st x = Some e" using links_parent [OF assms(1), of x e] Some by (simp add: parent_entity_def)
  then show ?thesis using walk_parent [OF p(1,2)] p(1) by blast
qed

lemma tasks_under_split:
  assumes "class_ok st"
  shows "tasks_under st c = (\<Union>e\<in>members st c. tasks_of st e)"
proof -
  have b: "links_ok st" "groups_ok st None" "sched_ok st" using assms by (simp_all add: class_ok_def base_ok_def)
  have "p \<in> (\<Union>e\<in>members st c. tasks_of st e)" if p: "p \<in> tasks_under st c" for p
  proof -
    obtain es a where p: "entity_is_task st p" "se_on_rq (ses st p)" "for_each_sched_entity st (Some p) = Some es" "a \<in> set es"
        "se_cfs_rq (ses st a) = c" using p by (auto simp: tasks_under_def)
    have a: "a \<in> members st c" using walk_queued [OF b(1,2) p(3,2,4)] p(5) by (simp add: members_def)
    have "p \<in> tasks_of st a"
    proof (cases "a = p")
      case True
      then show ?thesis using p(1) by (simp add: entity_is_task_def tasks_of_def)
    next
      case False
      obtain x where x: "x \<in> set es" "parent_entity st x = Some a" using walk_child [OF p(3,4) False] by blast
      then have "se_my_q (ses st a) = Some (se_cfs_rq (ses st x))" using links_parent [OF b(1)] by (simp add: parent_entity_def)
      then show ?thesis using p x by (auto simp: tasks_under_def tasks_of_def)
    qed
    with a show ?thesis by blast
  qed
  moreover have "p \<in> tasks_under st c" if e: "e \<in> members st c" and p: "p \<in> tasks_of st e" for p e
  proof -
    obtain es where es: "for_each_sched_entity st (Some p) = Some es" "e \<in> set es" using tasks_of_walk [OF b(1,3) p] by blast
    have "entity_is_task st p \<and> se_on_rq (ses st p)"
      using p e by (auto simp: tasks_of_def tasks_under_def entity_is_task_def members_def split: option.splits)
    then show ?thesis using es e by (auto simp: tasks_under_def members_def)
  qed
  ultimately show ?thesis by blast
qed

lemma tasks_under_count:
  assumes ok: "class_ok st" and D: "\<forall>e es. for_each_sched_entity st (Some e) = Some es \<longrightarrow> length es \<le> D"
  shows "(\<forall>e\<in>members st c. \<forall>es. for_each_sched_entity st (Some e) = Some es \<longrightarrow> D - length es < n) \<Longrightarrow>
    finite (tasks_under st c) \<and> cfs_h_nr_running (cfs_rqs st c) = of_nat (card (tasks_under st c))"
proof (induction n arbitrary: c)
  have b: "links_ok st" "groups_ok st None" "sched_ok st" "counts_ok st None 0" using ok by (simp_all add: class_ok_def base_ok_def)
  have h: "cfs_h_nr_running (cfs_rqs st c) = (\<Sum>e\<in>members st c. tasks_below st e)" for c using b(4) by (simp add: counts_ok_def)
  {
    case 0
    then have "members st c = {}" using walk_total [OF b(3)] by (metis all_not_in_conv not_less0)
    then show ?case using h [of c] tasks_under_split [OF ok, of c] by simp
  next
    case (Suc n)
    have S: "finite (tasks_of st e) \<and> tasks_below st e = of_nat (card (tasks_of st e))" if e: "e \<in> members st c" for e
    proof (cases "se_my_q (ses st e)")
      case (Some q)
      obtain es where es: "for_each_sched_entity st (Some e) = Some es" using walk_total [OF b(3)] by blast
      have "D - length as < n" if a: "a \<in> members st q" "for_each_sched_entity st (Some a) = Some as" for a as
      proof -
        have "parent_entity st a = Some e" using links_parent [OF b(1), of a e] Some a(1) by (simp add: parent_entity_def members_def)
        then have "length as = Suc (length es)" using a(2) es by (auto elim!: walk_Cons)
        moreover have "length as \<le> D" "D - length es < Suc n" using D a(2) Suc.prems e es by blast+
        ultimately show ?thesis by linarith
      qed
      then show ?thesis using Suc.IH [of q] Some by (simp add: tasks_below_def tasks_of_def)
    qed (simp add: tasks_below_def tasks_of_def)
    have disj: "\<forall>e\<in>members st c. \<forall>f\<in>members st c. e \<noteq> f \<longrightarrow> tasks_of st e \<inter> tasks_of st f = {}"
    proof (intro ballI impI equals0I)
      fix e f x assume e: "e \<in> members st c" "f \<in> members st c" "e \<noteq> f" and x: "x \<in> tasks_of st e \<inter> tasks_of st f"
      obtain es where es: "for_each_sched_entity st (Some x) = Some es" "e \<in> set es" using tasks_of_walk [OF b(1,3)] x by blast
      obtain fs where fs: "for_each_sched_entity st (Some x) = Some fs" "f \<in> set fs" using tasks_of_walk [OF b(1,3)] x by blast
      have "f \<in> set es" using es(1) fs by simp
      moreover have "se_cfs_rq (ses st e) = se_cfs_rq (ses st f)" using e(1,2) by (simp add: members_def)
      ultimately have "e = f" using walk_queue_inj [OF b(1) es] by blast
      with e(3) show False by simp
    qed
    have "card (\<Union>e\<in>members st c. tasks_of st e) = (\<Sum>e\<in>members st c. card (tasks_of st e))"
      using S disj by (intro card_UN_disjoint [OF finite_members [OF b(3)]]) blast+
    then have "cfs_h_nr_running (cfs_rqs st c) = of_nat (card (tasks_under st c))"
      using h [of c] S tasks_under_split [OF ok, of c] by simp
    moreover have "finite (tasks_under st c)"
      unfolding tasks_under_split [OF ok, of c] using S finite_members [OF b(3)] by blast
    ultimately show ?case by blast
  }
qed

lemma tasks_under_ok:
  assumes "class_ok st"
  shows "finite (tasks_under st c)" "cfs_h_nr_running (cfs_rqs st c) = of_nat (card (tasks_under st c))"
proof -
  obtain D where D: "\<forall>e es. for_each_sched_entity st (Some e) = Some es \<longrightarrow> length es \<le> D"
    using assms by (auto simp: class_ok_def base_ok_def links_ok_def)
  show "finite (tasks_under st c)" "cfs_h_nr_running (cfs_rqs st c) = of_nat (card (tasks_under st c))"
    using tasks_under_count [OF assms D, of c "Suc D"] by (simp_all add: less_Suc_eq_le)
qed

subsection \<open>A running task that enters the class\<close>

text \<open>\<open>set_curr_task_fair\<close> marks the task and its ancestors as running from the bottom up: on the way, one
  entity is not yet running although its queue has a running entity.\<close>

lemma set_curr_level:
  assumes ok: "queues_ok st" "chain_but st (Some e)" and on: "se_on_rq (ses st e)"
    and none: "cfs_curr (cfs_rqs st (se_cfs_rq (ses st e))) = None"
  shows "\<exists>s. set_next_entity (se_cfs_rq (ses st e)) e st = Some s \<and> queues_ok s \<and> chain_but s (parent_entity st e) \<and>
    members s = members st \<and> link_view s = link_view st \<and>
    (\<forall>d. cfs_curr (cfs_rqs s d) = (if d = se_cfs_rq (ses st e) then Some e else cfs_curr (cfs_rqs st d)))"
proof -
  let ?c = "se_cfs_rq (ses st e)"
  have b: "sched_ok st" "links_ok st" "weights_ok st" using ok(1) by (simp_all add: queues_ok_def base_ok_def)
  have "e \<in> members st ?c" using on by (simp add: members_def)
  then have q: "e \<in> set (queued st ?c)" using sched_ok_members [OF b(1), of ?c] none by (simp add: running_def)
  obtain s where s: "set_next_entity ?c e st = Some s" "sched_ok s" "members s = members st"
    using set_next_entity_ok [OF b(1) none q] by blast
  note sw = switch_queues [OF ok(1) class_set_next_entity [OF s(1)] s(2,3) weights_set_next_entity [OF s(1) b(3)]]
  note l = link_view_eq [OF sw(2)]
  have "chain_but s (parent_entity st e)"
    unfolding chain_but_def
  proof (intro allI impI)
    fix g q assume a: "se_my_q (ses s g) = Some q \<and> cfs_curr (cfs_rqs s q) \<noteq> None \<and> parent_entity st e \<noteq> Some g"
    then have g: "se_my_q (ses st g) = Some q" "q \<noteq> ?c"
      using links_parent [OF b(2), of e g] l(3) by (auto simp: parent_entity_def)
    then have "cfs_curr (cfs_rqs st q) \<noteq> None" using a sw(3) [of q] by simp
    then have "g = e \<or> cfs_curr (cfs_rqs st (se_cfs_rq (ses st g))) = Some g" using ok(2) g(1) by (auto simp: chain_but_def)
    then show "cfs_curr (cfs_rqs s (se_cfs_rq (ses s g))) = Some g" using none sw(3) l(1) by auto
  qed
  then show ?thesis using s(1,3) sw by blast
qed

lemma set_curr_levels_ok:
  "queues_ok st \<Longrightarrow> chain_but st x \<Longrightarrow> for_each_sched_entity st x = Some es \<Longrightarrow>
   (\<forall>a\<in>set es. se_on_rq (ses st a) \<and> cfs_curr (cfs_rqs st (se_cfs_rq (ses st a))) = None) \<Longrightarrow>
   \<exists>s. set_curr_levels es st = Some s \<and> class_ok s \<and> members s = members st \<and> link_view s = link_view st \<and>
     (\<forall>a\<in>set es. cfs_curr (cfs_rqs s (se_cfs_rq (ses s a))) = Some a) \<and>
     (\<forall>d. (\<forall>a\<in>set es. se_cfs_rq (ses st a) \<noteq> d) \<longrightarrow> cfs_curr (cfs_rqs s d) = cfs_curr (cfs_rqs st d))"
proof (induction es arbitrary: x st)
  case Nil
  then have "x = None" by (cases x) (auto elim: walk_Cons)
  then show ?case using Nil by (simp add: class_queues)
next
  case (Cons e es)
  then obtain x0 where x0: "x = Some x0" by (cases x) (auto simp: for_each_sched_entity_def)
  then have x: "x = Some e" using Cons.prems(3) by (auto elim: walk_Cons)
  then have w: "for_each_sched_entity st (Some e) = Some (e # es)" using Cons.prems(3) by simp
  have lk: "links_ok st" using Cons.prems(1) by (simp add: queues_ok_def base_ok_def)
  obtain s where s: "set_next_entity (se_cfs_rq (ses st e)) e st = Some s" "queues_ok s" "chain_but s (parent_entity st e)"
      "members s = members st" "link_view s = link_view st"
      "\<forall>d. cfs_curr (cfs_rqs s d) = (if d = se_cfs_rq (ses st e) then Some e else cfs_curr (cfs_rqs st d))"
    using set_curr_level [OF Cons.prems(1), of e] Cons.prems(2,4) x by auto
  note f = link_view_eq [OF s(5)]
  have wt: "for_each_sched_entity s (parent_entity st e) = Some es" using w f(4) by (auto elim: walk_Cons)
  have on: "se_on_rq (ses s a) = se_on_rq (ses st a)" for a using s(4) f(1) by (simp add: on_rq_members)
  have up: "\<forall>a\<in>set es. se_on_rq (ses s a) \<and> cfs_curr (cfs_rqs s (se_cfs_rq (ses s a))) = None"
    using Cons.prems(4) s(6) f(1) on ancestor_queue [OF lk w] by simp
  obtain t where t: "set_curr_levels es s = Some t" "class_ok t" "members t = members s" "link_view t = link_view s"
     "\<forall>a\<in>set es. cfs_curr (cfs_rqs t (se_cfs_rq (ses t a))) = Some a"
     "\<forall>d. (\<forall>a\<in>set es. se_cfs_rq (ses s a) \<noteq> d) \<longrightarrow> cfs_curr (cfs_rqs t d) = cfs_curr (cfs_rqs s d)"
    using Cons.IH [OF s(2,3) wt up] by blast
  have "cfs_curr (cfs_rqs t (se_cfs_rq (ses t e))) = Some e"
    using t(6) [rule_format, of "se_cfs_rq (ses st e)"] ancestor_queue [OF lk w] s(6) f(1) link_view_eq(1) [OF t(4), of e] by simp
  then show ?case using s t f(1) by (simp add: cfs_rq_of_def)
qed

lemma idle_below:
  assumes "links_ok st" "chain_ok st"
  shows "for_each_sched_entity st (Some e) = Some es \<Longrightarrow> cfs_curr (cfs_rqs st (se_cfs_rq (ses st (last es)))) = None \<Longrightarrow>
    a \<in> set es \<Longrightarrow> cfs_curr (cfs_rqs st (se_cfs_rq (ses st a))) = None"
proof (induction es arbitrary: e a)
  case (Cons x es)
  then have x: "x = e" "for_each_sched_entity st (parent_entity st e) = Some es" by (auto elim: walk_Cons)
  show ?case
  proof (cases "parent_entity st e")
    case None
    then show ?thesis using Cons.prems x by (simp add: for_each_sched_entity_def)
  next
    case (Some g)
    then have w: "for_each_sched_entity st (Some g) = Some es" using x by simp
    then have ne: "es \<noteq> []" "g \<in> set es" by (auto elim: walk_Cons)
    have up: "b \<in> set es \<Longrightarrow> cfs_curr (cfs_rqs st (se_cfs_rq (ses st b))) = None" for b
      using Cons.IH [OF w] Cons.prems(2) ne(1) by simp
    have "se_my_q (ses st g) = Some (se_cfs_rq (ses st e))" using links_parent [OF assms(1)] Some by (simp add: parent_entity_def)
    then have "cfs_curr (cfs_rqs st (se_cfs_rq (ses st e))) = None"
      using assms(2) up [OF ne(2)] unfolding chain_ok_def by (metis option.distinct(1))
    then show ?thesis using Cons.prems(3) up x(1) by auto
  qed
qed simp

lemma set_curr_task_fair_ok:
  assumes ok: "hierarchy_ok st" and p: "p = rq_curr (rqs st cpu)" "se_on_rq (ses st p)"
    and none: "cfs_curr (cfs_rqs st (rq_cfs (rqs st (entity_cpu st p)))) = None"
  shows "\<exists>s. set_curr_task_fair cpu st = Some s \<and> hierarchy_ok s \<and> members s = members st \<and>
    cfs_curr (cfs_rqs s (se_cfs_rq (ses s p))) = Some p"
proof -
  have b: "class_ok st" "sched_ok st" "links_ok st" "chain_ok st" "groups_ok st None" "wiring_ok st"
    using ok by (simp_all add: hierarchy_ok_def class_ok_def base_ok_def)
  obtain es where es: "for_each_sched_entity st (Some p) = Some es" using walk_total [OF b(2)] by blast
  have q: "queues_ok st" "chain_but st (Some p)" using b(1) by (auto simp: class_queues chain_but_def)
  have "\<forall>a\<in>set es. se_on_rq (ses st a) \<and> cfs_curr (cfs_rqs st (se_cfs_rq (ses st a))) = None"
    using walk_queued [OF b(3,5) es p(2)] idle_below [OF b(3,4) es] walk_root [OF b(3,6) es] none by simp
  from set_curr_levels_ok [OF q es this]
  obtain s where s: "set_curr_levels es st = Some s" "class_ok s" "members s = members st" "link_view s = link_view st"
     "\<forall>a\<in>set es. cfs_curr (cfs_rqs s (se_cfs_rq (ses s a))) = Some a" by blast
  have "p \<in> set es" using es by (auto elim: walk_Cons)
  then show ?thesis using s es p(1) b(6) wiring_link [OF s(4)] by (simp add: set_curr_task_fair_def hierarchy_ok_def)
qed

subsection \<open>Changing the shares of a group\<close>

lemma kept_shares:
  assumes "class_ok st"
  shows "kept st (update_cfs_shares c st)"
proof -
  have ok: "sched_ok (update_cfs_shares c st)" "weights_ok (update_cfs_shares c st)"
    using assms sched_ok_shares weights_shares by (simp_all add: class_ok_def base_ok_def)
  have m: "members (update_cfs_shares c st) = members st" using shape_cong(4) [OF shape_update_cfs_shares] .
  show ?thesis using hier_frame [OF class_update_cfs_shares m ok] class_hier [OF class_update_cfs_shares] m assms
    by (simp add: kept_def class_ok_def)
qed

lemma share_levels_ok:
  "class_ok st \<Longrightarrow> (\<forall>e\<in>set es. se_my_q (ses st e) \<noteq> None) \<Longrightarrow> \<exists>s. share_levels es st = Some s \<and> kept st s"
proof (induction es arbitrary: st)
  case (Cons e es)
  then obtain q where q: "se_my_q (ses st e) = Some q" by auto
  let ?s = "update_cfs_shares q st"
  have k: "kept st ?s" using kept_shares [OF Cons.prems(1)] .
  then have h: "hier_view ?s = hier_view st" by (simp add: kept_def)
  have "\<forall>e\<in>set es. se_my_q (ses ?s e) \<noteq> None" using Cons.prems(2) hier_view_eq(3) [OF h] by simp
  from Cons.IH [OF kept_class_ok [OF k] this] obtain s where s: "share_levels es ?s = Some s" "kept ?s s" by blast
  show ?case using s(1) q kept_trans [OF k s(2)] by (simp add: group_cfs_rq_def)
qed (simp add: kept_refl)

lemma tg_shares_levels: "share_levels es st = Some s \<Longrightarrow> tg_shares (tgs s t) = tg_shares (tgs st t)"
proof (induction es arbitrary: st)
  case (Cons e es)
  then obtain q where "share_levels es (update_cfs_shares q st) = Some s" by (auto split: bind_splits)
  then show ?case using Cons.IH class_view_eq(9) [OF class_update_cfs_shares] by metis
qed simp

lemma share_cpus_ok:
  "hierarchy_ok st \<Longrightarrow> \<exists>s. share_cpus tg cpus st = Some s \<and> kept st s \<and> tg_shares (tgs s t) = tg_shares (tgs st t)"
proof (induction cpus arbitrary: st)
  case Nil
  then show ?case by (simp add: kept_refl hierarchy_ok_def)
next
  case (Cons i cpus)
  have b: "class_ok st" "wiring_ok st" "sched_ok st" "links_ok st" using Cons.prems by (simp_all add: hierarchy_ok_def class_ok_def base_ok_def)
  obtain es where es: "for_each_sched_entity st (tg_se (tgs st tg) i) = Some es" "\<forall>e\<in>set es. se_my_q (ses st e) \<noteq> None"
  proof (cases "tg_se (tgs st tg) i")
    case None
    then show ?thesis using that [of "[]"] by (simp add: for_each_sched_entity_def)
  next
    case (Some g)
    obtain es where es: "for_each_sched_entity st (Some g) = Some es" using walk_total [OF b(3)] by blast
    have "se_my_q (ses st g) \<noteq> None" using b(2) Some by (auto simp: wiring_ok_def)
    then have "\<forall>e\<in>set es. se_my_q (ses st e) \<noteq> None" using walk_groups [OF b(4) es] by (auto simp: entity_is_task_def)
    then show ?thesis using that es Some by simp
  qed
  obtain s where s: "share_levels es st = Some s" "kept st s" using share_levels_ok [OF b(1) es(2)] by blast
  obtain u where u: "share_cpus tg cpus s = Some u" "kept s u" "tg_shares (tgs u t) = tg_shares (tgs s t)"
    using Cons.IH [OF kept_hierarchy [OF Cons.prems s(2)]] by blast
  show ?case using es(1) s(1) u(1,3) kept_trans [OF s(2) u(2)] tg_shares_levels [OF s(1)] by simp
qed

lemma hierarchy_upd_shares:
  assumes "hierarchy_ok st" "MIN_SHARES \<le> v" "v \<le> MAX_SHARES"
  shows "kept st (upd_tg tg (\<lambda>t. t\<lparr>tg_shares := v\<rparr>) st)"
proof -
  let ?s = "upd_tg tg (\<lambda>t. t\<lparr>tg_shares := v\<rparr>) st"
  have b: "base_ok st" "class_ok st" using assms(1) by (simp_all add: hierarchy_ok_def class_ok_def)
  have v: "core_view ?s = core_view st" by (simp add: core_view_def fun_eq_iff)
  have m: "members ?s = members st" by (simp add: members_def fun_eq_iff)
  have t: "tasks_below ?s = tasks_below st" by (intro ext) (simp add: tasks_below_def split: option.split)
  have "links_ok ?s = links_ok st" by (rule links_cong) simp_all
  then have "base_ok ?s" using b(1) sched_ok_core [OF v] m assms(2,3) by (auto simp: base_ok_def weights_ok_def)
  then show ?thesis using b(2) m t
    by (auto simp: kept_def class_ok_def chain_ok_def groups_ok_def counts_ok_def hier_view_def link_view_def fun_eq_iff)
qed

lemma sched_group_set_shares_ok:
  assumes ok: "hierarchy_ok st"
  shows "\<exists>r s. sched_group_set_shares possible tg shares st = Some (r, s) \<and> kept st s \<and>
    (if tg_se (tgs st tg) 0 = None then r = - EINVAL \<and> s = st
     else r = 0 \<and> tg_shares (tgs s tg) = min (max shares MIN_SHARES) MAX_SHARES)"
proof (cases "tg_se (tgs st tg) 0 = None \<or> tg_shares (tgs st tg) = min (max shares MIN_SHARES) MAX_SHARES")
  case True
  then show ?thesis using ok by (auto simp: sched_group_set_shares_def Let_def kept_refl hierarchy_ok_def)
next
  case False
  let ?v = "min (max shares MIN_SHARES) MAX_SHARES"
  let ?s = "upd_tg tg (\<lambda>t. t\<lparr>tg_shares := ?v\<rparr>) st"
  have "MIN_SHARES \<le> ?v" "?v \<le> MAX_SHARES" by (simp_all add: MIN_SHARES_def MAX_SHARES_def)
  then have k: "kept st ?s" by (intro hierarchy_upd_shares [OF ok])
  obtain u where u: "share_cpus tg possible ?s = Some u" "kept ?s u" "tg_shares (tgs u tg) = tg_shares (tgs ?s tg)"
    using share_cpus_ok [OF kept_hierarchy [OF ok k]] by blast
  show ?thesis using False u(1,3) kept_trans [OF k u(2)] by (auto simp: sched_group_set_shares_def Let_def)
qed

end
