(* ===== verification/CFS_Class_Run.thy ===== *)
theory CFS_Class_Run
  imports CFS_Lifecycle
begin

text \<open>
  Runs of the scheduling class: arbitrary sequences of the calls the core scheduler makes, each under
  the condition its caller ensures, and the properties of the methods of the class over whole states.
\<close>

subsection \<open>Runs of the scheduling class\<close>

text \<open>The calls of the core scheduler: the methods of the class, and around them the switch to another
  task and the change of the task group.  The guards are what the core scheduler establishes.\<close>

datatype class_call =
  EnqueueTask nat nat s32
| DequeueTask nat nat s32
| PickNextTask nat
| PutPrevTask nat
| TaskTick nat nat
| CheckPreempt nat nat s32
| YieldTask nat
| YieldToTask nat nat
| SwitchedFrom nat
| SetTaskCpu nat nat
| ForkTask nat nat
| MoveGroup nat nat bool
| MoveTask nat nat nat
| SetCurrTask nat
| SwitchedTo nat nat
| PrioChanged nat nat int
| SetShares "nat list" nat u64
| ContextSwitch nat nat

fun class_exec where
  "class_exec other clk (EnqueueTask cpu p flags) st = enqueue_task_fair cpu p flags st"
| "class_exec other clk (DequeueTask cpu p flags) st = dequeue_task_fair cpu p flags st"
| "class_exec other clk (PickNextTask cpu) st = map_option snd (pick_next_task_fair cpu st)"
| "class_exec other clk (PutPrevTask p) st = put_prev_task_fair p st"
| "class_exec other clk (TaskTick cpu p) st = task_tick_fair cpu p st"
| "class_exec other clk (CheckPreempt cpu p flags) st = check_preempt_wakeup cpu p flags st"
| "class_exec other clk (YieldTask cpu) st = yield_task_fair clk cpu st"
| "class_exec other clk (YieldToTask cpu p) st = map_option snd (yield_to_task_fair clk cpu p st)"
| "class_exec other clk (SwitchedFrom p) st = switched_from_fair p st"
| "class_exec other clk (SetTaskCpu p cpu) st = Some (set_task_cpu clk p cpu st)"
| "class_exec other clk (ForkTask cpu p) st = task_fork_fair clk cpu p st"
| "class_exec other clk (MoveGroup p tg b) st =
     Some (task_move_group_fair p b (upd_task p (\<lambda>t. t\<lparr>p_sched_task_group := tg\<rparr>) st))"
| "class_exec other clk (MoveTask src dst p) st = move_task other clk src dst p st"
| "class_exec other clk (SetCurrTask cpu) st = set_curr_task_fair cpu st"
| "class_exec other clk (SwitchedTo cpu p) st = switched_to_fair other cpu p st"
| "class_exec other clk (PrioChanged cpu p oldprio) st = prio_changed_fair other cpu p oldprio st"
| "class_exec other clk (SetShares possible tg shares) st = map_option snd (sched_group_set_shares possible tg shares st)"
| "class_exec other clk (ContextSwitch cpu p) st = Some (upd_rq cpu (\<lambda>r. r\<lparr>rq_curr := p\<rparr>) st)"

definition runs :: "sched_state \<Rightarrow> nat \<Rightarrow> bool" where
  "runs st p = (cfs_curr (cfs_rqs st (se_cfs_rq (ses st p))) = Some p)"

definition parked :: "sched_state \<Rightarrow> nat \<Rightarrow> bool" where
  "parked st p = (\<not> se_on_rq (ses st p) \<and> entity_is_task st p \<and> \<not> runs st p)"

definition comparable :: "sched_state \<Rightarrow> nat \<Rightarrow> nat \<Rightarrow> bool" where
  "comparable st cpu p \<longleftrightarrow> (p_sched_class (tasks st (rq_curr (rqs st cpu))) = fair_sched_class \<longrightarrow>
     entity_cpu st (rq_curr (rqs st cpu)) = entity_cpu st p)"

fun class_enabled :: "sched_state \<Rightarrow> class_call \<Rightarrow> bool" where
  "class_enabled st (EnqueueTask cpu p flags) \<longleftrightarrow> \<not> se_on_rq (ses st p) \<and> entity_is_task st p \<and> room_for st p"
| "class_enabled st (DequeueTask cpu p flags) \<longleftrightarrow> se_on_rq (ses st p) \<and> entity_is_task st p"
| "class_enabled st (PickNextTask cpu) \<longleftrightarrow> cfs_curr (cfs_rqs st (rq_cfs (rqs st cpu))) = None"
| "class_enabled st (PutPrevTask p) \<longleftrightarrow> entity_is_task st p \<and> runs st p"
| "class_enabled st (TaskTick cpu p) \<longleftrightarrow> runs st p"
| "class_enabled st (CheckPreempt cpu p flags) \<longleftrightarrow> se_on_rq (ses st p) \<and> entity_cpu st (rq_curr (rqs st cpu)) = entity_cpu st p"
| "class_enabled st (YieldTask cpu) \<longleftrightarrow> se_on_rq (ses st (rq_curr (rqs st cpu)))"
| "class_enabled st (YieldToTask cpu p) \<longleftrightarrow> se_on_rq (ses st (rq_curr (rqs st cpu)))"
| "class_enabled st (SwitchedFrom p) \<longleftrightarrow> True"
| "class_enabled st (SetTaskCpu p cpu) \<longleftrightarrow> parked st p"
| "class_enabled st (ForkTask cpu p) \<longleftrightarrow> parked st p"
| "class_enabled st (MoveGroup p tg b) \<longleftrightarrow> parked st p"
| "class_enabled st (MoveTask src dst p) \<longleftrightarrow> se_on_rq (ses st p) \<and> entity_is_task st p \<and> \<not> runs st p \<and>
     p_sched_class (tasks st p) = fair_sched_class \<and> (\<forall>c. cfs_nr_running (cfs_rqs st c) \<noteq> - 1) \<and>
     (p_sched_class (tasks st (rq_curr (rqs st dst))) = fair_sched_class \<longrightarrow>
        rq_curr (rqs st dst) \<noteq> p \<and> entity_cpu st (rq_curr (rqs st dst)) = dst)"
| "class_enabled st (SetCurrTask cpu) \<longleftrightarrow> se_on_rq (ses st (rq_curr (rqs st cpu))) \<and>
     cfs_curr (cfs_rqs st (rq_cfs (rqs st (entity_cpu st (rq_curr (rqs st cpu)))))) = None"
| "class_enabled st (SwitchedTo cpu p) \<longleftrightarrow> p_sched_class (tasks st p) = fair_sched_class \<and> comparable st cpu p"
| "class_enabled st (PrioChanged cpu p oldprio) \<longleftrightarrow> p_sched_class (tasks st p) = fair_sched_class \<and> comparable st cpu p"
| "class_enabled st (SetShares possible tg shares) \<longleftrightarrow> True"
| "class_enabled st (ContextSwitch cpu p) \<longleftrightarrow> True"

inductive class_run where
  nil: "class_run other st [] st"
| cons: "class_enabled st call \<Longrightarrow> class_exec other clk call st = Some st1 \<Longrightarrow> class_run other st1 calls st2 \<Longrightarrow>
    class_run other st ((clk, call) # calls) st2"

inductive_cases class_run_consE: "class_run other st (x # calls) st'"

lemma not_running: "class_ok st \<Longrightarrow> \<not> runs st p \<Longrightarrow> cfs_curr (cfs_rqs st c) \<noteq> Some p"
  using sched_ok_curr(2) [of st c p] by (auto simp: class_ok_def base_ok_def runs_def)

lemma parked_detached: "class_ok st \<Longrightarrow> parked st p \<Longrightarrow> detached st p"
  using not_running by (auto simp: parked_def detached_def)

lemma hierarchy_fields:
  assumes "ses s = ses st" "cfs_rqs s = cfs_rqs st" "tgs s = tgs st" "\<And>r. rq_cfs (rqs s r) = rq_cfs (rqs st r)"
  shows "hierarchy_ok s = hierarchy_ok st"
proof -
  have "sched_ok s = sched_ok st" by (rule sched_ok_core) (simp add: core_view_def assms(1-3))
  moreover have "links_ok s = links_ok st" by (rule links_cong) (simp_all add: assms(1))
  moreover have "members s = members st" by (simp add: members_def fun_eq_iff assms(1))
  moreover have "tasks_below s = tasks_below st" by (intro ext) (simp add: tasks_below_def assms(1,2) split: option.split)
  ultimately show ?thesis
    by (simp add: hierarchy_ok_def class_ok_def base_ok_def chain_ok_def groups_ok_def counts_ok_def wiring_ok_def entity_cpu_def
      weights_ok_def assms)
qed

lemma hierarchy_upd_task [simp]: "hierarchy_ok (upd_task p f st) = hierarchy_ok st"
  by (rule hierarchy_fields) simp_all

lemma parked_upd_task [simp]: "parked (upd_task p f st) = parked st"
  by (simp add: parked_def runs_def entity_is_task_def fun_eq_iff)

lemma hierarchy_context_switch: "hierarchy_ok (upd_rq cpu (\<lambda>r. r\<lparr>rq_curr := p\<rparr>) st) = hierarchy_ok st"
  by (rule hierarchy_fields) simp_all

lemma hier_hierarchy: "class_ok s \<Longrightarrow> hier_view s = hier_view st \<Longrightarrow> hierarchy_ok st \<Longrightarrow> hierarchy_ok s"
  using wiring_link [of s st] hier_view_eq(6) [of s st] by (simp add: hierarchy_ok_def)

lemma links_hierarchy: "class_ok s \<Longrightarrow> link_view s = link_view st \<Longrightarrow> hierarchy_ok st \<Longrightarrow> hierarchy_ok s"
  using wiring_link [of s st] by (simp add: hierarchy_ok_def)

lemma card_below_max:
  assumes "base_ok st" "cfs_nr_running (cfs_rqs st c) \<noteq> - 1"
  shows "card (members st c) < 4294967295"
proof -
  have "card (members st c) \<noteq> 4294967295"
  proof
    assume "card (members st c) = 4294967295"
    then have "cfs_nr_running (cfs_rqs st c) = - 1" using assms(1) nr_running_card [of st c] by (simp add: base_ok_def)
    with assms(2) show False by simp
  qed
  moreover have "card (members st c) < 4294967296" using assms(1) by (simp add: base_ok_def)
  ultimately show ?thesis by linarith
qed

lemma class_step_ok:
  assumes ok: "hierarchy_ok st" and en: "class_enabled st call"
  shows "\<exists>s. class_exec other clk call st = Some s \<and> hierarchy_ok s"
proof -
  have c: "class_ok st" "wiring_ok st" using ok by (simp_all add: hierarchy_ok_def)
  note k = kept_hierarchy [OF ok]
  show ?thesis
  proof (cases call)
    case (EnqueueTask cpu p flags)
    then have e: "\<not> se_on_rq (ses st p)" "entity_is_task st p" "room_for st p" using en by simp_all
    obtain s where "enqueue_task_fair cpu p flags st = Some s" "class_ok s" "hier_view s = hier_view st"
      using enqueue_task_fair_ok [OF c(1) e] by metis
    then show ?thesis using EnqueueTask hier_hierarchy [of s st] ok by simp
  next
    case (DequeueTask cpu p flags)
    then have e: "se_on_rq (ses st p)" "entity_is_task st p" using en by simp_all
    obtain s where "dequeue_task_fair cpu p flags st = Some s" "class_ok s" "hier_view s = hier_view st"
      using dequeue_task_fair_ok [OF c(1) e] by metis
    then show ?thesis using DequeueTask hier_hierarchy [of s st] ok by simp
  next
    case (PickNextTask cpu)
    show ?thesis
    proof (cases "cfs_nr_running (cfs_rqs st (rq_cfs (rqs st cpu))) = 0")
      case True
      then show ?thesis using PickNextTask ok by (simp add: pick_next_task_fair_def)
    next
      case False
      have "cfs_curr (cfs_rqs st (rq_cfs (rqs st cpu))) = None" using en PickNextTask by simp
      from pick_next_task_fair_ok [OF c this False]
      obtain p s where "pick_next_task_fair cpu st = Some (Some p, s)" "class_ok s" "link_view s = link_view st" by metis
      then show ?thesis using PickNextTask links_hierarchy [of s st] ok by simp
    qed
  next
    case (PutPrevTask p)
    then have e: "entity_is_task st p" "cfs_curr (cfs_rqs st (se_cfs_rq (ses st p))) = Some p" using en by (simp_all add: runs_def)
    obtain s where "put_prev_task_fair p st = Some s" "class_ok s" "link_view s = link_view st"
      using put_prev_task_fair_ok [OF c(1) e] by metis
    then show ?thesis using PutPrevTask links_hierarchy [of s st] ok by simp
  next
    case (TaskTick cpu p)
    then have e: "cfs_curr (cfs_rqs st (se_cfs_rq (ses st p))) = Some p" using en by (simp add: runs_def)
    obtain s where "task_tick_fair cpu p st = Some s" "class_ok s" "hier_view s = hier_view st"
      using task_tick_fair_ok [OF c(1) e] by metis
    then show ?thesis using TaskTick hier_hierarchy [of s st] ok by simp
  next
    case (CheckPreempt cpu p flags)
    then show ?thesis using check_preempt_wakeup_ok [OF c(1), of p cpu flags] same_root_cpu [OF ok] en k by auto
  next
    case (YieldTask cpu)
    then show ?thesis using yield_task_fair_ok [OF c(1), of cpu clk] en k by auto
  next
    case (YieldToTask cpu p)
    then show ?thesis using yield_to_task_fair_ok [OF c(1), of cpu clk p] en k by auto
  next
    case (SwitchedFrom p)
    then show ?thesis using switched_from_fair_ok [OF c(1), of p] k by auto
  next
    case (SetTaskCpu p cpu)
    then show ?thesis using set_task_cpu_ok(1) [OF ok parked_detached [OF c(1)], of p clk cpu] en relinked_eq(1) by auto
  next
    case (ForkTask cpu p)
    then show ?thesis using task_fork_fair_ok [OF ok parked_detached [OF c(1)], of p clk cpu] en relinked_eq(1) by auto
  next
    case (MoveGroup p tg b)
    let ?t = "upd_task p (\<lambda>t. t\<lparr>p_sched_task_group := tg\<rparr>) st"
    have t: "hierarchy_ok ?t" using ok by simp
    moreover have "detached ?t p" using parked_detached [of ?t p] t en MoveGroup by (simp add: hierarchy_ok_def)
    ultimately show ?thesis using task_move_group_fair_ok [of ?t p b] MoveGroup relinked_eq(1) by auto
  next
    case (MoveTask src dst p)
    then have e: "se_on_rq (ses st p)" "entity_is_task st p" "\<not> runs st p" "p_sched_class (tasks st p) = fair_sched_class"
        "\<And>c. cfs_nr_running (cfs_rqs st c) \<noteq> - 1"
        "p_sched_class (tasks st (rq_curr (rqs st dst))) = fair_sched_class \<Longrightarrow>
           rq_curr (rqs st dst) \<noteq> p \<and> entity_cpu st (rq_curr (rqs st dst)) = dst" using en by simp_all
    have "card (members st d) < 4294967295" for d using card_below_max c(1) e(5) by (simp add: class_ok_def)
    then show ?thesis using move_task_ok [OF ok e(1,2) not_running [OF c(1) e(3)] e(4) _ e(6), of other clk src] MoveTask by auto
  next
    case (SetCurrTask cpu)
    then show ?thesis using set_curr_task_fair_ok [OF ok refl, of cpu] en by auto
  next
    case (SwitchedTo cpu p)
    then show ?thesis using check_preempt_curr_ok [OF ok, of p cpu other 0] kept_resched [OF c(1), of p] en k ok
      by (auto simp: switched_to_fair_def comparable_def)
  next
    case (PrioChanged cpu p oldprio)
    then show ?thesis using check_preempt_curr_ok [OF ok, of p cpu other 0] kept_resched [OF c(1), of p] en k ok
      by (auto simp: prio_changed_fair_def comparable_def)
  next
    case (SetShares possible tg shares)
    then show ?thesis using sched_group_set_shares_ok [OF ok, of possible tg shares] k by auto
  next
    case (ContextSwitch cpu p)
    then show ?thesis using ok by (simp add: hierarchy_context_switch)
  qed
qed

lemma class_run_ok: "class_run other st calls s \<Longrightarrow> hierarchy_ok st \<Longrightarrow> hierarchy_ok s"
proof (induction rule: class_run.induct)
  case (cons st call other clk st1 calls st2)
  then show ?case using class_step_ok [of st call other clk] by auto
qed simp

subsection \<open>A concrete hierarchy\<close>

text \<open>Every CPU \<open>n\<close> has the root queue \<open>2 n\<close> and the queue \<open>2 n + 1\<close> of the task group 1, owned by the
  group entity \<open>2 n + 1\<close>.  Even identifiers are tasks on CPU 0; task 4 is in the group, and
  task 0 is the idle task every CPU runs.\<close>

definition class_sample :: sched_state where
  "class_sample = sample_state\<lparr>
     ses := (\<lambda>e. if e = 4 then sample_se (Some 1) 1 None
                 else if odd e then sample_se None (e - 1) (Some e) else sample_se None 0 None),
     cfs_rqs := (\<lambda>c. (sample_cfs (c mod 2))\<lparr>cfs_rq_cpu := c div 2\<rparr>),
     tgs := (\<lambda>t. (tgs sample_state 0)\<lparr>tg_se := (\<lambda>cpu. if t = 1 then Some (2 * cpu + 1) else None),
       tg_cfs_rq := (\<lambda>cpu. if t = 1 then 2 * cpu + 1 else 2 * cpu)\<rparr>),
     rqs := (\<lambda>cpu. (sample_rq cpu)\<lparr>rq_cfs := 2 * cpu\<rparr>),
     tasks := (\<lambda>p. sample_task\<lparr>p_sched_class := (if p = 0 then idle_sched_class else fair_sched_class), p_sched_task_group := (if p = 4 then 1 else 0)\<rparr>)\<rparr>"

lemma class_sample_ses:
  "se_on_rq (ses class_sample e) = False"
  "se_cfs_rq (ses class_sample e) = (if e = 4 then 1 else if odd e then e - 1 else 0)"
  "se_parent (ses class_sample e) = (if e = 4 then Some 1 else None)"
  "se_my_q (ses class_sample e) = (if odd e then Some e else None)"
  "weight (se_load (ses class_sample e)) = 1024"
  by (auto simp: class_sample_def sample_se_def)

lemma class_sample_cfs:
  "cfs_curr (cfs_rqs class_sample c) = None" "cfs_nr_running (cfs_rqs class_sample c) = 0"
  "cfs_h_nr_running (cfs_rqs class_sample c) = 0" "cfs_rq_cpu (cfs_rqs class_sample c) = c div 2"
  "cfs_tg (cfs_rqs class_sample c) = c mod 2" "timeline_of (cfs_rqs class_sample c) = timeline_of (sample_cfs 0)"
  "cfs_next (cfs_rqs class_sample c) = None" "cfs_last (cfs_rqs class_sample c) = None" "cfs_skip (cfs_rqs class_sample c) = None"
  "weight (cfs_load (cfs_rqs class_sample c)) = 0"
  by (simp_all add: class_sample_def sample_cfs_def timeline_of_def)

lemma class_sample_rest:
  "rq_cfs (rqs class_sample cpu) = 2 * cpu" "rq_curr (rqs class_sample cpu) = 0"
  "tg_se (tgs class_sample t) cpu = (if t = 1 then Some (2 * cpu + 1) else None)"
  "tg_cfs_rq (tgs class_sample t) cpu = (if t = 1 then 2 * cpu + 1 else 2 * cpu)" "tg_shares (tgs class_sample t) = 1024"
  "p_sched_class (tasks class_sample p) = (if p = 0 then idle_sched_class else fair_sched_class)" "p_sched_task_group (tasks class_sample p) = (if p = 4 then 1 else 0)"
  by (simp_all add: class_sample_def sample_rq_def sample_task_def sample_state_def)

lemmas class_sample_simps = class_sample_ses class_sample_cfs class_sample_rest

lemma class_sample_walk: "for_each_sched_entity class_sample (Some e) = Some (if e = 4 then [4, 1] else [e])"
proof -
  have "parent_entity class_sample = (\<lambda>e. if e = 4 then Some 1 else None)" by (simp add: parent_entity_def class_sample_simps fun_eq_iff)
  then show ?thesis by (simp add: for_each_sched_entity_def ancestors_Some)
qed

lemma hierarchy_ok_sample: "hierarchy_ok class_sample"
proof -
  have m: "members class_sample c = {}" for c by (simp add: members_def class_sample_simps)
  have q: "tree_inv (timeline_of (sample_cfs 0))" "tree_seq (timeline_of (sample_cfs 0)) = []"
    by (simp_all add: timeline_of_def tree_inv_def tree_seq_def rbt_def sample_defs)
  have "timelines_ok class_sample"
    by (simp add: timelines_ok_def m timeline_ok_def queued_def running_def class_sample_cfs q)
  moreover have "hier_ok class_sample" by (auto simp: hier_ok_def class_sample_walk class_sample_simps split: if_splits) presburger+
  moreover have "buddies_ok class_sample" "acct_ok class_sample (members class_sample)"
    by (simp_all add: buddies_ok_def acct_ok_def m class_sample_simps)
  ultimately have "sched_ok class_sample" by (simp add: sched_ok_def)
  moreover have "links_ok class_sample"
    unfolding links_ok_def class_sample_walk by (auto simp: class_sample_simps intro!: exI [of _ 2] odd_pos)
  moreover have "weights_ok class_sample" by (simp add: weights_ok_def class_sample_simps MIN_SHARES_def MAX_SHARES_def)
  moreover have "chain_ok class_sample" "groups_ok class_sample None" "counts_ok class_sample None 0"
    by (simp_all add: chain_ok_def groups_ok_def counts_ok_def m class_sample_simps)
  moreover have "wiring_ok class_sample"
    by (auto simp: wiring_ok_def entity_cpu_def class_sample_simps split: if_splits) presburger
  ultimately show ?thesis by (simp add: hierarchy_ok_def class_ok_def base_ok_def m)
qed

subsection \<open>Properties of the class methods\<close>

lemma tasks_under_links:
  assumes "link_view s = link_view st"
  shows "tasks_under s c = {p. entity_is_task st p \<and> se_on_rq (ses s p) \<and>
     (\<exists>es. for_each_sched_entity st (Some p) = Some es \<and> (\<exists>a\<in>set es. se_cfs_rq (ses st a) = c))}"
  using link_view_eq [OF assms] by (simp add: tasks_under_def entity_is_task_def)

text \<open>\<open>enqueue_task_fair\<close> queues exactly the task and those of its ancestors that were not queued:
  the tasks below a queue on the way up to the root gain this task, every other queue keeps its
  tasks, and the counter \<open>h_nr_running\<close> of every queue follows.\<close>

lemma enqueue_task_fair_exact:
  assumes "hierarchy_ok st" "\<not> se_on_rq (ses st p)" "entity_is_task st p" "room_for st p"
  shows "\<exists>es s. for_each_sched_entity st (Some p) = Some es \<and> enqueue_task_fair cpu p flags st = Some s \<and> hierarchy_ok s \<and>
    (\<forall>e. se_on_rq (ses s e) \<longleftrightarrow> se_on_rq (ses st e) \<or> e \<in> set es) \<and>
    (\<forall>c. tasks_under s c = tasks_under st c \<union> (if \<exists>a\<in>set es. se_cfs_rq (ses st a) = c then {p} else {}) \<and>
       cfs_h_nr_running (cfs_rqs s c) = of_nat (card (tasks_under s c)))"
proof -
  have c: "class_ok st" "links_ok st" using assms(1) by (simp_all add: hierarchy_ok_def class_ok_def base_ok_def)
  obtain es s where s: "for_each_sched_entity st (Some p) = Some es" "enqueue_task_fair cpu p flags st = Some s" "class_ok s"
    "hier_view s = hier_view st" "\<And>e. se_on_rq (ses s e) \<longleftrightarrow> se_on_rq (ses st e) \<or> e \<in> set es"
    using enqueue_task_fair_ok [OF c(1) assms(2-4), of cpu flags] by metis
  have p: "p \<in> set es" using s(1) by (auto elim: walk_Cons)
  have on: "entity_is_task st e \<Longrightarrow> se_on_rq (ses s e) \<longleftrightarrow> se_on_rq (ses st e) \<or> e = p" for e
    using s(5) walk_groups [OF c(2) s(1)] p by blast
  have "tasks_under s c = tasks_under st c \<union> (if \<exists>a\<in>set es. se_cfs_rq (ses st a) = c then {p} else {})" for c
    unfolding tasks_under_links [OF hier_view_eq(6) [OF s(4)]] unfolding tasks_under_def using on assms(3) s(1) by (auto; blast)
  moreover have "hierarchy_ok s" using hier_hierarchy [OF s(3,4) assms(1)] .
  ultimately show ?thesis using s(1,2,5) tasks_under_ok(2) [OF s(3)] by blast
qed

text \<open>\<open>dequeue_task_fair\<close> takes exactly this task out: no other task leaves or enters a queue, the
  ancestors whose queues became empty leave with it, and \<open>h_nr_running\<close> follows.\<close>

lemma dequeue_task_fair_exact:
  assumes "hierarchy_ok st" "se_on_rq (ses st p)" "entity_is_task st p"
  shows "\<exists>s. dequeue_task_fair cpu p flags st = Some s \<and> hierarchy_ok s \<and>
    (\<forall>c. tasks_under s c = tasks_under st c - {p} \<and> cfs_h_nr_running (cfs_rqs s c) = of_nat (card (tasks_under s c))) \<and>
    (\<forall>g q. se_my_q (ses st g) = Some q \<longrightarrow> (se_on_rq (ses s g) \<longleftrightarrow> members s q \<noteq> {}))"
proof -
  have c: "class_ok st" "links_ok st" using assms(1) by (simp_all add: hierarchy_ok_def class_ok_def base_ok_def)
  obtain es s where s: "for_each_sched_entity st (Some p) = Some es" "dequeue_task_fair cpu p flags st = Some s" "class_ok s"
    "hier_view s = hier_view st" "\<not> se_on_rq (ses s p)" "\<And>e. e \<notin> set es \<Longrightarrow> se_on_rq (ses s e) \<longleftrightarrow> se_on_rq (ses st e)"
    using dequeue_task_fair_ok [OF c(1) assms(2,3), of cpu flags] by metis
  have on: "entity_is_task st e \<Longrightarrow> se_on_rq (ses s e) \<longleftrightarrow> se_on_rq (ses st e) \<and> e \<noteq> p" for e
    using s(5,6) walk_groups [OF c(2) s(1)] by blast
  have "tasks_under s c = tasks_under st c - {p}" for c
    unfolding tasks_under_links [OF hier_view_eq(6) [OF s(4)]] unfolding tasks_under_def using on by auto
  moreover have "\<forall>g q. se_my_q (ses st g) = Some q \<longrightarrow> (se_on_rq (ses s g) \<longleftrightarrow> members s q \<noteq> {})"
    using s(3) hier_view_eq(3) [OF s(4)] by (simp add: class_ok_def groups_ok_def)
  moreover have "hierarchy_ok s" using hier_hierarchy [OF s(3,4) assms(1)] .
  ultimately show ?thesis using s(2) tasks_under_ok(2) [OF s(3)] by blast
qed

lemma walk_running:
  assumes "links_ok st" "chain_ok st"
  shows "for_each_sched_entity st (Some e) = Some es \<Longrightarrow> cfs_curr (cfs_rqs st (se_cfs_rq (ses st e))) = Some e \<Longrightarrow>
    a \<in> set es \<Longrightarrow> cfs_curr (cfs_rqs st (se_cfs_rq (ses st a))) = Some a"
proof (induction es arbitrary: e)
  case (Cons x es)
  then have x: "x = e" "for_each_sched_entity st (parent_entity st e) = Some es" by (auto elim: walk_Cons)
  show ?case
  proof (cases "a = e")
    case False
    then have "a \<in> set es" using Cons.prems(3) x by simp
    then obtain g where g: "parent_entity st e = Some g" using x by (cases "parent_entity st e") (auto simp: for_each_sched_entity_def)
    then show ?thesis using Cons.IH [of g] x chain_up(1) [OF assms Cons.prems(2) g] \<open>a \<in> set es\<close> by simp
  qed (use Cons.prems(2) in simp)
qed simp

text \<open>C5. \<open>pick_next_task_fair\<close> returns no task exactly when the root queue is empty; otherwise it ends at a
  queued task below the root queue of the CPU, and that task and all its ancestors are now the
  running entities of their queues.\<close>

theorem pick_next_task_fair_live:
  assumes "hierarchy_ok st" "cfs_curr (cfs_rqs st (rq_cfs (rqs st cpu))) = None"
  shows "if cfs_nr_running (cfs_rqs st (rq_cfs (rqs st cpu))) = 0 then pick_next_task_fair cpu st = Some (None, st)
    else \<exists>p s es. pick_next_task_fair cpu st = Some (Some p, s) \<and> hierarchy_ok s \<and> members s = members st \<and>
      p \<in> tasks_under st (rq_cfs (rqs st cpu)) \<and> for_each_sched_entity st (Some p) = Some es \<and>
      (\<forall>a\<in>set es. cfs_curr (cfs_rqs s (se_cfs_rq (ses st a))) = Some a)"
proof (cases "cfs_nr_running (cfs_rqs st (rq_cfs (rqs st cpu))) = 0")
  case True
  then show ?thesis by (simp add: pick_next_task_fair_def)
next
  case False
  have c: "class_ok st" "wiring_ok st" using assms(1) by (simp_all add: hierarchy_ok_def)
  obtain p s es where s: "pick_next_task_fair cpu st = Some (Some p, s)" "class_ok s" "members s = members st" "link_view s = link_view st"
    "entity_is_task s p" "se_on_rq (ses s p)" "cfs_curr (cfs_rqs s (se_cfs_rq (ses s p))) = Some p"
    "for_each_sched_entity st (Some p) = Some es" "\<exists>a\<in>set es. se_cfs_rq (ses st a) = rq_cfs (rqs st cpu)"
    using pick_next_task_fair_ok [OF c assms(2) False] by metis
  note f = link_view_eq [OF s(4)]
  have w: "for_each_sched_entity s (Some p) = Some es" using s(8) f(4) by simp
  have "se_on_rq (ses st p)" using s(3,6) f(1) by (simp add: on_rq_members)
  then have "p \<in> tasks_under st (rq_cfs (rqs st cpu))" using s(5,8,9) f(3) by (auto simp: tasks_under_def entity_is_task_def)
  moreover have "\<forall>a\<in>set es. cfs_curr (cfs_rqs s (se_cfs_rq (ses st a))) = Some a"
    using walk_running [OF _ _ w s(7)] s(2) f(1) by (simp add: class_ok_def base_ok_def)
  ultimately show ?thesis using False s(1,3,8) links_hierarchy [OF s(2,4) assms(1)] by auto
qed

lemma enqueued_sample:
  "\<exists>s. enqueue_task_fair 0 4 0 class_sample = Some s \<and> hierarchy_ok s \<and> hier_view s = hier_view class_sample \<and>
     (\<forall>e. se_on_rq (ses s e) \<longleftrightarrow> e = 4 \<or> e = 1)"
proof -
  have r: "room_for class_sample 4" by (simp add: room_for_def class_sample_walk class_sample_simps)
  have e: "\<not> se_on_rq (ses class_sample 4)" "entity_is_task class_sample 4" by (simp_all add: class_sample_simps entity_is_task_def)
  have c: "class_ok class_sample" using hierarchy_ok_sample by (simp add: hierarchy_ok_def)
  obtain es s where s: "for_each_sched_entity class_sample (Some 4) = Some es" "enqueue_task_fair 0 4 0 class_sample = Some s" "class_ok s"
    "hier_view s = hier_view class_sample" "\<And>x. se_on_rq (ses s x) \<longleftrightarrow> se_on_rq (ses class_sample x) \<or> x \<in> set es"
    using enqueue_task_fair_ok [OF c e r, of 0 0] by metis
  have es: "es = [4, 1]" using s(1) by (simp add: class_sample_walk)
  have "se_on_rq (ses s x) \<longleftrightarrow> x = 4 \<or> x = 1" for x using s(5) [of x] by (simp add: es class_sample_simps)
  then show ?thesis using s(2,4) hier_hierarchy [OF s(3,4) hierarchy_ok_sample] by blast
qed

text \<open>C7. What queueing means for the whole hierarchy.  \<open>enqueue_task_fair\<close> on a task that is not queued never
  fails, queues exactly the task and those of its ancestors that were not queued, and adds the task
  to the tasks below every queue on the way up to the root and to no other.  \<open>dequeue_task_fair\<close> on a queued task
  never fails, takes exactly this task out, and leaves a group queued exactly when its queue is not
  empty.  After both, \<open>h_nr_running\<close> of every queue is the number of tasks below it.\<close>

theorem task_queueing_exact:
  assumes "hierarchy_ok st" "entity_is_task st p"
  shows "if se_on_rq (ses st p)
    then \<exists>s. dequeue_task_fair cpu p flags st = Some s \<and> hierarchy_ok s \<and>
      (\<forall>c. tasks_under s c = tasks_under st c - {p} \<and> cfs_h_nr_running (cfs_rqs s c) = of_nat (card (tasks_under s c))) \<and>
      (\<forall>g q. se_my_q (ses st g) = Some q \<longrightarrow> (se_on_rq (ses s g) \<longleftrightarrow> members s q \<noteq> {}))
    else room_for st p \<longrightarrow>
      (\<exists>es s. for_each_sched_entity st (Some p) = Some es \<and> enqueue_task_fair cpu p flags st = Some s \<and> hierarchy_ok s \<and>
      (\<forall>e. se_on_rq (ses s e) \<longleftrightarrow> se_on_rq (ses st e) \<or> e \<in> set es) \<and>
      (\<forall>c. tasks_under s c = tasks_under st c \<union> (if \<exists>a\<in>set es. se_cfs_rq (ses st a) = c then {p} else {}) \<and>
         cfs_h_nr_running (cfs_rqs s c) = of_nat (card (tasks_under s c))))"
  using enqueue_task_fair_exact [OF assms(1) _ assms(2), of cpu flags] dequeue_task_fair_exact [OF assms(1) _ assms(2), of cpu flags]
  by (simp split del: if_split) (simp split: if_split)

theorem task_queueing_exact_witness:
  "\<exists>st s. enqueue_task_fair 0 4 0 class_sample = Some st \<and> dequeue_task_fair 0 4 1 st = Some s \<and>
     cfs_h_nr_running (cfs_rqs s 0) = 0"
proof -
  obtain st where st: "enqueue_task_fair 0 4 0 class_sample = Some st" "hierarchy_ok st" "hier_view st = hier_view class_sample"
    "\<forall>e. se_on_rq (ses st e) \<longleftrightarrow> e = 4 \<or> e = 1" using enqueued_sample by blast
  note f = hier_view_eq [OF st(3)]
  have e: "se_on_rq (ses st 4)" "entity_is_task st 4" "\<not> entity_is_task st 1" using st(4) f(3) by (simp_all add: entity_is_task_def class_sample_simps)
  have "tasks_under st 0 - {4} = {}" unfolding tasks_under_def using st(4) e(3) by blast
  then have n: "card (tasks_under st 0 - {4}) = 0" by (simp only: card.empty)
  obtain s where s: "dequeue_task_fair 0 4 1 st = Some s"
      "\<forall>c. tasks_under s c = tasks_under st c - {4} \<and> cfs_h_nr_running (cfs_rqs s c) = of_nat (card (tasks_under s c))"
    using task_queueing_exact [OF st(2) e(2), of 0 1] e(1) by auto
  then show ?thesis using st(1) s(2) [rule_format, of 0] by (simp add: n)
qed

theorem pick_next_task_fair_live_witness:
  "\<exists>st s. enqueue_task_fair 0 4 0 class_sample = Some st \<and> pick_next_task_fair 0 st = Some (Some 4, s) \<and>
     cfs_curr (cfs_rqs s 0) = Some 1"
proof -
  obtain st where st: "enqueue_task_fair 0 4 0 class_sample = Some st" "hierarchy_ok st" "hier_view st = hier_view class_sample"
    "\<forall>e. se_on_rq (ses st e) \<longleftrightarrow> e = 4 \<or> e = 1" using enqueued_sample by blast
  note f = hier_view_eq [OF st(3)] and l = link_view_eq [OF hier_view_eq(6) [OF st(3)]]
  have r: "rq_cfs (rqs st 0) = 0" "cfs_curr (cfs_rqs st (rq_cfs (rqs st 0))) = None" using l(7) f(4) by (simp_all add: class_sample_simps)
  have "members st 0 = {1}" using st(4) f(1) by (auto simp: members_def class_sample_simps)
  moreover have "sched_ok st" using st(2) by (simp add: hierarchy_ok_def class_ok_def base_ok_def)
  ultimately have "cfs_nr_running (cfs_rqs st 0) \<noteq> 0" using nr_running_card [of st 0] by simp
  then obtain p s es where s: "pick_next_task_fair 0 st = Some (Some p, s)" "p \<in> tasks_under st 0" "for_each_sched_entity st (Some p) = Some es"
      "\<forall>a\<in>set es. cfs_curr (cfs_rqs s (se_cfs_rq (ses st a))) = Some a"
    using pick_next_task_fair_live [OF st(2) r(2)] r(1) by auto
  have p: "p = 4" using s(2) st(4) f(3) by (auto simp: tasks_under_def entity_is_task_def class_sample_simps)
  have "es = [4, 1]" using s(3) l(4) unfolding p by (simp add: class_sample_walk)
  then show ?thesis using s(1,4) st(1) f(1) unfolding p by (simp add: class_sample_simps)
qed



text \<open>C1. Runs of the scheduling class.  After any sequence of calls of the core scheduler the hierarchy is
  consistent: \<open>nr_running\<close> is the number of entities queued on a queue, \<open>h_nr_running\<close> the number of tasks below
  it, a group entity is queued exactly when its own queue is not empty, and while a queue has a
  running entity the owner of the queue is running one level up.  And no call faults: whenever the
  condition its caller ensures holds, the method returns; no walk reads a missing parent,
  \<open>pick_next_task_fair\<close> never descends into an empty group, and \<open>check_preempt_wakeup\<close> finds the level on
  which it compares.\<close>

theorem class_run_correct:
  assumes "hierarchy_ok st" "class_run other st calls s"
  shows "hierarchy_ok s \<and>
    (\<forall>c. cfs_nr_running (cfs_rqs s c) = of_nat (card (members s c)) \<and> cfs_h_nr_running (cfs_rqs s c) = of_nat (card (tasks_under s c))) \<and>
    (\<forall>g q. se_my_q (ses s g) = Some q \<longrightarrow> (se_on_rq (ses s g) \<longleftrightarrow> members s q \<noteq> {}) \<and>
       (cfs_curr (cfs_rqs s q) \<noteq> None \<longrightarrow> runs s g)) \<and>
    (\<forall>clk call. class_enabled s call \<longrightarrow> (\<exists>s'. class_exec other clk call s = Some s'))"
proof -
  have h: "hierarchy_ok s" using class_run_ok [OF assms(2,1)] .
  then have b: "class_ok s" "sched_ok s" by (simp_all add: hierarchy_ok_def class_ok_def base_ok_def)
  have "\<forall>clk call. class_enabled s call \<longrightarrow> (\<exists>s'. class_exec other clk call s = Some s')" using class_step_ok [OF h] by blast
  moreover have "\<forall>g q. se_my_q (ses s g) = Some q \<longrightarrow> (se_on_rq (ses s g) \<longleftrightarrow> members s q \<noteq> {}) \<and>
       (cfs_curr (cfs_rqs s q) \<noteq> None \<longrightarrow> runs s g)"
    using b(1) unfolding class_ok_def groups_ok_def chain_ok_def runs_def by blast
  ultimately show ?thesis using h nr_running_card [OF b(2)] tasks_under_ok(2) [OF b(1)] by blast
qed

theorem class_run_correct_witness:
  "\<exists>st s. class_run (\<lambda>_ _ _ _. Some) class_sample [(\<lambda>_. 0, EnqueueTask 0 4 0)] st \<and>
     cfs_h_nr_running (cfs_rqs st 0) = of_nat (card (tasks_under st 0)) \<and>
     class_exec (\<lambda>_ _ _ _. Some) (\<lambda>_. 0) (PickNextTask 0) st = Some s"
proof -
  obtain st where st: "enqueue_task_fair 0 4 0 class_sample = Some st" "hier_view st = hier_view class_sample"
    using enqueued_sample by blast
  have "class_enabled class_sample (EnqueueTask 0 4 0)"
    by (simp add: entity_is_task_def room_for_def class_sample_walk class_sample_simps)
  then have r: "class_run (\<lambda>_ _ _ _. Some) class_sample [(\<lambda>_. 0, EnqueueTask 0 4 0)] st"
    using st(1) by (intro class_run.cons [OF _ _ class_run.nil]) simp_all
  have e: "class_enabled st (PickNextTask 0)" using hier_view_eq(4) [OF st(2)] by (simp add: class_sample_simps)
  note c = class_run_correct [OF hierarchy_ok_sample r]
  obtain s where "class_exec (\<lambda>_ _ _ _. Some) (\<lambda>_. 0) (PickNextTask 0) st = Some s" using c e by blast
  then show ?thesis using r c by blast
qed

end
