(* ===== verification/HMP_Domain.thy ===== *)
theory HMP_Domain
  imports CFS_Invariant "HOL-Library.Product_Lexorder"
begin

text \<open>
  CPU masks and the HMP domains: \<open>include/linux/cpumask.h\<close>, the domain set-up of
  \<open>arch/arm64/kernel/topology.c\<close>, and the functions of \<open>kernel/sched/fair.c\<close> that walk the domain
  list and look for the least loaded CPU of a domain.

  A mask is a predicate on CPU numbers; all \<open>NR_CPUS\<close> CPUs are possible, so \<open>nr_cpu_ids\<close> is \<open>NR_CPUS\<close>.
  A \<open>struct hmp_domain *\<close> is an index into the list \<open>hmp_domains\<close>, fastest domain first.  The list of
  the kernel is circular through its head; a step onto the head, which is no domain, is \<^const>\<open>None\<close>.
\<close>

subsection \<open>CPU masks\<close>

type_synonym cpumask = "nat \<Rightarrow> bool"

definition NR_CPUS :: nat where
  "NR_CPUS = 8"

definition for_each_cpu :: "cpumask \<Rightarrow> nat list" where
  "for_each_cpu m = filter m [0..<NR_CPUS]"

definition cpumask_first :: "cpumask \<Rightarrow> nat" where
  "cpumask_first m = (case for_each_cpu m of [] \<Rightarrow> NR_CPUS | c # _ \<Rightarrow> c)"

definition cpumask_and :: "cpumask \<Rightarrow> cpumask \<Rightarrow> cpumask" where
  "cpumask_and m n = (\<lambda>c. m c \<and> n c)"

definition cpumask_any_and :: "cpumask \<Rightarrow> cpumask \<Rightarrow> nat" where
  "cpumask_any_and m n = cpumask_first (cpumask_and m n)"

definition cpumask_intersects :: "cpumask \<Rightarrow> cpumask \<Rightarrow> bool" where
  "cpumask_intersects m n = list_ex (\<lambda>c. m c \<and> n c) [0..<NR_CPUS]"

definition cpumask_empty :: "cpumask \<Rightarrow> bool" where
  "cpumask_empty m = (\<not> list_ex m [0..<NR_CPUS])"

definition cpumask_clear :: cpumask where
  "cpumask_clear = (\<lambda>_. False)"

definition cpumask_setall :: cpumask where
  "cpumask_setall = (\<lambda>c. c < NR_CPUS)"

definition cpumask_of :: "nat \<Rightarrow> cpumask" where
  "cpumask_of cpu = (\<lambda>c. c = cpu)"

subsection \<open>State\<close>

record hmp_domain =
  dom_cpus :: cpumask
  dom_possible_cpus :: cpumask

datatype sched_tunable_scaling = SCHED_TUNABLESCALING_NONE | SCHED_TUNABLESCALING_LOG | SCHED_TUNABLESCALING_LINEAR

record hmp_state =
  sched :: sched_state
  sysctl_sched_tunable_scaling :: sched_tunable_scaling
  normalized_sysctl_sched_latency :: u32
  normalized_sysctl_sched_min_granularity :: u32
  normalized_sysctl_sched_wakeup_granularity :: u32
  cpu_online_mask :: cpumask
  cpu_capacity :: "nat \<Rightarrow> u64"
  min_capacity :: u64
  cpu_scale :: "nat \<Rightarrow> u64"
  hmp_domains :: "hmp_domain list"
  hmp_cpu_domain :: "nat \<Rightarrow> nat option"
  hmp_fast_cpu_mask :: cpumask
  hmp_slow_cpu_mask :: cpumask
  hmp_up_threshold :: u32
  hmp_down_threshold :: u32
  hmp_next_up_threshold :: u32
  hmp_next_down_threshold :: u32
  hmp_packing_enabled :: bool
  hmp_full_threshold :: u32

definition upd_sched :: "(sched_state \<Rightarrow> sched_state) \<Rightarrow> 'a hmp_state_scheme \<Rightarrow> 'a hmp_state_scheme" where
  "upd_sched f h = h\<lparr>sched := f (sched h)\<rparr>"

lemma upd_sched_simps [simp]:
  "sched (upd_sched f h) = f (sched h)" "cpu_online_mask (upd_sched f h) = cpu_online_mask h"
  "hmp_domains (upd_sched f h) = hmp_domains h" "hmp_cpu_domain (upd_sched f h) = hmp_cpu_domain h"
  "hmp_fast_cpu_mask (upd_sched f h) = hmp_fast_cpu_mask h" "hmp_slow_cpu_mask (upd_sched f h) = hmp_slow_cpu_mask h"
  "hmp_state.more (upd_sched f h) = hmp_state.more h"
  by (simp_all add: upd_sched_def)

subsection \<open>Setting up the domains\<close>

text \<open>\<open>arch_get_fast_and_slow_cpus\<close>: both configured masks are empty strings in the modelled
  configuration, so the capacities decide.\<close>

definition arch_get_fast_and_slow_cpus :: "'a hmp_state_scheme \<Rightarrow> cpumask \<times> cpumask" where
  "arch_get_fast_and_slow_cpus h =
     (let fast = (\<lambda>c. c < NR_CPUS \<and> min_capacity h < cpu_capacity h c);
          slow = (\<lambda>c. c < NR_CPUS \<and> \<not> min_capacity h < cpu_capacity h c)
      in if \<not> cpumask_empty fast \<and> \<not> cpumask_empty slow then (fast, slow)
         else (cpumask_clear, cpumask_setall))"

definition new_domain :: "'a hmp_state_scheme \<Rightarrow> cpumask \<Rightarrow> hmp_domain" where
  "new_domain h m = \<lparr>dom_cpus = cpumask_and (cpu_online_mask h) m, dom_possible_cpus = m\<rparr>"

definition arch_get_hmp_domains :: "'a hmp_state_scheme \<Rightarrow> 'a hmp_state_scheme" where
  "arch_get_hmp_domains h =
     (let (fast, slow) = arch_get_fast_and_slow_cpus h;
          ds = (if cpumask_empty slow then hmp_domains h else new_domain h slow # hmp_domains h)
      in h\<lparr>hmp_fast_cpu_mask := fast, hmp_slow_cpu_mask := slow, hmp_domains := new_domain h fast # ds\<rparr>)"

text \<open>The loop of \<open>hmp_cpu_mask_setup\<close> over the domains from number \<open>dc\<close> on.\<close>

fun setup_loop :: "nat \<Rightarrow> hmp_domain list \<Rightarrow> 'a hmp_state_scheme \<Rightarrow> 'a hmp_state_scheme" where
  "setup_loop dc [] h = h"
| "setup_loop dc (d # ds) h =
     (let h = (if cpumask_empty (hmp_fast_cpu_mask h) then h\<lparr>hmp_fast_cpu_mask := dom_possible_cpus d\<rparr>
               else if cpumask_empty (hmp_slow_cpu_mask h) then h\<lparr>hmp_slow_cpu_mask := dom_possible_cpus d\<rparr> else h);
          h = h\<lparr>hmp_cpu_domain := (\<lambda>c. if c \<in> set (for_each_cpu (dom_possible_cpus d)) then Some dc else hmp_cpu_domain h c)\<rparr>
      in setup_loop (Suc dc) ds h)"

definition hmp_cpu_mask_setup :: "'a hmp_state_scheme \<Rightarrow> bool \<times> 'a hmp_state_scheme" where
  "hmp_cpu_mask_setup h =
     (let h = arch_get_hmp_domains (h\<lparr>hmp_fast_cpu_mask := cpumask_clear, hmp_slow_cpu_mask := cpumask_clear\<rparr>)
      in if hmp_domains h = [] then (False, h) else (True, setup_loop 0 (hmp_domains h) h))"

fun find_domain :: "nat \<Rightarrow> nat \<Rightarrow> hmp_domain list \<Rightarrow> nat option" where
  "find_domain cpu i [] = None"
| "find_domain cpu i (d # ds) = (if dom_possible_cpus d cpu then Some i else find_domain cpu (Suc i) ds)"

definition hmp_get_hmp_domain_for_cpu :: "'a hmp_state_scheme \<Rightarrow> nat \<Rightarrow> nat option" where
  "hmp_get_hmp_domain_for_cpu h cpu = find_domain cpu 0 (hmp_domains h)"

definition upd_domain :: "nat \<Rightarrow> (hmp_domain \<Rightarrow> hmp_domain) \<Rightarrow> 'a hmp_state_scheme \<Rightarrow> 'a hmp_state_scheme" where
  "upd_domain i f h = h\<lparr>hmp_domains := (hmp_domains h)[i := f (hmp_domains h ! i)]\<rparr>"

definition hmp_online_cpu :: "nat \<Rightarrow> 'a hmp_state_scheme \<Rightarrow> 'a hmp_state_scheme" where
  "hmp_online_cpu cpu h =
     (case hmp_get_hmp_domain_for_cpu h cpu of
        Some i \<Rightarrow> upd_domain i (dom_cpus_update (\<lambda>m. m(cpu := True))) h
      | None \<Rightarrow> h)"

definition hmp_offline_cpu :: "nat \<Rightarrow> 'a hmp_state_scheme \<Rightarrow> 'a hmp_state_scheme" where
  "hmp_offline_cpu cpu h =
     (case hmp_get_hmp_domain_for_cpu h cpu of
        Some i \<Rightarrow> upd_domain i (dom_cpus_update (\<lambda>m. m(cpu := False))) h
      | None \<Rightarrow> h)"

definition num_online_cpus :: "'a hmp_state_scheme \<Rightarrow> nat" where
  "num_online_cpus h = length (for_each_cpu (cpu_online_mask h))"

fun ilog2 :: "nat \<Rightarrow> nat" where
  "ilog2 n = (if n \<le> 1 then 0 else Suc (ilog2 (n div 2)))"

declare ilog2.simps [simp del]

definition get_update_sysctl_factor :: "'a hmp_state_scheme \<Rightarrow> u32" where
  "get_update_sysctl_factor h =
     (let cpus = min (num_online_cpus h) 8
      in case sysctl_sched_tunable_scaling h of
           SCHED_TUNABLESCALING_NONE \<Rightarrow> 1
         | SCHED_TUNABLESCALING_LINEAR \<Rightarrow> of_nat cpus
         | SCHED_TUNABLESCALING_LOG \<Rightarrow> 1 + of_nat (ilog2 cpus))"

definition update_sysctl :: "'a hmp_state_scheme \<Rightarrow> 'a hmp_state_scheme" where
  "update_sysctl h =
     (let factor = get_update_sysctl_factor h
      in upd_sched (\<lambda>st. st
           \<lparr>sysctl_sched_min_granularity := factor * normalized_sysctl_sched_min_granularity h,
            sysctl_sched_latency := factor * normalized_sysctl_sched_latency h,
            sysctl_sched_wakeup_granularity := factor * normalized_sysctl_sched_wakeup_granularity h\<rparr>) h)"

text \<open>\<open>sched_proc_update_handler\<close>, after \<open>proc_dointvec_minmax\<close> has stored the value and returned \<open>ret\<close>.\<close>

definition sched_proc_update_handler :: "s32 \<Rightarrow> bool \<Rightarrow> 'a hmp_state_scheme \<Rightarrow> s32 \<times> 'a hmp_state_scheme" where
  "sched_proc_update_handler ret write h =
     (let factor = get_update_sysctl_factor h; st = sched h
      in if ret \<noteq> 0 \<or> \<not> write then (ret, h)
         else (0, (upd_sched (\<lambda>st. st\<lparr>sched_nr_latency :=
                (sysctl_sched_latency st + sysctl_sched_min_granularity st - 1) div sysctl_sched_min_granularity st\<rparr>) h)
            \<lparr>normalized_sysctl_sched_min_granularity := sysctl_sched_min_granularity st div factor,
             normalized_sysctl_sched_latency := sysctl_sched_latency st div factor,
             normalized_sysctl_sched_wakeup_granularity := sysctl_sched_wakeup_granularity st div factor\<rparr>))"

definition rq_online_fair :: "nat \<Rightarrow> 'a hmp_state_scheme \<Rightarrow> 'a hmp_state_scheme" where
  "rq_online_fair cpu h = update_sysctl (hmp_online_cpu cpu h)"

definition rq_offline_fair :: "nat \<Rightarrow> 'a hmp_state_scheme \<Rightarrow> 'a hmp_state_scheme" where
  "rq_offline_fair cpu h = update_sysctl (hmp_offline_cpu cpu h)"

subsection \<open>Walking the domain list\<close>

definition hmp_smallest_domain :: "'a hmp_state_scheme \<Rightarrow> nat option" where
  "hmp_smallest_domain h = (if hmp_domains h = [] then None else Some (length (hmp_domains h) - 1))"

definition hmp_cpu_is_fastest :: "'a hmp_state_scheme \<Rightarrow> nat \<Rightarrow> bool" where
  "hmp_cpu_is_fastest h cpu = (hmp_cpu_domain h cpu = Some 0)"

definition hmp_cpu_is_slowest :: "'a hmp_state_scheme \<Rightarrow> nat \<Rightarrow> bool option" where
  "hmp_cpu_is_slowest h cpu = do { i \<leftarrow> hmp_cpu_domain h cpu; Some (Suc i = length (hmp_domains h)) }"

definition hmp_slower_domain :: "'a hmp_state_scheme \<Rightarrow> nat \<Rightarrow> nat option" where
  "hmp_slower_domain h cpu =
     do { i \<leftarrow> hmp_cpu_domain h cpu; if Suc i < length (hmp_domains h) then Some (Suc i) else None }"

definition hmp_faster_domain :: "'a hmp_state_scheme \<Rightarrow> nat \<Rightarrow> nat option" where
  "hmp_faster_domain h cpu = do { i \<leftarrow> hmp_cpu_domain h cpu; if 0 < i then Some (i - 1) else None }"

subsection \<open>The least loaded CPU of a domain\<close>

definition last_migration :: "sched_avg \<Rightarrow> u64" where
  "last_migration avg = (if hmp_last_up_migration avg \<noteq> 0 then hmp_last_up_migration avg else hmp_last_down_migration avg)"

definition cpu_contrib :: "sched_avg \<Rightarrow> u64" where
  "cpu_contrib avg = (if load_avg_ratio avg \<noteq> 0 then 1023 else 0)"

fun min_load_loop :: "(nat \<Rightarrow> sched_avg) \<Rightarrow> nat list \<Rightarrow> u64 \<times> nat \<times> u64 \<Rightarrow> u64 \<times> nat \<times> u64" where
  "min_load_loop avg [] acc = acc"
| "min_load_loop avg (cpu # cpus) (min_load, min_cpu, min_last) =
     (let curr_last_migration = last_migration (avg cpu);
          contrib = cpu_contrib (avg cpu)
      in if contrib < min_load \<or> contrib = min_load \<and> curr_last_migration < min_last
         then min_load_loop avg cpus (contrib, cpu, curr_last_migration)
         else min_load_loop avg cpus (min_load, min_cpu, min_last))"

definition domain_min_load :: "(nat \<Rightarrow> sched_avg) \<Rightarrow> cpumask \<Rightarrow> u64 \<times> nat" where
  "domain_min_load avg m =
     (case min_load_loop avg (for_each_cpu m) (0x7fffffff, NR_CPUS, 0xffffffffffffffff) of (l, c, _) \<Rightarrow> (l, c))"

definition hmp_domain_min_load :: "'a hmp_state_scheme \<Rightarrow> nat \<Rightarrow> cpumask option \<Rightarrow> u64 \<times> nat" where
  "hmp_domain_min_load h hmpd affinity =
     domain_min_load (\<lambda>cpu. rq_avg (rqs (sched h) cpu))
       (cpumask_and (dom_cpus (hmp_domains h ! hmpd)) (case affinity of Some a \<Rightarrow> a | None \<Rightarrow> cpu_online_mask h))"

definition hmp_select_faster_cpu :: "'a hmp_state_scheme \<Rightarrow> nat \<Rightarrow> nat \<Rightarrow> nat option" where
  "hmp_select_faster_cpu h tsk cpu = do {
     d \<leftarrow> hmp_faster_domain h cpu;
     let lowest_cpu = snd (hmp_domain_min_load h d None);
     let allowed = p_cpus_allowed (tasks (sched h) tsk);
     Some (if lowest_cpu < NR_CPUS \<and> allowed lowest_cpu then lowest_cpu
           else cpumask_any_and (dom_cpus (hmp_domains h ! d)) allowed) }"

definition hmp_select_slower_cpu :: "'a hmp_state_scheme \<Rightarrow> nat \<Rightarrow> nat \<Rightarrow> nat option" where
  "hmp_select_slower_cpu h tsk cpu = do {
     d \<leftarrow> hmp_slower_domain h cpu;
     let lowest_cpu = snd (hmp_domain_min_load h d None);
     let allowed = p_cpus_allowed (tasks (sched h) tsk);
     Some (if lowest_cpu < NR_CPUS \<and> allowed lowest_cpu then lowest_cpu
           else cpumask_any_and (dom_cpus (hmp_domains h ! d)) allowed) }"

definition hmp_next_up_delay :: "nat \<Rightarrow> nat \<Rightarrow> 'a hmp_state_scheme \<Rightarrow> 'a hmp_state_scheme" where
  "hmp_next_up_delay se cpu h =
     (let now = rq_clock_task (rqs (sched h) (cpumask_first (cpu_online_mask h)));
          set_up = (\<lambda>a. a\<lparr>hmp_last_up_migration := now, hmp_last_down_migration := 0\<rparr>)
      in upd_sched (\<lambda>st. upd_rq_avg cpu set_up (upd_avg se set_up st)) h)"

definition hmp_next_down_delay :: "nat \<Rightarrow> nat \<Rightarrow> 'a hmp_state_scheme \<Rightarrow> 'a hmp_state_scheme" where
  "hmp_next_down_delay se cpu h =
     (let now = rq_clock_task (rqs (sched h) (cpumask_first (cpu_online_mask h)));
          set_down = (\<lambda>a. a\<lparr>hmp_last_down_migration := now, hmp_last_up_migration := 0\<rparr>)
      in upd_sched (\<lambda>st. upd_rq_avg cpu set_down (upd_avg se set_down st)) h)"

text \<open>\<open>hmp_task_starvation\<close>: the product is computed in 32 bits times a 64-bit constant and
  truncated to the \<open>u32\<close> variable.\<close>

definition hmp_task_starvation :: "sched_avg \<Rightarrow> u32" where
  "hmp_task_starvation a =
     (let starvation = (ucast ((ucast (usage_avg_sum a) :: u64) * NICE_0_LOAD) :: u32)
      in starvation div (runnable_avg_sum a + 1))"

definition hmp_offload_down :: "'a hmp_state_scheme \<Rightarrow> nat \<Rightarrow> nat \<Rightarrow> nat option" where
  "hmp_offload_down h cpu se = do {
     slowest \<leftarrow> hmp_cpu_is_slowest h cpu;
     if slowest then Some NR_CPUS
     else do {
       d \<leftarrow> hmp_cpu_domain h cpu;
       if fst (hmp_domain_min_load h d None) = 0 then Some NR_CPUS
       else if cfs_h_nr_running (cfs_rqs (sched h) (rq_cfs (rqs (sched h) cpu))) < 2 then Some NR_CPUS
       else if 768 < hmp_task_starvation (se_avg (ses (sched h) se)) then Some NR_CPUS
       else do {
         s \<leftarrow> hmp_slower_domain h cpu;
         let (min_usage, dest_cpu) = hmp_domain_min_load h s (Some (p_cpus_allowed (tasks (sched h) (task_of se))));
         Some (if min_usage = 0 then dest_cpu else NR_CPUS) } } }"


subsection \<open>Choosing a CPU from a mask\<close>

lemma set_for_each_cpu [simp]: "set (for_each_cpu m) = {c. c < NR_CPUS \<and> m c}"
  by (auto simp: for_each_cpu_def)

lemma sorted_for_each_cpu: "sorted_wrt (<) (for_each_cpu m)"
  by (simp add: for_each_cpu_def sorted_wrt_filter)

lemma for_each_cpu_Nil: "for_each_cpu m = [] \<longleftrightarrow> (\<forall>c < NR_CPUS. \<not> m c)"
  by (auto simp: for_each_cpu_def filter_empty_conv)

lemma cpumask_empty_iff: "cpumask_empty m \<longleftrightarrow> (\<forall>c < NR_CPUS. \<not> m c)"
  by (auto simp: cpumask_empty_def list_ex_iff)

lemma cpumask_intersects_iff: "cpumask_intersects m n \<longleftrightarrow> (\<exists>c < NR_CPUS. m c \<and> n c)"
  by (auto simp: cpumask_intersects_def list_ex_iff)

lemma cpumask_and_iff [simp]: "cpumask_and m n c \<longleftrightarrow> m c \<and> n c"
  by (simp add: cpumask_and_def)

text \<open>The contract of the functions that pick a CPU: a candidate, or \<open>NR_CPUS\<close> when there is none.  The
  candidates are the CPUs of the mask that the function's other arguments admit.\<close>

locale cpu_chooser =
  fixes select :: "'s \<Rightarrow> cpumask \<Rightarrow> nat" and cand :: "'s \<Rightarrow> cpumask \<Rightarrow> nat \<Rightarrow> bool"
  assumes select_none: "(\<And>c. c < NR_CPUS \<Longrightarrow> \<not> cand s m c) \<Longrightarrow> select s m = NR_CPUS"
    and select_member: "c < NR_CPUS \<Longrightarrow> cand s m c \<Longrightarrow> select s m < NR_CPUS \<and> cand s m (select s m)"
begin

lemma select_le: "select s m \<le> NR_CPUS"
  using select_none [of s m] select_member [of _ s m] by (metis order_le_less)

lemma select_NR_CPUS_iff: "select s m = NR_CPUS \<longleftrightarrow> (\<forall>c < NR_CPUS. \<not> cand s m c)"
  using select_none [of s m] select_member [of _ s m] by (metis less_irrefl)

lemma select_valid: "select s m \<noteq> NR_CPUS \<Longrightarrow> select s m < NR_CPUS \<and> cand s m (select s m)"
  using select_none [of s m] select_member [of _ s m] by metis

end

interpretation first: cpu_chooser "\<lambda>(_ :: unit) m. cpumask_first m" "\<lambda>_ m. m"
proof
  fix m :: cpumask and c
  assume "c < NR_CPUS" "m c"
  then have "c \<in> set (for_each_cpu m)" by simp
  then obtain x xs where "for_each_cpu m = x # xs" by (cases "for_each_cpu m") auto
  moreover from this have "x \<in> set (for_each_cpu m)" by (simp del: set_for_each_cpu)
  ultimately show "cpumask_first m < NR_CPUS \<and> m (cpumask_first m)" unfolding set_for_each_cpu by (simp add: cpumask_first_def)
next
  fix m :: cpumask
  assume "\<And>c. c < NR_CPUS \<Longrightarrow> \<not> m c"
  then have "for_each_cpu m = []" by (simp add: for_each_cpu_Nil)
  then show "cpumask_first m = NR_CPUS" by (simp add: cpumask_first_def)
qed

definition load_key :: "sched_avg \<Rightarrow> u64 \<times> u64" where
  "load_key a = (cpu_contrib a, last_migration a)"

declare less_prod_simp [simp del] less_eq_prod_simp [simp del]

lemma min_load_loop_Cons:
  "min_load_loop avg (cpu # cpus) (l, c, t) = min_load_loop avg cpus
     (if load_key (avg cpu) < (l, t) then (cpu_contrib (avg cpu), cpu, last_migration (avg cpu)) else (l, c, t))"
proof -
  have "cpu_contrib (avg cpu) < l \<or> cpu_contrib (avg cpu) = l \<and> last_migration (avg cpu) < t \<longleftrightarrow> load_key (avg cpu) < (l, t)"
    by (auto simp: load_key_def less_prod_simp)
  then show ?thesis
    unfolding min_load_loop.simps Let_def by (cases "load_key (avg cpu) < (l, t)") (simp_all only: if_True if_False)
qed

declare min_load_loop.simps(2) [simp del]

lemma min_load_loop_spec:
  assumes "min_load_loop avg cpus (l, c, t) = (l', c', t')"
  shows "(\<forall>x \<in> set cpus. (l', t') \<le> load_key (avg x)) \<and>
    ((l', c', t') = (l, c, t) \<or>
     (l', t') < (l, t) \<and> (l', t') = load_key (avg c') \<and>
     (\<exists>pre post. cpus = pre @ c' # post \<and> (\<forall>x \<in> set pre. (l', t') < load_key (avg x))))"
  using assms
proof (induction cpus arbitrary: l c t)
  case Nil
  then show ?case by simp
next
  case (Cons cpu cpus)
  let ?k = "load_key (avg cpu)"
  show ?case
  proof (cases "?k < (l, t)")
    case True
    have IH: "(\<forall>x \<in> set cpus. (l', t') \<le> load_key (avg x)) \<and>
        ((l', c', t') = (cpu_contrib (avg cpu), cpu, last_migration (avg cpu)) \<or>
         (l', t') < (cpu_contrib (avg cpu), last_migration (avg cpu)) \<and> (l', t') = load_key (avg c') \<and>
         (\<exists>pre post. cpus = pre @ c' # post \<and> (\<forall>x \<in> set pre. (l', t') < load_key (avg x))))"
      by (rule Cons.IH) (use Cons.prems True in \<open>simp add: min_load_loop_Cons\<close>)
    then consider "(l', t') = ?k" "c' = cpu"
      | pre post where "(l', t') < ?k" "(l', t') = load_key (avg c')" "cpus = pre @ c' # post"
          "\<forall>x \<in> set pre. (l', t') < load_key (avg x)"
      unfolding load_key_def by blast
    then show ?thesis
    proof cases
      case 1
      then have "cpu # cpus = [] @ c' # cpus" "\<forall>x \<in> set (cpu # cpus). (l', t') \<le> load_key (avg x)" using IH by auto
      with 1 True show ?thesis by (metis empty_iff empty_set)
    next
      case 2
      then have "(l', t') < (l, t)" using True by (meson less_trans)
      moreover have "cpu # cpus = (cpu # pre) @ c' # post" "\<forall>x \<in> set (cpu # pre). (l', t') < load_key (avg x)"
        using 2 by simp_all
      moreover have "\<forall>x \<in> set (cpu # cpus). (l', t') \<le> load_key (avg x)" using IH 2(1) by simp
      ultimately show ?thesis using 2(2) by blast
    qed
  next
    case False
    then have ge: "(l, t) \<le> ?k" by (rule leI)
    have IH: "(\<forall>x \<in> set cpus. (l', t') \<le> load_key (avg x)) \<and>
        ((l', c', t') = (l, c, t) \<or>
         (l', t') < (l, t) \<and> (l', t') = load_key (avg c') \<and>
         (\<exists>pre post. cpus = pre @ c' # post \<and> (\<forall>x \<in> set pre. (l', t') < load_key (avg x))))"
      by (rule Cons.IH) (use Cons.prems False in \<open>simp add: min_load_loop_Cons\<close>)
    show ?thesis
    proof (cases "(l', c', t') = (l, c, t)")
      case True
      then show ?thesis using IH ge by auto
    next
      case F: False
      then obtain pre post where h: "(l', t') < (l, t)" "(l', t') = load_key (avg c')" "cpus = pre @ c' # post"
          "\<forall>x \<in> set pre. (l', t') < load_key (avg x)" using IH by blast
      then have less: "(l', t') < ?k" using ge by (meson less_le_trans)
      have "cpu # cpus = (cpu # pre) @ c' # post" "\<forall>x \<in> set (cpu # pre). (l', t') < load_key (avg x)"
        using h less by simp_all
      moreover have "\<forall>x \<in> set (cpu # cpus). (l', t') \<le> load_key (avg x)" using IH less by simp
      ultimately show ?thesis using h(1,2) by blast
    qed
  qed
qed

lemma domain_min_load_none:
  assumes "\<And>c. c < NR_CPUS \<Longrightarrow> \<not> m c"
  shows "domain_min_load avg m = (0x7fffffff, NR_CPUS)"
proof -
  have "for_each_cpu m = []" using assms by (simp add: for_each_cpu_Nil)
  then show ?thesis by (simp add: domain_min_load_def)
qed

lemma domain_min_load_some:
  assumes "x < NR_CPUS" "m x" "domain_min_load avg m = (l, c)"
  shows "c < NR_CPUS" "m c" "l = cpu_contrib (avg c)"
    "y < NR_CPUS \<Longrightarrow> m y \<Longrightarrow> load_key (avg c) \<le> load_key (avg y)"
    "y < NR_CPUS \<Longrightarrow> m y \<Longrightarrow> load_key (avg y) = load_key (avg c) \<Longrightarrow> c \<le> y"
proof -
  obtain t where loop: "min_load_loop avg (for_each_cpu m) (0x7fffffff, NR_CPUS, 0xffffffffffffffff) = (l, c, t)"
    using assms(3) by (auto simp: domain_min_load_def split: prod.splits)
  have "load_key (avg x) < (0x7fffffff, 0xffffffffffffffff)" by (simp add: load_key_def cpu_contrib_def less_prod_def')
  moreover have low: "\<forall>z \<in> set (for_each_cpu m). (l, t) \<le> load_key (avg z)"
    using min_load_loop_spec [OF loop] by blast
  ultimately have "(l, t) < (0x7fffffff, 0xffffffffffffffff)" using assms(1,2) by (auto intro: le_less_trans)
  then obtain pre post where h: "(l, t) = load_key (avg c)" "for_each_cpu m = pre @ c # post"
      "\<forall>z \<in> set pre. (l, t) < load_key (avg z)"
    using min_load_loop_spec [OF loop] by auto
  then have c: "c \<in> set (for_each_cpu m)" by simp
  then show "c < NR_CPUS" "m c" by simp_all
  show "l = cpu_contrib (avg c)" using h(1) by (simp add: load_key_def)
  show "load_key (avg c) \<le> load_key (avg y)" if "y < NR_CPUS" "m y" using low h(1) that by simp
  show "c \<le> y" if "y < NR_CPUS" "m y" "load_key (avg y) = load_key (avg c)"
  proof -
    have "y \<in> set (pre @ c # post)" using that(1,2) unfolding h(2) [symmetric] by simp
    moreover have "y \<notin> set pre" using h(1,3) that(3) by force
    moreover have "sorted_wrt (<) (pre @ c # post)" using sorted_for_each_cpu [of m] unfolding h(2) .
    ultimately show ?thesis by (auto simp: sorted_wrt_append)
  qed
qed

interpretation least: cpu_chooser "\<lambda>avg m. snd (domain_min_load avg m)" "\<lambda>_ m. m"
  by standard (simp add: domain_min_load_none, metis domain_min_load_some(1,2) prod.collapse)


subsection \<open>The domain structure\<close>

text \<open>Every CPU belongs to exactly one domain, the per-CPU pointer names it, and only possible CPUs
  are marked as running in a domain.\<close>

definition hmp_ok :: "'a hmp_state_scheme \<Rightarrow> bool" where
  "hmp_ok h \<longleftrightarrow>
     (\<forall>c < NR_CPUS. \<exists>i < length (hmp_domains h). hmp_cpu_domain h c = Some i \<and> hmp_get_hmp_domain_for_cpu h c = Some i \<and>
        (\<forall>j < length (hmp_domains h). dom_possible_cpus (hmp_domains h ! j) c \<longleftrightarrow> j = i)) \<and>
     (\<forall>d \<in> set (hmp_domains h). \<forall>c. dom_cpus d c \<longrightarrow> dom_possible_cpus d c)"

text \<open>A hotplug event: the CPU and whether it goes up.\<close>

fun hotplug :: "bool \<times> nat \<Rightarrow> 'a hmp_state_scheme \<Rightarrow> 'a hmp_state_scheme" where
  "hotplug (up, cpu) h = (if up then rq_online_fair cpu h else rq_offline_fair cpu h)"

definition up_after :: "(bool \<times> nat) list \<Rightarrow> bool \<Rightarrow> nat \<Rightarrow> bool" where
  "up_after evs b c = fold (\<lambda>(up, cpu) b. if cpu = c then up else b) evs b"

lemma arch_get_split:
  assumes "arch_get_fast_and_slow_cpus h = (f, s)"
  shows "(\<exists>c < NR_CPUS. s c)" "f c \<Longrightarrow> c < NR_CPUS \<and> \<not> s c" "s c \<Longrightarrow> c < NR_CPUS" "c < NR_CPUS \<Longrightarrow> f c \<or> s c"
proof -
  have "(0 :: nat) < NR_CPUS" by (simp add: NR_CPUS_def)
  then show "\<exists>c < NR_CPUS. s c" "f c \<Longrightarrow> c < NR_CPUS \<and> \<not> s c" "s c \<Longrightarrow> c < NR_CPUS" "c < NR_CPUS \<Longrightarrow> f c \<or> s c"
    using assms
    by (auto simp: arch_get_fast_and_slow_cpus_def Let_def cpumask_empty_iff cpumask_clear_def cpumask_setall_def
        split: if_splits)
qed

lemma setup_two_domains:
  assumes "\<not> cpumask_empty (hmp_slow_cpu_mask h)"
  shows "setup_loop 0 [d0, d1] h =
    h\<lparr>hmp_fast_cpu_mask := (if \<not> cpumask_empty (hmp_fast_cpu_mask h) then hmp_fast_cpu_mask h
         else if cpumask_empty (dom_possible_cpus d0) then dom_possible_cpus d1 else dom_possible_cpus d0),
       hmp_cpu_domain := (\<lambda>c. if c < NR_CPUS \<and> dom_possible_cpus d1 c then Some 1
         else if c < NR_CPUS \<and> dom_possible_cpus d0 c then Some 0 else hmp_cpu_domain h c)\<rparr>"
  using assms
  by (cases "cpumask_empty (hmp_fast_cpu_mask h)"; cases "cpumask_empty (dom_possible_cpus d0)") (simp_all add: Let_def cong: if_cong)

lemma setup_result:
  assumes "hmp_domains h = []" "arch_get_fast_and_slow_cpus h = (f, s)"
  defines "h' \<equiv> snd (hmp_cpu_mask_setup h)"
  shows "fst (hmp_cpu_mask_setup h)" "hmp_domains h' = [new_domain h f, new_domain h s]"
    "c < NR_CPUS \<Longrightarrow> hmp_cpu_domain h' c = Some (if s c then 1 else 0)"
    "hmp_fast_cpu_mask h' = (if cpumask_empty f then s else f)" "hmp_slow_cpu_mask h' = s"
proof -
  let ?h = "h\<lparr>hmp_fast_cpu_mask := cpumask_clear, hmp_slow_cpu_mask := cpumask_clear\<rparr>"
  have a: "arch_get_fast_and_slow_cpus ?h = (f, s)" using assms(2) by (simp add: arch_get_fast_and_slow_cpus_def)
  have ne: "\<not> cpumask_empty s" using arch_get_split(1) [OF assms(2)] by (auto simp: cpumask_empty_iff)
  have g: "arch_get_hmp_domains ?h = h\<lparr>hmp_fast_cpu_mask := f, hmp_slow_cpu_mask := s, hmp_domains := [new_domain h f, new_domain h s]\<rparr>"
    using a ne assms(1) by (simp add: arch_get_hmp_domains_def new_domain_def)
  show "fst (hmp_cpu_mask_setup h)" by (simp add: hmp_cpu_mask_setup_def g Let_def del: setup_loop.simps)
  have h': "h' = setup_loop 0 [new_domain h f, new_domain h s]
      (h\<lparr>hmp_fast_cpu_mask := f, hmp_slow_cpu_mask := s, hmp_domains := [new_domain h f, new_domain h s]\<rparr>)"
    by (simp add: h'_def hmp_cpu_mask_setup_def g Let_def del: setup_loop.simps)
  show "hmp_domains h' = [new_domain h f, new_domain h s]" "hmp_slow_cpu_mask h' = s"
    "hmp_fast_cpu_mask h' = (if cpumask_empty f then s else f)"
    unfolding h' by (subst setup_two_domains; simp add: ne new_domain_def)+
  show "hmp_cpu_domain h' c = Some (if s c then 1 else 0)" if "c < NR_CPUS"
    unfolding h' using that arch_get_split(4) [OF assms(2) that]
    by (subst setup_two_domains; cases "s c"; simp add: ne new_domain_def)
qed

lemma setup_ok:
  assumes "hmp_domains h = []"
  shows "hmp_ok (snd (hmp_cpu_mask_setup h))"
proof -
  obtain f s where fs: "arch_get_fast_and_slow_cpus h = (f, s)" by fastforce
  note r = setup_result [OF assms fs] and sp = arch_get_split [OF fs]
  have "\<exists>i < length [new_domain h f, new_domain h s]. hmp_cpu_domain (snd (hmp_cpu_mask_setup h)) c = Some i \<and>
      find_domain c 0 [new_domain h f, new_domain h s] = Some i \<and>
      (\<forall>j < length [new_domain h f, new_domain h s]. dom_possible_cpus ([new_domain h f, new_domain h s] ! j) c \<longleftrightarrow> j = i)"
    if "c < NR_CPUS" for c
    using sp(2) [of c] sp(4) [OF that] r(3) [OF that]
    by (cases "s c") (auto simp: new_domain_def nth_Cons split: nat.splits)
  moreover have "\<forall>d \<in> set [new_domain h f, new_domain h s]. \<forall>c. dom_cpus d c \<longrightarrow> dom_possible_cpus d c"
    by (auto simp: new_domain_def)
  ultimately show ?thesis unfolding hmp_ok_def hmp_get_hmp_domain_for_cpu_def r(2) by blast
qed

lemma find_domain_possible:
  "map dom_possible_cpus ds = map dom_possible_cpus ds' \<Longrightarrow> find_domain c n ds = find_domain c n ds'"
proof (induction ds arbitrary: ds' n)
  case (Cons d ds)
  then obtain d' ds'' where "ds' = d' # ds''" by (cases ds') auto
  with Cons show ?case by simp
qed simp

lemma nth_upd: "xs[i := x] ! j = (if i = j \<and> i < length xs then x else xs ! j)"
  by (cases "i < length xs") (simp_all add: list_update_beyond)

lemma update_sysctl_simps [simp]:
  "hmp_domains (update_sysctl h) = hmp_domains h" "hmp_cpu_domain (update_sysctl h) = hmp_cpu_domain h"
  by (simp_all add: update_sysctl_def Let_def)

lemma hotplug_upd:
  "hotplug (up, cpu) h = update_sysctl (case hmp_get_hmp_domain_for_cpu h cpu of
     Some i \<Rightarrow> upd_domain i (dom_cpus_update (\<lambda>m. m(cpu := up))) h | None \<Rightarrow> h)"
  by (cases "hmp_get_hmp_domain_for_cpu h cpu"; cases up) (simp_all add: rq_online_fair_def rq_offline_fair_def hmp_online_cpu_def hmp_offline_cpu_def)

declare hotplug.simps [simp del]

lemma hotplug_possible:
  "map dom_possible_cpus (hmp_domains (hotplug e h)) = map dom_possible_cpus (hmp_domains h)"
  by (cases e) (auto simp: hotplug_upd upd_domain_def nth_upd split: option.splits intro!: nth_equalityI)

lemma hotplug_cpu_domain [simp]: "hmp_cpu_domain (hotplug e h) = hmp_cpu_domain h"
  by (cases e) (simp add: hotplug_upd upd_domain_def split: option.split)

lemma find_domain_Some:
  "find_domain c n ds = Some k \<Longrightarrow> n \<le> k \<and> k - n < length ds \<and> dom_possible_cpus (ds ! (k - n)) c"
proof (induction c n ds rule: find_domain.induct)
  case (2 cpu i d ds)
  then show ?case by (auto split: if_splits simp: nth_Cons')
qed simp

lemma hotplug_dom_cpus:
  assumes "hmp_get_hmp_domain_for_cpu h c = Some i" "j < length (hmp_domains h)"
  shows "dom_cpus (hmp_domains (hotplug (up, cpu) h) ! j) c =
    (if cpu = c \<and> j = i then up else dom_cpus (hmp_domains h ! j) c)"
  using assms find_domain_Some [OF assms(1) [unfolded hmp_get_hmp_domain_for_cpu_def]] by (auto simp: hotplug_upd upd_domain_def nth_upd split: option.split)

lemma hotplug_ok:
  assumes "hmp_ok h"
  shows "hmp_ok (hotplug e h)"
proof -
  obtain up cpu where e: "e = (up, cpu)" by (cases e)
  let ?h = "hotplug e h"
  have len: "length (hmp_domains ?h) = length (hmp_domains h)"
    using hotplug_possible [of e h] by (metis length_map)
  have poss: "dom_possible_cpus (hmp_domains ?h ! j) = dom_possible_cpus (hmp_domains h ! j)"
    if "j < length (hmp_domains h)" for j using hotplug_possible [of e h] that len by (metis nth_map)
  have find: "hmp_get_hmp_domain_for_cpu ?h c = hmp_get_hmp_domain_for_cpu h c" for c
    unfolding hmp_get_hmp_domain_for_cpu_def by (rule find_domain_possible [OF hotplug_possible])
  have "dom_possible_cpus d c" if d: "d \<in> set (hmp_domains ?h)" "dom_cpus d c" for d c
  proof -
    obtain j where j: "j < length (hmp_domains h)" "d = hmp_domains ?h ! j" using d(1) len by (auto simp: in_set_conv_nth)
    have old: "dom_cpus (hmp_domains h ! j) c \<Longrightarrow> dom_possible_cpus (hmp_domains h ! j) c"
      using assms j(1) by (simp add: hmp_ok_def)
    show ?thesis
    proof (cases "hmp_get_hmp_domain_for_cpu h cpu")
      case None
      then show ?thesis using d(2) j old e by (simp add: hotplug_upd)
    next
      case (Some i)
      then have "dom_possible_cpus (hmp_domains h ! i) cpu"
        unfolding hmp_get_hmp_domain_for_cpu_def using find_domain_Some by fastforce
      with Some d(2) j old e poss show ?thesis
        by (auto simp: hotplug_upd upd_domain_def nth_upd split: if_splits)
    qed
  qed
  with assms show ?thesis by (auto simp: hmp_ok_def len find poss)
qed

lemma hotplugs_ok: "hmp_ok h \<Longrightarrow> hmp_ok (fold hotplug evs h)"
  by (induction evs arbitrary: h) (simp_all add: hotplug_ok)

lemma hotplugs_frame:
  "hmp_cpu_domain (fold hotplug evs h) = hmp_cpu_domain h"
  "map dom_possible_cpus (hmp_domains (fold hotplug evs h)) = map dom_possible_cpus (hmp_domains h)"
  by (induction evs arbitrary: h) (simp_all add: hotplug_possible)

lemma hotplugs_dom_cpus:
  assumes "hmp_get_hmp_domain_for_cpu h c = Some i" "j < length (hmp_domains h)"
  shows "dom_cpus (hmp_domains (fold hotplug evs h) ! j) c =
    (if j = i then up_after evs (dom_cpus (hmp_domains h ! j) c) c else dom_cpus (hmp_domains h ! j) c)"
  using assms
proof (induction evs arbitrary: h)
  case (Cons e evs)
  obtain up cpu where e: "e = (up, cpu)" by (cases e)
  have "length (hmp_domains (hotplug e h)) = length (hmp_domains h)"
    using hotplug_possible [of e h] by (metis length_map)
  moreover have "hmp_get_hmp_domain_for_cpu (hotplug e h) c = hmp_get_hmp_domain_for_cpu h c"
    unfolding hmp_get_hmp_domain_for_cpu_def by (rule find_domain_possible [OF hotplug_possible])
  ultimately show ?case
    using Cons hotplug_dom_cpus [OF Cons.prems, of up cpu] by (auto simp: e up_after_def)
qed (simp add: up_after_def)


subsection \<open>Properties\<close>

text \<open>A system of four big and four little CPUs on top of the sample scheduler state, CPU 3 not yet online.\<close>

definition sample_hmp :: hmp_state where
  "sample_hmp = \<lparr>sched = sample_state, sysctl_sched_tunable_scaling = SCHED_TUNABLESCALING_LOG,
     normalized_sysctl_sched_latency = 6000000, normalized_sysctl_sched_min_granularity = 750000,
     normalized_sysctl_sched_wakeup_granularity = 1000000, cpu_online_mask = (\<lambda>c. c < 8 \<and> c \<noteq> 3),
     cpu_capacity = (\<lambda>c. if c < 4 then 606 else 1441), min_capacity = 606, cpu_scale = (\<lambda>c. if c < 4 then 430 else 1024),
     hmp_domains = [], hmp_cpu_domain = (\<lambda>_. None), hmp_fast_cpu_mask = cpumask_clear, hmp_slow_cpu_mask = cpumask_clear,
     hmp_up_threshold = 1023, hmp_down_threshold = 0, hmp_next_up_threshold = 4096, hmp_next_down_threshold = 4096,
     hmp_packing_enabled = True, hmp_full_threshold = 650\<rparr>"

text \<open>C13. After \<open>hmp_cpu_mask_setup\<close> and any sequence of CPUs going up and down, every CPU belongs to
  exactly one domain, its per-CPU pointer is that domain and the search of
  \<open>hmp_get_hmp_domain_for_cpu\<close> finds it, every domain's mask of running CPUs is within its possible
  CPUs, and a CPU is in the mask of its domain and of no other, exactly while it is up.\<close>

theorem hmp_domains_wellformed:
  fixes h :: hmp_state and evs :: "(bool \<times> nat) list"
  assumes "hmp_domains h = []"
  defines "h' \<equiv> fold hotplug evs (snd (hmp_cpu_mask_setup h))"
  shows "hmp_ok h' \<and>
    (\<forall>c < NR_CPUS. \<forall>j < length (hmp_domains h').
       dom_cpus (hmp_domains h' ! j) c \<longleftrightarrow> hmp_cpu_domain h' c = Some j \<and> up_after evs (cpu_online_mask h c) c)"
proof (intro conjI allI impI)
  let ?s = "snd (hmp_cpu_mask_setup h)"
  have ok: "hmp_ok ?s" using assms(1) by (rule setup_ok)
  then show "hmp_ok h'" unfolding h'_def by (rule hotplugs_ok)
  fix c j
  assume c: "c < NR_CPUS" and "j < length (hmp_domains h')"
  then have j: "j < length (hmp_domains ?s)"
    using hotplugs_frame(2) [of evs ?s] unfolding h'_def by (metis length_map)
  from ok c obtain i where i: "hmp_cpu_domain ?s c = Some i" "hmp_get_hmp_domain_for_cpu ?s c = Some i"
    and "\<forall>j < length (hmp_domains ?s). dom_possible_cpus (hmp_domains ?s ! j) c \<longleftrightarrow> j = i"
    unfolding hmp_ok_def by blast
  then have poss: "dom_possible_cpus (hmp_domains ?s ! j) c \<longleftrightarrow> j = i" using j by blast
  obtain f s where fs: "arch_get_fast_and_slow_cpus h = (f, s)" by fastforce
  have "dom_cpus (hmp_domains ?s ! j) c \<longleftrightarrow> cpu_online_mask h c \<and> dom_possible_cpus (hmp_domains ?s ! j) c"
    using j unfolding setup_result(2) [OF assms(1) fs] by (auto simp: new_domain_def less_Suc_eq)
  then show "dom_cpus (hmp_domains h' ! j) c \<longleftrightarrow> hmp_cpu_domain h' c = Some j \<and> up_after evs (cpu_online_mask h c) c"
    using hotplugs_dom_cpus [OF i(2) j, of evs] i(1) poss by (auto simp: h'_def hotplugs_frame(1))
qed

theorem hmp_domains_wellformed_witness:
  "hmp_ok (fold hotplug [(True, 3), (False, 7)] (snd (hmp_cpu_mask_setup sample_hmp)))"
  using hmp_domains_wellformed [of sample_hmp "[(True, 3), (False, 7)]"] by (simp add: sample_hmp_def)


definition busy_hmp :: hmp_state where
  "busy_hmp = upd_sched (upd_rq_avg 4 (load_avg_ratio_update (\<lambda>_. 300))) (snd (hmp_cpu_mask_setup sample_hmp))"


text \<open>C40. On a system whose CPUs all have the same capacity the HMP set-up does not do what its comment
  says (call all cores fast): every CPU is in the slow domain, behind an empty fastest domain, so no
  CPU is in the fastest domain and \<open>hmp_faster_domain\<close> of every CPU has no CPU at all, while both
  \<open>hmp_fast_cpu_mask\<close> and \<open>hmp_slow_cpu_mask\<close> hold every CPU.\<close>

theorem homogeneous_setup_all_slow:
  fixes h :: hmp_state
  assumes "hmp_domains h = []" "\<And>c. c < NR_CPUS \<Longrightarrow> cpu_capacity h c = min_capacity h" "cpu < NR_CPUS"
  defines "h' \<equiv> snd (hmp_cpu_mask_setup h)"
  shows "\<not> hmp_cpu_is_fastest h' cpu \<and> hmp_cpu_is_slowest h' cpu = Some True \<and>
    (\<exists>d. hmp_faster_domain h' cpu = Some d \<and> cpumask_empty (dom_possible_cpus (hmp_domains h' ! d))) \<and>
    hmp_fast_cpu_mask h' cpu \<and> hmp_slow_cpu_mask h' cpu"
proof -
  have fs: "arch_get_fast_and_slow_cpus h = (cpumask_clear, cpumask_setall)"
    using assms(2) by (auto simp: arch_get_fast_and_slow_cpus_def Let_def cpumask_empty_iff)
  have e: "cpumask_empty cpumask_clear" by (simp add: cpumask_empty_iff cpumask_clear_def)
  note r = setup_result [OF assms(1) fs, folded h'_def]
  have all: "cpumask_setall cpu" using assms(3) by (simp add: cpumask_setall_def)
  show ?thesis
    using r(2,4,5) r(3) [OF assms(3)] all e
    by (simp add: hmp_cpu_is_fastest_def hmp_cpu_is_slowest_def hmp_faster_domain_def new_domain_def)
qed

theorem homogeneous_setup_all_slow_witness:
  "hmp_cpu_is_slowest (snd (hmp_cpu_mask_setup (sample_hmp\<lparr>cpu_capacity := (\<lambda>_. 606)\<rparr>))) 2 = Some True"
  using homogeneous_setup_all_slow [of "sample_hmp\<lparr>cpu_capacity := (\<lambda>_. 606)\<rparr>" 2]
  by (simp add: sample_hmp_def NR_CPUS_def)

end
