(* ===== verification/HMP_Select.thy ===== *)
theory HMP_Select
  imports HMP_Domain
begin

text \<open>
  The selection of a CPU by the enhanced HMP scheduler of \<open>kernel/sched/fair.c\<close>: cluster statistics and
  the dynamic migration thresholds, the least loaded CPU of a cluster, the migration checks in both
  directions and the choice of a run queue for a waking or new task.

  The statistics are C \<open>int\<close>s, kept at their width; where an \<open>int\<close> meets an \<open>unsigned long\<close> it is sign
  extended and the operation is unsigned, as in C.  Frequency invariance and architecture capacities are
  off in the modelled configuration; trace points are left out.
\<close>

subsection \<open>Load and length of a CPU\<close>

definition root_cfs :: "sched_state \<Rightarrow> nat \<Rightarrow> cfs_rq" where
  "root_cfs st cpu = cfs_rqs st (rq_cfs (rqs st cpu))"

definition hmp_se_load :: "sched_state \<Rightarrow> nat \<Rightarrow> u64" where
  "hmp_se_load st se = load_avg_ratio (se_avg (ses st se))"

definition hmp_cfs_load :: "sched_state \<Rightarrow> nat \<Rightarrow> u64" where
  "hmp_cfs_load st cpu = load_avg_ratio (cfs_avg (root_cfs st cpu))"

definition cfs_pending_load :: "sched_state \<Rightarrow> nat \<Rightarrow> u64" where
  "cfs_pending_load st cpu = pending_load (cfs_avg (root_cfs st cpu))"

definition rq_length :: "sched_state \<Rightarrow> nat \<Rightarrow> u32" where
  "rq_length st cpu = rq_nr_running (rqs st cpu) + nr_pending (cfs_avg (root_cfs st cpu))"

subsection \<open>Cluster statistics\<close>

definition HMP_GB :: u32 where
  "HMP_GB = 0x1000"

definition HMP_SELECT_RQ :: u32 where
  "HMP_SELECT_RQ = 0x2000"

definition HMP_MAX_LOAD :: s64 where
  "HMP_MAX_LOAD = NICE_0_LOAD - 1"

record clb_stats =
  clb_ncpu :: s32
  clb_ntask :: s32
  clb_load_avg :: s32
  clb_cpu_capacity :: s32
  clb_cpu_power :: s32
  clb_acap :: s32
  clb_scaled_acap :: s32
  clb_scaled_atask :: s32
  clb_threshold :: s32
  clb_nr_normal_prio_task :: s32
  clb_nr_dequeuing_low_prio :: s32

record clb_env =
  bstats :: clb_stats
  lstats :: clb_stats
  btarget :: nat
  ltarget :: nat
  bcpus :: cpumask
  lcpus :: cpumask
  clb_flags :: u32
  mcheck_status :: u32
  mcheck_result :: bool

definition zero_clb :: clb_stats where
  "zero_clb = \<lparr>clb_ncpu = 0, clb_ntask = 0, clb_load_avg = 0, clb_cpu_capacity = 0, clb_cpu_power = 0, clb_acap = 0,
     clb_scaled_acap = 0, clb_scaled_atask = 0, clb_threshold = 0, clb_nr_normal_prio_task = 0,
     clb_nr_dequeuing_low_prio = 0\<rparr>"

fun collect_loop :: "'a hmp_state_scheme \<Rightarrow> nat list \<Rightarrow> clb_stats \<Rightarrow> clb_stats" where
  "collect_loop h [] s = s"
| "collect_loop h (cpu # cpus) s =
     (let q = root_cfs (sched h) cpu
      in collect_loop h cpus
        (if cpu_online_mask h cpu
         then s\<lparr>clb_ncpu := clb_ncpu s + 1, clb_ntask := clb_ntask s + cfs_h_nr_running q,
            clb_load_avg := clb_load_avg s + ucast (load_avg_ratio (cfs_avg q)),
            clb_nr_normal_prio_task := clb_nr_normal_prio_task s + nr_normal_prio (cfs_avg q),
            clb_nr_dequeuing_low_prio := clb_nr_dequeuing_low_prio s + nr_dequeuing_low_prio (cfs_avg q)\<rparr>
         else s))"

definition hmp_scale_down :: "s32 \<Rightarrow> s32" where
  "hmp_scale_down w = signed_drop_bit 4 w"

definition collect_cluster_stats :: "'a hmp_state_scheme \<Rightarrow> clb_stats \<Rightarrow> cpumask \<Rightarrow> nat \<Rightarrow> clb_stats" where
  "collect_cluster_stats h clbs cluster_cpus target =
     (let s = collect_loop h (for_each_cpu cluster_cpus) clbs;
          q = root_cfs (sched h) target;
          ratio = (ucast (load_avg_ratio (cfs_avg q)) :: s32);
          capacity = (ucast HMP_MAX_LOAD :: s32);
          acap = capacity - ratio
      in if clb_ncpu s = 0 \<or> target = NR_CPUS \<or> \<not> cluster_cpus target then s
         else s\<lparr>clb_cpu_power := ucast (cpu_scale h target), clb_cpu_capacity := capacity,
           clb_load_avg := s32_div (clb_load_avg s) (clb_ncpu s),
           clb_acap := acap, clb_scaled_acap := hmp_scale_down acap,
           clb_scaled_atask := hmp_scale_down (capacity - cfs_h_nr_running q * ratio)\<rparr>)"

subsection \<open>Migration thresholds\<close>

definition POSITIVE :: "s32 \<Rightarrow> s32" where
  "POSITIVE x = (if sint x < 0 then 0 else x)"

definition adj_threshold :: "clb_env \<Rightarrow> clb_env" where
  "adj_threshold env =
     (let b = bstats env; l = lstats env;
          b_nacap = POSITIVE (s32_div (clb_scaled_acap b * clb_cpu_power b) (clb_cpu_power l + 1));
          b_natask = POSITIVE (s32_div (clb_scaled_atask b * clb_cpu_power b) (clb_cpu_power l + 1));
          l_nacap = POSITIVE (clb_scaled_acap l);
          l_natask = POSITIVE (clb_scaled_atask b);
          d = (scast ((b_nacap + l_nacap) * (b_natask + l_natask) + 1) :: s64);
          up = HMP_MAX_LOAD - s64_div (HMP_MAX_LOAD * scast b_nacap * scast b_natask) d;
          down = s64_div (HMP_MAX_LOAD * scast l_nacap * scast l_natask) d
      in env\<lparr>bstats := b\<lparr>clb_threshold := ucast up\<rparr>, lstats := l\<lparr>clb_threshold := ucast down\<rparr>\<rparr>)"

definition sched_update_clbstats :: "'a hmp_state_scheme \<Rightarrow> clb_env \<Rightarrow> clb_env" where
  "sched_update_clbstats h env = adj_threshold
     (env\<lparr>bstats := collect_cluster_stats h (bstats env) (bcpus env) (btarget env),
          lstats := collect_cluster_stats h (lstats env) (lcpus env) (ltarget env)\<rparr>)"

definition HMP_RATIO :: "s32 \<Rightarrow> s32" where
  "HMP_RATIO v = s32_div (v * 17) 10"

definition hmp_pos :: "s32 \<Rightarrow> s32" where
  "hmp_pos v = (if sint v < 0 then 0 else v)"

text \<open>\<open>hmp_dynamic_threshold\<close>, the alternative to \<^const>\<open>adj_threshold\<close> under
  \<open>USE_HMP_DYNAMIC_THRESHOLD\<close>: the compound assignments are unsigned.\<close>

definition hmp_dynamic_threshold :: "'a hmp_state_scheme \<Rightarrow> clb_env \<Rightarrow> clb_env" where
  "hmp_dynamic_threshold h env =
     (let L = lstats env; B = bstats env;
          diff = hmp_up_threshold h - hmp_down_threshold h;
          B_acap = hmp_pos (HMP_RATIO (clb_scaled_acap B));
          B_atask = hmp_pos (HMP_RATIO (clb_scaled_atask B));
          L_acap = hmp_pos (clb_scaled_acap L);
          L_atask = hmp_pos (clb_scaled_atask L);
          down = diff * ((L_acap + 1) * (L_atask + 1)) div (B_acap + L_acap + 1) div (B_atask + L_atask + 1);
          up = diff * ((B_acap + 1) * (B_atask + 1)) div (B_acap + L_acap + 1) div (B_atask + L_atask + 1)
      in env\<lparr>lstats := L\<lparr>clb_threshold := hmp_down_threshold h + down\<rparr>,
             bstats := B\<lparr>clb_threshold := hmp_up_threshold h - up\<rparr>\<rparr>)"

subsection \<open>The least loaded CPU of a cluster\<close>

definition hmp_caller_is_gb :: "u32 \<Rightarrow> bool" where
  "hmp_caller_is_gb caller = (caller = HMP_GB)"

definition hmp_cpu_is_fast :: "'a hmp_state_scheme \<Rightarrow> nat \<Rightarrow> bool" where
  "hmp_cpu_is_fast h cpu = hmp_fast_cpu_mask h cpu"

definition hmp_cpu_is_slow :: "'a hmp_state_scheme \<Rightarrow> nat \<Rightarrow> bool" where
  "hmp_cpu_is_slow h cpu = hmp_slow_cpu_mask h cpu"

definition hmp_up_stable :: "'a hmp_state_scheme \<Rightarrow> nat \<Rightarrow> bool" where
  "hmp_up_stable h cpu =
     (let now = cfs_rq_clock_task (sched h) (rq_cfs (rqs (sched h) cpu))
      in \<not> drop_bit 10 (now - hmp_last_up_migration (cfs_avg (root_cfs (sched h) cpu))) < ucast (hmp_next_up_threshold h))"

definition hmp_down_stable :: "'a hmp_state_scheme \<Rightarrow> nat \<Rightarrow> bool" where
  "hmp_down_stable h cpu =
     (let now = cfs_rq_clock_task (sched h) (rq_cfs (rqs (sched h) cpu))
      in \<not> drop_bit 10 (now - hmp_last_down_migration (cfs_avg (root_cfs (sched h) cpu))) < ucast (hmp_next_down_threshold h))"

definition hmp_cpu_stable :: "'a hmp_state_scheme \<Rightarrow> nat \<Rightarrow> bool" where
  "hmp_cpu_stable h cpu = (if hmp_cpu_is_fast h cpu then hmp_up_stable h cpu else hmp_down_stable h cpu)"

definition cpu_wload :: "sched_state \<Rightarrow> nat \<Rightarrow> u64" where
  "cpu_wload st cpu = (hmp_cfs_load st cpu + 1 + cfs_pending_load st cpu) * ucast (rq_length st cpu)"

fun select_loop :: "(nat \<Rightarrow> bool) \<Rightarrow> (nat \<Rightarrow> u64) \<Rightarrow> int \<Rightarrow> nat list \<Rightarrow> nat \<times> u64 \<Rightarrow> nat \<times> u64" where
  "select_loop skip wload prev [] acc = acc"
| "select_loop skip wload prev (cur # cpus) (target, target_wload) =
     (if skip cur then select_loop skip wload prev cpus (target, target_wload)
      else if wload cur < target_wload then select_loop skip wload prev cpus (cur, wload cur)
      else if wload cur = target_wload \<and> int cur = prev then select_loop skip wload prev cpus (cur, target_wload)
      else select_loop skip wload prev cpus (target, target_wload))"

definition hmp_select_cpu :: "'a hmp_state_scheme \<Rightarrow> u32 \<Rightarrow> nat \<Rightarrow> cpumask \<Rightarrow> int \<Rightarrow> nat" where
  "hmp_select_cpu h caller p msk prev =
     (let srcp = cpumask_and (cpu_online_mask h) msk;
          allowed = p_cpus_allowed (tasks (sched h) p);
          target = cpumask_any_and srcp allowed;
          skip = (\<lambda>cur. \<not> cpu_online_mask h cur \<or> \<not> allowed cur \<or> hmp_caller_is_gb caller \<and> \<not> hmp_cpu_stable h cur)
      in if target = NR_CPUS then target
         else fst (select_loop skip (cpu_wload (sched h)) prev (for_each_cpu msk) (target, cpu_wload (sched h) target)))"

subsection \<open>Migration checks\<close>

definition hmp_fast_cpu_has_spare_cycles :: "clb_stats \<Rightarrow> u64 \<Rightarrow> bool" where
  "hmp_fast_cpu_has_spare_cycles B cpu_load =
     (cpu_load < scast (HMP_RATIO (clb_cpu_capacity B) - signed_drop_bit 2 (clb_cpu_capacity B)))"

definition hmp_task_fast_cpu_afford :: "sched_state \<Rightarrow> clb_stats \<Rightarrow> nat \<Rightarrow> nat \<Rightarrow> bool" where
  "hmp_task_fast_cpu_afford st B se cpu =
     (0 < sint (clb_acap B) \<and> hmp_fast_cpu_has_spare_cycles B (hmp_se_load st se + hmp_cfs_load st cpu))"

definition hmp_fast_cpu_oversubscribed :: "sched_state \<Rightarrow> u32 \<Rightarrow> clb_stats \<Rightarrow> nat \<Rightarrow> nat \<Rightarrow> bool" where
  "hmp_fast_cpu_oversubscribed st caller B se cpu =
     (if hmp_caller_is_gb caller then \<not> hmp_fast_cpu_has_spare_cycles B (hmp_cfs_load st cpu)
      else \<not> hmp_task_fast_cpu_afford st B se cpu)"

definition hmp_task_slow_cpu_afford :: "sched_state \<Rightarrow> clb_stats \<Rightarrow> nat \<Rightarrow> bool" where
  "hmp_task_slow_cpu_afford st L se = (0 < sint (clb_acap L) \<and> hmp_se_load st se \<le> scast (clb_acap L))"

definition hmp_low_prio_task_up_rejected :: "sched_state \<Rightarrow> nat \<Rightarrow> clb_stats \<Rightarrow> clb_stats \<Rightarrow> bool" where
  "hmp_low_prio_task_up_rejected st p B L =
     (task_low_priority st (p_prio (tasks st p)) \<and>
      (sint (clb_ncpu B) \<le> sint (clb_ntask B) \<or> clb_nr_normal_prio_task L \<noteq> 0) \<and> hmp_se_load st p < 800)"

definition hmp_low_prio_task_down_allowed :: "sched_state \<Rightarrow> nat \<Rightarrow> clb_stats \<Rightarrow> clb_stats \<Rightarrow> bool" where
  "hmp_low_prio_task_down_allowed st p B L =
     (task_low_priority st (p_prio (tasks st p)) \<and> clb_nr_dequeuing_low_prio B = 0 \<and>
      sint (clb_ncpu B) \<le> sint (clb_ntask B) \<and> clb_nr_normal_prio_task L \<noteq> 0 \<and> hmp_se_load st p < 800)"

definition HMP_BIG_NOT_OVERSUBSCRIBED :: u32 where "HMP_BIG_NOT_OVERSUBSCRIBED = 0x01"
definition HMP_BIG_CAPACITY_INSUFFICIENT :: u32 where "HMP_BIG_CAPACITY_INSUFFICIENT = 0x02"
definition HMP_LITTLE_CAPACITY_INSUFFICIENT :: u32 where "HMP_LITTLE_CAPACITY_INSUFFICIENT = 0x04"
definition HMP_LOW_PRIORITY_FILTER :: u32 where "HMP_LOW_PRIORITY_FILTER = 0x08"
definition HMP_BIG_BUSY_LITTLE_IDLE :: u32 where "HMP_BIG_BUSY_LITTLE_IDLE = 0x10"
definition HMP_BIG_IDLE :: u32 where "HMP_BIG_IDLE = 0x20"
definition HMP_MIGRATION_APPROVED :: u32 where "HMP_MIGRATION_APPROVED = 0x100"
definition HMP_TASK_UP_MIGRATION :: u32 where "HMP_TASK_UP_MIGRATION = 0x200"
definition HMP_TASK_DOWN_MIGRATION :: u32 where "HMP_TASK_DOWN_MIGRATION = 0x400"

unbundle bit_operations_syntax

definition check :: "clb_env \<Rightarrow> u32 \<Rightarrow> bool \<Rightarrow> clb_env" where
  "check env flags result = env\<lparr>mcheck_status := clb_flags env OR flags, mcheck_result := result\<rparr>"

definition hmp_up_migration :: "'a hmp_state_scheme \<Rightarrow> nat \<Rightarrow> nat \<Rightarrow> nat \<Rightarrow> clb_env \<Rightarrow> bool \<times> clb_env" where
  "hmp_up_migration h curr_cpu target_cpu se env =
     (let st = sched h; p = task_of se; L = lstats env; B = bstats env;
          env' = (if clb_ncpu L = 0 \<or> clb_ncpu B = 0 \<or> bcpus env curr_cpu
                     \<or> \<not> cpumask_intersects (bcpus env) (p_cpus_allowed (tasks st p))
             then check env HMP_TASK_UP_MIGRATION False
             else if \<not> hmp_up_stable h target_cpu then check env HMP_TASK_UP_MIGRATION False
             else if hmp_low_prio_task_up_rejected st p B L
             then check env (HMP_TASK_UP_MIGRATION OR HMP_LOW_PRIORITY_FILTER) False
             else if rq_length st target_cpu = 0
             then check env (HMP_TASK_UP_MIGRATION OR HMP_BIG_IDLE OR HMP_MIGRATION_APPROVED) True
             else if \<not> hmp_task_fast_cpu_afford st B se target_cpu
             then check env (HMP_TASK_UP_MIGRATION OR HMP_BIG_CAPACITY_INSUFFICIENT) False
             else if scast (clb_threshold B) < hmp_se_load st se
             then check env (HMP_TASK_UP_MIGRATION OR HMP_MIGRATION_APPROVED) True
             else check env HMP_TASK_UP_MIGRATION False)
      in (mcheck_result env', env'))"

definition hmp_down_migration :: "nat \<Rightarrow> nat \<Rightarrow> nat \<Rightarrow> clb_env \<Rightarrow> 'a hmp_state_scheme \<Rightarrow> bool \<times> clb_env \<times> 'a hmp_state_scheme" where
  "hmp_down_migration curr_cpu target_cpu se env h =
     (let st = sched h; p = task_of se; L = lstats env; B = bstats env; caller = clb_flags env;
          filtered = hmp_low_prio_task_down_allowed st p B L;
          down = (\<lambda>flags r. check env (HMP_TASK_DOWN_MIGRATION OR flags) r)
      in if clb_ncpu L = 0 \<or> clb_ncpu B = 0 \<or> lcpus env curr_cpu
             \<or> \<not> cpumask_intersects (lcpus env) (p_cpus_allowed (tasks st p))
         then (False, down 0 False, h)
         else if \<not> hmp_down_stable h target_cpu then (False, down 0 False, h)
         else if rq_length st target_cpu = 0 \<and> caller = HMP_SELECT_RQ \<and> 0 < rq_length st curr_cpu
         then (True, down (HMP_BIG_BUSY_LITTLE_IDLE OR HMP_MIGRATION_APPROVED) True, h)
         else if filtered
         then (True, down (HMP_LOW_PRIORITY_FILTER OR HMP_MIGRATION_APPROVED) True,
               upd_sched (upd_cfs_avg (rq_cfs (rqs st curr_cpu)) (nr_dequeuing_low_prio_update (\<lambda>n. n + 1))) h)
         else if \<not> hmp_fast_cpu_oversubscribed st caller B se curr_cpu
         then (False, down HMP_BIG_NOT_OVERSUBSCRIBED False, h)
         else if \<not> hmp_task_slow_cpu_afford st L se
         then (False, down HMP_LITTLE_CAPACITY_INSUFFICIENT False, h)
         else if hmp_se_load st se \<le> scast (clb_threshold L)
         then (True, down HMP_MIGRATION_APPROVED True, h)
         else (False, down 0 False, h))"

subsection \<open>Run queue selection\<close>

definition SD_BALANCE_EXEC :: u32 where "SD_BALANCE_EXEC = 0x0004"
definition SD_BALANCE_FORK :: u32 where "SD_BALANCE_FORK = 0x0008"
definition SD_BALANCE_WAKE :: u32 where "SD_BALANCE_WAKE = 0x0010"

definition task_created :: "u32 \<Rightarrow> bool" where
  "task_created f = (f = SD_BALANCE_EXEC \<or> f = SD_BALANCE_FORK)"

definition new_clbenv :: "'a hmp_state_scheme \<Rightarrow> u32 \<Rightarrow> nat \<Rightarrow> nat \<Rightarrow> clb_env" where
  "new_clbenv h flags b l = \<lparr>bstats = zero_clb, lstats = zero_clb, btarget = b, ltarget = l,
     bcpus = hmp_fast_cpu_mask h, lcpus = hmp_slow_cpu_mask h, clb_flags = flags, mcheck_status = 0, mcheck_result = False\<rparr>"

definition add_pending :: "nat \<Rightarrow> nat \<Rightarrow> sched_state \<Rightarrow> sched_state" where
  "add_pending cpu se st = upd_cfs_avg (rq_cfs (rqs st cpu))
     (\<lambda>a. a\<lparr>nr_pending := nr_pending a + 1, pending_load := pending_load a + hmp_se_load st se\<rparr>) st"

definition assign_cluster :: "u32 \<Rightarrow> nat \<Rightarrow> nat \<Rightarrow> nat \<Rightarrow> nat \<Rightarrow> 'a hmp_state_scheme \<Rightarrow> nat \<times> 'a hmp_state_scheme" where
  "assign_cluster sd_flag p prev_cpu B_target L_target h =
     (let created = (task_created sd_flag \<and> \<not> task_low_priority (sched h) (p_prio (tasks (sched h) p)))
      in if created \<and> rq_length (sched h) B_target = 0 then (B_target, h)
         else if created \<and> rq_length (sched h) L_target = 0 then (L_target, h)
         else let env = sched_update_clbstats h (new_clbenv h HMP_SELECT_RQ B_target L_target);
                  (up, env) = hmp_up_migration h L_target B_target p env
              in if up then (B_target, h)
                 else let (down, env, h) = hmp_down_migration B_target L_target p env h
                      in (if down then L_target else if hmp_cpu_is_slow h prev_cpu then L_target else B_target, h))"

definition hmp_select_task_rq_fair :: "u32 \<Rightarrow> nat \<Rightarrow> nat \<Rightarrow> nat \<Rightarrow> 'a hmp_state_scheme \<Rightarrow> nat \<times> 'a hmp_state_scheme" where
  "hmp_select_task_rq_fair sd_flag p prev_cpu new_cpu h =
     (if NR_CPUS \<le> prev_cpu then (new_cpu, h)
      else
        let B_target = hmp_select_cpu h HMP_SELECT_RQ p (hmp_fast_cpu_mask h) (int prev_cpu);
            L_target = hmp_select_cpu h HMP_SELECT_RQ p (hmp_slow_cpu_mask h) (int prev_cpu);
            (cpu, h) = (if num_online_cpus h = 1 then (new_cpu, h)
              else if B_target = NR_CPUS \<and> L_target = NR_CPUS then (new_cpu, h)
              else if B_target = NR_CPUS then (L_target, h)
              else if L_target = NR_CPUS then (B_target, h)
              else assign_cluster sd_flag p prev_cpu B_target L_target h);
            cpu = (if NR_CPUS \<le> cpu then prev_cpu else cpu)
        in (cpu, upd_sched (add_pending cpu p) h))"


subsection \<open>Correctness of the CPU choice\<close>

lemma select_loop_spec:
  assumes "select_loop skip wload prev cpus (t, w) = (t', w')"
  shows "w' \<le> w \<and> (\<forall>c \<in> set cpus. skip c \<or> w' \<le> wload c) \<and>
    (t' = t \<and> w' = w \<or> t' \<in> set cpus \<and> \<not> skip t' \<and> w' = wload t') \<and>
    (t' = t \<and> w' = w \<or> w' < w \<or> int t' = prev) \<and>
    (\<forall>c \<in> set cpus. \<not> skip c \<and> int c = prev \<and> wload c = w' \<longrightarrow> t' = c)"
  using assms
proof (induction cpus arbitrary: t w)
  case (Cons x xs)
  let ?P = "\<lambda>cpus t w. w' \<le> w \<and> (\<forall>c \<in> set cpus. skip c \<or> w' \<le> wload c) \<and>
    (t' = t \<and> w' = w \<or> t' \<in> set cpus \<and> \<not> skip t' \<and> w' = wload t') \<and>
    (t' = t \<and> w' = w \<or> w' < w \<or> int t' = prev) \<and>
    (\<forall>c \<in> set cpus. \<not> skip c \<and> int c = prev \<and> wload c = w' \<longrightarrow> t' = c)"
  have IH: "?P xs t1 w1" if "select_loop skip wload prev xs (t1, w1) = (t', w')" for t1 w1
    using that by (rule Cons.IH)
  show ?case
  proof (cases "skip x")
    case True
    then have "?P xs t w" using Cons.prems by (intro IH) simp
    with True show ?thesis by auto
  next
    case False
    consider "wload x < w" | "wload x = w" "int x = prev" | "w \<le> wload x" "wload x = w \<longrightarrow> int x \<noteq> prev"
      by (cases "wload x < w"; cases "wload x = w \<and> int x = prev") (auto simp: not_less)
    then show ?thesis
    proof cases
      case 1
      then have P: "?P xs x (wload x)" using Cons.prems False by (intro IH) simp
      then have "w' \<le> wload x" by (rule conjunct1)
      then have less: "w' < w" using 1 by (rule order_le_less_trans)
      have "t' = x" if "int x = prev" "wload x = w'" using P that by (metis of_nat_eq_iff order_less_irrefl)
      with P less False show ?thesis by (simp add: less_imp_le) metis
    next
      case 2
      then have P: "?P xs x w" using Cons.prems False by (intro IH) simp
      have "t' = x" if "wload x = w'" using P that 2 by (metis of_nat_eq_iff order_less_irrefl)
      with P 2 False show ?thesis by (simp only: list.set insert_iff ball_simps simp_thms) (intro conjI; metis)
    next
      case 3
      then have nl: "\<not> wload x < w" "\<not> (wload x = w \<and> int x = prev)" by (auto simp: not_less)
      have P: "?P xs t w" using Cons.prems False nl by (intro IH) (simp only: select_loop.simps if_False)
      then have le: "w' \<le> w" by (rule conjunct1)
      then have "w' \<le> wload x" using 3(1) by (rule order_trans)
      moreover have "\<not> (int x = prev \<and> wload x = w')"
      proof (intro notI, elim conjE)
        assume "int x = prev" "wload x = w'"
        then have "w < wload x" using 3 by (simp add: order_less_le)
        with \<open>wload x = w'\<close> le show False by (simp add: not_less [symmetric])
      qed
      ultimately show ?thesis using False P by (simp, blast)
    qed
  qed
qed auto

lemma hmp_select_cpu_spec:
  fixes caller :: u32 and prev :: int
  assumes cand: "c < NR_CPUS" "msk c" "cpu_online_mask h c" "p_cpus_allowed (tasks (sched h) p) c"
  defines "r \<equiv> hmp_select_cpu h caller p msk prev"
    and "eligible \<equiv> \<lambda>c. caller \<noteq> HMP_GB \<or> hmp_cpu_stable h c"
    and "ok \<equiv> \<lambda>c. c < NR_CPUS \<and> msk c \<and> cpu_online_mask h c \<and> p_cpus_allowed (tasks (sched h) p) c"
  shows "ok r" "ok x \<Longrightarrow> eligible x \<Longrightarrow> cpu_wload (sched h) r \<le> cpu_wload (sched h) x"
    "eligible r \<or> r = cpumask_first (\<lambda>c. msk c \<and> cpu_online_mask h c \<and> p_cpus_allowed (tasks (sched h) p) c)"
    "ok x \<Longrightarrow> eligible x \<Longrightarrow> prev = int x \<Longrightarrow> cpu_wload (sched h) x = cpu_wload (sched h) r \<Longrightarrow> r = x"
proof -
  let ?m = "cpumask_and (cpumask_and (cpu_online_mask h) msk) (p_cpus_allowed (tasks (sched h) p))"
  let ?w = "cpu_wload (sched h)" and ?t = "cpumask_first ?m"
  let ?skip = "\<lambda>cur. \<not> cpu_online_mask h cur \<or> \<not> p_cpus_allowed (tasks (sched h) p) cur \<or> hmp_caller_is_gb caller \<and> \<not> hmp_cpu_stable h cur"
  have t: "?t < NR_CPUS" "?m ?t" using first.select_member [where m = "?m" and c = c] cand by simp_all
  obtain r' w' where loop: "select_loop ?skip ?w prev (for_each_cpu msk) (?t, ?w ?t) = (r', w')" by fastforce
  then have r: "r = r'" using t(1) by (simp add: r_def hmp_select_cpu_def cpumask_any_and_def Let_def)
  have skip: "ok y \<Longrightarrow> eligible y \<Longrightarrow> \<not> ?skip y" for y by (auto simp: ok_def eligible_def hmp_caller_is_gb_def)
  note s = select_loop_spec [OF loop]
  have w': "w' = ?w r'" using s by auto
  show "ok r" using s t unfolding r ok_def by auto
  show "?w r \<le> ?w x" if "ok x" "eligible x" using s skip [OF that] that(1) w' unfolding r ok_def by auto
  have m: "?m = (\<lambda>c. msk c \<and> cpu_online_mask h c \<and> p_cpus_allowed (tasks (sched h) p) c)" by auto
  show "eligible r \<or> r = cpumask_first (\<lambda>c. msk c \<and> cpu_online_mask h c \<and> p_cpus_allowed (tasks (sched h) p) c)"
    using s unfolding r m [symmetric] eligible_def hmp_caller_is_gb_def by auto
  show "r = x" if "ok x" "eligible x" "prev = int x" "?w x = ?w r"
  proof -
    have "x \<in> set (for_each_cpu msk)" using that(1) by (simp add: ok_def)
    note x = this
    have "\<forall>c \<in> set (for_each_cpu msk). \<not> ?skip c \<and> int c = prev \<and> ?w c = w' \<longrightarrow> r' = c"
      using s by (elim conjE)
    from bspec [OF this x] have "\<not> ?skip x \<and> int x = prev \<and> ?w x = w' \<longrightarrow> r' = x" .
    with skip [OF that(1,2)] that(3,4) w' show ?thesis unfolding r by (auto simp only:)
  qed
qed

lemma hmp_select_cpu_none:
  assumes "\<And>c. c < NR_CPUS \<Longrightarrow> \<not> (msk c \<and> cpu_online_mask h c \<and> p_cpus_allowed (tasks (sched h) p) c)"
  shows "hmp_select_cpu h caller p msk prev = NR_CPUS"
proof -
  have "cpumask_first (cpumask_and (cpumask_and (cpu_online_mask h) msk) (p_cpus_allowed (tasks (sched h) p))) = NR_CPUS"
    using assms by (intro first.select_none) auto
  then show ?thesis by (simp add: hmp_select_cpu_def cpumask_any_and_def)
qed

interpretation hmp: cpu_chooser
  "\<lambda>(h :: 'a hmp_state_scheme, caller, p, prev) msk. hmp_select_cpu h caller p msk prev"
  "\<lambda>(h, caller, p, prev) msk c. msk c \<and> cpu_online_mask h c \<and> p_cpus_allowed (tasks (sched h) p) c"
proof
  fix m :: cpumask and s :: "'a hmp_state_scheme \<times> u32 \<times> nat \<times> int" and c
  obtain h caller p prev where s: "s = (h, caller, p, prev)" by (cases s) auto
  let ?sel = "\<lambda>(h :: 'a hmp_state_scheme, caller, p, prev) msk. hmp_select_cpu h caller p msk prev"
  let ?cand = "\<lambda>(h :: 'a hmp_state_scheme, caller :: u32, p, prev :: int) msk c. msk c \<and> cpu_online_mask h c \<and> p_cpus_allowed (tasks (sched h) p) c"
  show "?sel s m = NR_CPUS" if "\<And>c. c < NR_CPUS \<Longrightarrow> \<not> ?cand s m c"
    using that unfolding s by (simp add: hmp_select_cpu_none)
  show "?sel s m < NR_CPUS \<and> ?cand s m (?sel s m)" if "c < NR_CPUS" "?cand s m c"
    using that hmp_select_cpu_spec(1) [of c m h p caller prev] unfolding s by simp
qed

subsection \<open>Migration thresholds\<close>

lemma sint_range_32: "- 2147483648 \<le> sint (x :: s32)" "sint x < 2147483648"
  using sint_greater_eq [of x] sint_lt [of x] by simp_all

lemma sint_eq_32:
  "- 2147483648 \<le> sint a + sint b \<Longrightarrow> sint a + sint b < 2147483648 \<Longrightarrow> sint (a + b :: s32) = sint a + sint b"
  "- 2147483648 \<le> sint a - sint b \<Longrightarrow> sint a - sint b < 2147483648 \<Longrightarrow> sint (a - b :: s32) = sint a - sint b"
  "- 2147483648 \<le> sint a * sint b \<Longrightarrow> sint a * sint b < 2147483648 \<Longrightarrow> sint (a * b :: s32) = sint a * sint b"
  by (simp_all add: sint_word_ariths signed_take_bit_int_eq_self)

lemma sint_eq_64:
  "- 9223372036854775808 \<le> sint a - sint b \<Longrightarrow> sint a - sint b < 9223372036854775808 \<Longrightarrow> sint (a - b :: s64) = sint a - sint b"
  "- 9223372036854775808 \<le> sint a * sint b \<Longrightarrow> sint a * sint b < 9223372036854775808 \<Longrightarrow> sint (a * b :: s64) = sint a * sint b"
  by (simp_all add: sint_word_ariths signed_take_bit_int_eq_self)

lemma sint_of_int_32: "- 2147483648 \<le> k \<Longrightarrow> k < 2147483648 \<Longrightarrow> sint (word_of_int k :: s32) = k"
  by (simp add: signed_of_int signed_take_bit_int_eq_self)

lemma sint_of_int_64: "- 9223372036854775808 \<le> k \<Longrightarrow> k < 9223372036854775808 \<Longrightarrow> sint (word_of_int k :: s64) = k"
  by (simp add: signed_of_int signed_take_bit_int_eq_self)

lemma sint_scast_32_64 [simp]: "sint (scast (x :: s32) :: s64) = sint x"
  using sint_range_32 [of x] by (simp add: signed_scast_eq signed_take_bit_int_eq_self)

lemma sint_ucast_64_32: "0 \<le> sint x \<Longrightarrow> sint x < 2147483648 \<Longrightarrow> sint (ucast (x :: s64) :: s32) = sint x"
proof -
  assume a: "0 \<le> sint x" "sint x < 2147483648"
  then have "uint x = sint x" using uint_lt2p [of x] by (simp add: sint_uint_64 split: if_splits)
  with a show ?thesis by (simp add: signed_ucast_eq signed_take_bit_int_eq_self)
qed

lemma sdiv_nonneg: "0 \<le> a \<Longrightarrow> 0 \<le> b \<Longrightarrow> a sdiv b = a div (b :: int)"
  using sdiv_nat [of "nat a" "nat b"] by (simp add: zdiv_int)

lemma sdiv_neg: "a \<le> 0 \<Longrightarrow> 0 < b \<Longrightarrow> a sdiv b \<le> (0 :: int) \<and> a \<le> a sdiv b"
proof -
  assume a: "a \<le> 0" "0 < b"
  have "a sdiv b = - ((- a) div b)" using a by (auto simp: signed_divide_int_def sgn_if)
  moreover have "(- a) div b \<le> - a" "0 \<le> (- a) div b" using a zdiv_mono2 [of "- a" 1 b] by (simp_all add: pos_imp_zdiv_nonneg_iff)
  ultimately show ?thesis by simp
qed

lemma sint_s32_div:
  assumes "0 < sint b"
  shows "sint (s32_div a b) = sint a sdiv sint b"
proof -
  have "- 2147483648 \<le> sint a sdiv sint b \<and> sint a sdiv sint b < 2147483648"
  proof (cases "0 \<le> sint a")
    case True
    then have "sint a sdiv sint b = sint a div sint b" using assms by (simp add: sdiv_nonneg)
    moreover have "sint a div sint b \<le> sint a div 1" using True assms by (intro zdiv_mono2) simp_all
    moreover have "0 \<le> sint a div sint b" using True assms by (simp add: pos_imp_zdiv_nonneg_iff)
    ultimately show ?thesis using sint_range_32 [of a] by simp
  next
    case False
    then show ?thesis using sdiv_neg [of "sint a" "sint b"] assms sint_range_32 [of a] by simp
  qed
  then show ?thesis by (simp add: s32_div_def sint_of_int_32)
qed

lemma threshold_split:
  fixes bn :: int
  assumes "0 \<le> bn" "0 \<le> ln" "0 \<le> bt" "0 \<le> lt"
  shows "m * bn * bt div ((bn + ln) * (bt + lt) + 1) + m * ln * lt div ((bn + ln) * (bt + lt) + 1) \<le> m \<or> m < 0"
proof (cases "m < 0")
  case False
  let ?d = "(bn + ln) * (bt + lt) + 1"
  have d: "0 < ?d" using assms by (simp add: add_nonneg_pos)
  have "m * (bn * bt + ln * lt) \<le> m * ?d"
    using False assms by (intro mult_left_mono) (simp_all add: algebra_simps add_nonneg_nonneg)
  then have "(m * (bn * bt + ln * lt)) div ?d \<le> m" using d by (metis nonzero_mult_div_cancel_right not_less_iff_gr_or_eq zdiv_mono1)
  moreover have "x div ?d + y div ?d \<le> (x + y) div ?d" for x y
    using d pos_mod_sign [OF d, of x] pos_mod_sign [OF d, of y]
    by (subst div_add1_eq) (simp add: pos_imp_zdiv_nonneg_iff add_nonneg_nonneg)
  then have "m * bn * bt div ?d + m * ln * lt div ?d \<le> (m * bn * bt + m * ln * lt) div ?d" .
  moreover have "m * bn * bt + m * ln * lt = m * (bn * bt + ln * lt)" by (simp add: distrib_left mult.assoc)
  ultimately show ?thesis by simp
qed simp

lemma adj_threshold_ordered:
  fixes env :: clb_env
  defines "b \<equiv> bstats env" and "l \<equiv> lstats env" and "env' \<equiv> adj_threshold env"
  assumes scaled: "- 1048576 \<le> sint (clb_scaled_acap b)" "sint (clb_scaled_acap b) \<le> 63"
      "- 1048576 \<le> sint (clb_scaled_atask b)" "sint (clb_scaled_atask b) \<le> 63"
      "sint (clb_scaled_acap l) \<le> 63"
    and power: "0 \<le> sint (clb_cpu_power b)" "sint (clb_cpu_power b) \<le> 1024"
      "1 \<le> sint (clb_cpu_power l)" "sint (clb_cpu_power l) \<le> 1024"
  shows "0 \<le> sint (clb_threshold (lstats env'))"
    "sint (clb_threshold (lstats env')) \<le> sint (clb_threshold (bstats env'))"
    "sint (clb_threshold (bstats env')) \<le> 1023"
proof -
  have share: "0 \<le> sint (POSITIVE (s32_div (x * clb_cpu_power b) (clb_cpu_power l + 1))) \<and>
      sint (POSITIVE (s32_div (x * clb_cpu_power b) (clb_cpu_power l + 1))) \<le> 32256"
    if x: "- 1048576 \<le> sint x" "sint x \<le> 63" for x :: s32
  proof -
    have "sint x * sint (clb_cpu_power b) \<le> 63 * sint (clb_cpu_power b)" "- 1048576 * sint (clb_cpu_power b) \<le> sint x * sint (clb_cpu_power b)"
      using power x by (intro mult_right_mono; simp)+
    then have "sint x * sint (clb_cpu_power b) \<le> 63 * 1024" "- 1048576 * 1024 \<le> sint x * sint (clb_cpu_power b)"
      using power by linarith+
    then have m: "sint (x * clb_cpu_power b) = sint x * sint (clb_cpu_power b)" "sint (x * clb_cpu_power b) \<le> 64512"
      by (simp_all add: sint_eq_32)
    have d: "sint (clb_cpu_power l + 1) = sint (clb_cpu_power l) + 1" using power by (simp add: sint_eq_32)
    have "sint (x * clb_cpu_power b) sdiv sint (clb_cpu_power l + 1) \<le> 32256"
    proof (cases "0 \<le> sint (x * clb_cpu_power b)")
      case True
      have "sint (x * clb_cpu_power b) div sint (clb_cpu_power l + 1) \<le> sint (x * clb_cpu_power b) div 2"
        using True d power by (intro zdiv_mono2) simp_all
      moreover have "sint (x * clb_cpu_power b) div 2 \<le> 32256" using m(2) by simp
      ultimately show ?thesis using True d power by (simp add: sdiv_nonneg)
    next
      case False
      then show ?thesis using sdiv_neg [of "sint (x * clb_cpu_power b)" "sint (clb_cpu_power l + 1)"] d power by simp
    qed
    then show ?thesis using d power by (simp add: POSITIVE_def sint_s32_div)
  qed
  define bn where "bn = POSITIVE (s32_div (clb_scaled_acap b * clb_cpu_power b) (clb_cpu_power l + 1))"
  define bt where "bt = POSITIVE (s32_div (clb_scaled_atask b * clb_cpu_power b) (clb_cpu_power l + 1))"
  define ln where "ln = POSITIVE (clb_scaled_acap l)"
  define lt where "lt = POSITIVE (clb_scaled_atask b)"
  have bn: "0 \<le> sint bn" "sint bn \<le> 32256" and bt: "0 \<le> sint bt" "sint bt \<le> 32256"
    using share [OF scaled(1,2)] share [OF scaled(3,4)] by (simp_all add: bn_def bt_def)
  have ln: "0 \<le> sint ln" "sint ln \<le> 63" and lt: "0 \<le> sint lt" "sint lt \<le> 63"
    using scaled by (simp_all add: ln_def lt_def POSITIVE_def)
  let ?d = "(sint bn + sint ln) * (sint bt + sint lt) + 1"
  have d0: "0 \<le> (sint bn + sint ln) * (sint bt + sint lt)" using bn bt ln lt by (intro mult_nonneg_nonneg) simp_all
  have d1: "(sint bn + sint ln) * (sint bt + sint lt) \<le> 32319 * 32319" using bn bt ln lt by (intro mult_mono) simp_all
  have s: "sint (bn + ln) = sint bn + sint ln" "sint (bt + lt) = sint bt + sint lt" using bn bt ln lt by (simp_all add: sint_eq_32)
  have p: "sint ((bn + ln) * (bt + lt)) = (sint bn + sint ln) * (sint bt + sint lt)"
    using d0 d1 by (subst sint_eq_32(3)) (simp_all add: s)
  have d: "sint ((bn + ln) * (bt + lt) + 1) = ?d" using d0 d1 by (subst sint_eq_32(1)) (simp_all add: p)
  have m: "sint HMP_MAX_LOAD = 1023" by (simp add: HMP_MAX_LOAD_def NICE_0_LOAD_def sint_uint_64)
  have part: "sint (s64_div (HMP_MAX_LOAD * scast x * scast y) (scast ((bn + ln) * (bt + lt) + 1))) = 1023 * sint x * sint y div ?d"
    if xy: "0 \<le> sint x" "sint x \<le> 32256" "0 \<le> sint y" "sint y \<le> 32256" for x y :: s32
  proof -
    have q: "0 \<le> sint x * sint y" "sint x * sint y \<le> 32256 * 32256"
      using xy by (simp, intro mult_mono) simp_all
    have 1: "sint (HMP_MAX_LOAD * scast x) = 1023 * sint x" using xy by (subst sint_eq_64(2)) (simp_all add: m)
    have 2: "sint (HMP_MAX_LOAD * scast x * scast y) = 1023 * (sint x * sint y)"
      using q by (subst sint_eq_64(2)) (simp_all add: 1 mult.assoc)
    have r: "0 \<le> 1023 * (sint x * sint y) div ?d" "1023 * (sint x * sint y) div ?d \<le> 1023 * (sint x * sint y) div 1"
      using q(1) d0 by (simp add: pos_imp_zdiv_nonneg_iff, intro zdiv_mono2) simp_all
    have "1023 * (sint x * sint y) sdiv ?d = 1023 * (sint x * sint y) div ?d" using q(1) d0 by (simp add: sdiv_nonneg)
    moreover have "sint (word_of_int (1023 * (sint x * sint y) div ?d) :: s64) = 1023 * (sint x * sint y) div ?d"
      using r q(2) by (intro sint_of_int_64) simp_all
    ultimately show ?thesis unfolding s64_div_def sint_scast_32_64 2 d by (simp add: mult.assoc)
  qed
  let ?u = "1023 * sint bn * sint bt div ?d" and ?v = "1023 * sint ln * sint lt div ?d"
  have uv: "?u + ?v \<le> 1023" "0 \<le> ?u" "0 \<le> ?v"
    using threshold_split [of "sint bn" "sint ln" "sint bt" "sint lt" 1023] bn bt ln lt d0
    by (simp_all add: pos_imp_zdiv_nonneg_iff)
  have tl: "sint (clb_threshold (lstats env')) = ?v"
    using part [of ln lt] ln lt uv
    by (simp add: env'_def adj_threshold_def Let_def b_def [symmetric] l_def [symmetric] flip: bn_def bt_def ln_def lt_def)
      (subst sint_ucast_64_32; simp)
  have "sint (HMP_MAX_LOAD - s64_div (HMP_MAX_LOAD * scast bn * scast bt) (scast ((bn + ln) * (bt + lt) + 1))) = 1023 - ?u"
    using part [of bn bt] bn bt uv m by (subst sint_eq_64(1)) simp_all
  then have tb: "sint (clb_threshold (bstats env')) = 1023 - ?u"
    using uv
    by (simp add: env'_def adj_threshold_def Let_def b_def [symmetric] l_def [symmetric] flip: bn_def bt_def ln_def lt_def)
      (subst sint_ucast_64_32; simp)
  show "0 \<le> sint (clb_threshold (lstats env'))"
    "sint (clb_threshold (lstats env')) \<le> sint (clb_threshold (bstats env'))"
    "sint (clb_threshold (bstats env')) \<le> 1023"
    using uv unfolding tl tb by linarith+
qed


lemma collect_loop_ncpu:
  "clb_ncpu (collect_loop h cpus s) = clb_ncpu s + of_nat (length (filter (cpu_online_mask h) cpus))"
  by (induction cpus arbitrary: s) (auto simp: Let_def)

lemma online_count:
  assumes "c < NR_CPUS" "m c" "cpu_online_mask h c"
  shows "(of_nat (length (filter (cpu_online_mask h) (for_each_cpu m))) :: s32) \<noteq> 0"
proof -
  let ?n = "length (filter (cpu_online_mask h) (for_each_cpu m))"
  have "?n \<le> length (for_each_cpu m)" by (rule length_filter_le)
  also have "\<dots> \<le> length [0..<NR_CPUS]" unfolding for_each_cpu_def by (rule length_filter_le)
  finally have "?n \<le> 8" by (simp add: NR_CPUS_def)
  moreover have "filter (cpu_online_mask h) (for_each_cpu m) \<noteq> []" using assms by (auto simp: filter_empty_conv)
  ultimately have "unat (of_nat ?n :: s32) \<noteq> 0" by (simp add: unat_of_nat)
  then show ?thesis by auto
qed

lemma collect_fields:
  assumes "c < NR_CPUS" "m c" "cpu_online_mask h c"
  defines "s \<equiv> collect_cluster_stats h zero_clb m c"
    and "ratio \<equiv> (ucast (hmp_cfs_load (sched h) c) :: s32)"
  shows "clb_cpu_power s = ucast (cpu_scale h c)"
    "clb_scaled_acap s = hmp_scale_down (1023 - ratio)"
    "clb_scaled_atask s = hmp_scale_down (1023 - cfs_h_nr_running (root_cfs (sched h) c) * ratio)"
proof -
  have "clb_ncpu (collect_loop h (for_each_cpu m) zero_clb) \<noteq> 0"
    using online_count [of c m h, OF assms(1-3)] by (simp add: collect_loop_ncpu zero_clb_def)
  then show "clb_cpu_power s = ucast (cpu_scale h c)"
    "clb_scaled_acap s = hmp_scale_down (1023 - ratio)"
    "clb_scaled_atask s = hmp_scale_down (1023 - cfs_h_nr_running (root_cfs (sched h) c) * ratio)"
    using assms(1,2)
    by (simp_all add: s_def ratio_def collect_cluster_stats_def Let_def hmp_cfs_load_def HMP_MAX_LOAD_def NICE_0_LOAD_def)
qed

lemma sint_scale_down: "sint (hmp_scale_down w) = sint w div 16"
  by (simp add: hmp_scale_down_def sint_signed_drop_bit_eq drop_bit_eq_div)

lemma sint_small_ucast:
  assumes "x \<le> 1024"
  obtains k where "sint (ucast (x :: u64) :: s32) = k" "uint x = k" "0 \<le> k" "k \<le> 1024"
proof
  define k where "k = uint x"
  have k: "0 \<le> k" "k \<le> 1024" using assms by (simp_all add: word_le_def k_def)
  then have "signed_take_bit 31 k = k" by (intro signed_take_bit_int_eq_self) simp_all
  then show "sint (ucast x :: s32) = k" by (simp add: signed_ucast_eq k_def)
  show "uint x = k" by (simp add: k_def)
qed (use assms in \<open>simp_all add: word_le_def\<close>)

lemma scaled_acap_range:
  assumes "x \<le> 1023"
  shows "- 1048576 \<le> sint (hmp_scale_down (1023 - ucast (x :: u64)))" "sint (hmp_scale_down (1023 - ucast x)) \<le> 63"
proof -
  have x: "x \<le> 1024" using assms by (rule order_trans) simp
  obtain k where u: "sint (ucast x :: s32) = k" "uint x = k" "0 \<le> k" "k \<le> 1024" using sint_small_ucast [OF x] .
  have "sint (1023 - ucast x :: s32) = 1023 - k" using u by (subst sint_eq_32(2)) simp_all
  then show "- 1048576 \<le> sint (hmp_scale_down (1023 - ucast x))" "sint (hmp_scale_down (1023 - ucast x)) \<le> 63"
    using u(3,4) by (simp_all add: sint_scale_down)
qed

lemma scaled_atask_range:
  assumes "x \<le> 1023" "n \<le> 16384"
  shows "- 1048576 \<le> sint (hmp_scale_down (1023 - n * ucast (x :: u64)))" "sint (hmp_scale_down (1023 - n * ucast x)) \<le> 63"
proof -
  have x: "x \<le> 1024" using assms(1) by (rule order_trans) simp
  obtain k where u: "sint (ucast x :: s32) = k" "uint x = k" "0 \<le> k" "k \<le> 1024" using sint_small_ucast [OF x] .
  have n: "0 \<le> sint n" "sint n \<le> 16384" using assms(2) by (simp_all add: word_le_def sint_uint_32)
  have q: "0 \<le> sint n * k" "sint n * k \<le> 16384 * 1024" using n u by (simp, intro mult_mono) simp_all
  have "sint (n * ucast x) = sint n * k" using q u by (subst sint_eq_32(3)) simp_all
  then have "sint (1023 - n * ucast x :: s32) = 1023 - sint n * k" using q by (subst sint_eq_32(2)) simp_all
  then show "- 1048576 \<le> sint (hmp_scale_down (1023 - n * ucast x))" "sint (hmp_scale_down (1023 - n * ucast x)) \<le> 63"
    using q by (simp_all add: sint_scale_down)
qed

lemma scast_le_iff:
  assumes "0 \<le> sint a" "0 \<le> sint b"
  shows "(scast (a :: s32) :: u64) \<le> scast (b :: s32) \<longleftrightarrow> sint a \<le> sint b"
proof -
  have *: "uint (scast x :: u64) = sint x" if "0 \<le> sint x" for x :: s32
    using that sint_scast_32_64 [of x] sint_range_32 [of x] uint_lt2p [of "scast x :: u64"]
    by (auto simp: sint_uint_64 split: if_splits)
  from * [OF assms(1)] * [OF assms(2)] show ?thesis by (simp only: word_le_def)
qed

lemma cpumask_first_le: "c < NR_CPUS \<Longrightarrow> m c \<Longrightarrow> cpumask_first m \<le> c"
proof -
  assume "c < NR_CPUS" "m c"
  then have "c \<in> set (for_each_cpu m)" by simp
  with sorted_for_each_cpu [of m] show ?thesis
    by (cases "for_each_cpu m") (auto simp: cpumask_first_def simp del: set_for_each_cpu)
qed

lemma adj_threshold_ignores_little_tasks:
  "clb_threshold (bstats (adj_threshold (env\<lparr>lstats := lstats env\<lparr>clb_scaled_atask := n\<rparr>\<rparr>))) = clb_threshold (bstats (adj_threshold env)) \<and>
   clb_threshold (lstats (adj_threshold (env\<lparr>lstats := lstats env\<lparr>clb_scaled_atask := n\<rparr>\<rparr>))) = clb_threshold (lstats (adj_threshold env))"
  by (simp add: adj_threshold_def Let_def)


text \<open>C21. The dynamic thresholds computed for a big and a little target CPU are ordered:
  0 \<open>\<le>\<close> down-threshold \<open>\<le>\<close> up-threshold \<open>\<le>\<close> 1023, whatever the clusters' load, so no load is at
  once above the up-threshold and at most the down-threshold.  The little CPU must have a non-zero
  power and the relative powers and loads lie in their usual ranges; otherwise the 32-bit products wrap.\<close>

theorem thresholds_ordered:
  fixes h :: hmp_state and flags :: u32 and load :: u64
  assumes b: "b < NR_CPUS" "hmp_fast_cpu_mask h b" "cpu_online_mask h b"
    and l: "l < NR_CPUS" "hmp_slow_cpu_mask h l" "cpu_online_mask h l"
    and load: "hmp_cfs_load (sched h) b \<le> 1023" "hmp_cfs_load (sched h) l \<le> 1023"
      "cfs_h_nr_running (root_cfs (sched h) b) \<le> 16384"
    and power: "cpu_scale h b \<le> 1024" "cpu_scale h l \<le> 1024" "cpu_scale h l \<noteq> 0"
  defines "env \<equiv> sched_update_clbstats h (new_clbenv h flags b l)"
  shows "0 \<le> sint (clb_threshold (lstats env)) \<and>
    sint (clb_threshold (lstats env)) \<le> sint (clb_threshold (bstats env)) \<and>
    sint (clb_threshold (bstats env)) \<le> 1023 \<and>
    \<not> (scast (clb_threshold (bstats env)) < load \<and> load \<le> scast (clb_threshold (lstats env)))"
proof -
  let ?B = "collect_cluster_stats h zero_clb (hmp_fast_cpu_mask h) b"
  let ?L = "collect_cluster_stats h zero_clb (hmp_slow_cpu_mask h) l"
  define e where "e = (new_clbenv h flags b l)\<lparr>bstats := ?B, lstats := ?L\<rparr>"
  have env: "env = adj_threshold e" by (simp add: env_def sched_update_clbstats_def new_clbenv_def e_def)
  have e: "bstats e = ?B" "lstats e = ?L" by (simp_all add: e_def)
  note fb = collect_fields [of b "hmp_fast_cpu_mask h" h, OF b] and fl = collect_fields [of l "hmp_slow_cpu_mask h" h, OF l]
  obtain pb where pb: "sint (ucast (cpu_scale h b) :: s32) = pb" "uint (cpu_scale h b) = pb" "0 \<le> pb" "pb \<le> 1024"
    using sint_small_ucast [OF power(1)] .
  obtain pl where pl: "sint (ucast (cpu_scale h l) :: s32) = pl" "uint (cpu_scale h l) = pl" "0 \<le> pl" "pl \<le> 1024"
    using sint_small_ucast [OF power(2)] .
  have "pl \<noteq> 0" using power(3) pl(2) by (auto simp: uint_0_iff)
  with pl(3) have pl1: "1 \<le> pl" by simp
  have t: "0 \<le> sint (clb_threshold (lstats env))"
    "sint (clb_threshold (lstats env)) \<le> sint (clb_threshold (bstats env))"
    "sint (clb_threshold (bstats env)) \<le> 1023"
    unfolding env
    by (rule adj_threshold_ordered;
        use scaled_acap_range [OF load(1)] scaled_acap_range [OF load(2)] scaled_atask_range [OF load(1,3)]
          pb pl pl1 in \<open>simp add: e fb fl\<close>)+
  then have "(scast (clb_threshold (lstats env)) :: u64) \<le> scast (clb_threshold (bstats env))" by (subst scast_le_iff) simp_all
  then have "\<not> (scast (clb_threshold (bstats env)) < load \<and> load \<le> scast (clb_threshold (lstats env)))" by auto
  with t show ?thesis by blast
qed

definition set_up_hmp :: hmp_state where
  "set_up_hmp = snd (hmp_cpu_mask_setup sample_hmp)"

lemma setup_loop_sched [simp]: "sched (setup_loop i ds h) = sched h"
  by (induction i ds h rule: setup_loop.induct) (simp_all add: Let_def)

lemma setup_sched: "sched (snd (hmp_cpu_mask_setup h)) = sched h"
  by (simp add: hmp_cpu_mask_setup_def arch_get_hmp_domains_def Let_def split: prod.splits)

theorem thresholds_ordered_witness:
  "sint (clb_threshold (lstats (sched_update_clbstats set_up_hmp (new_clbenv set_up_hmp HMP_SELECT_RQ 4 0)))) \<le>
   sint (clb_threshold (bstats (sched_update_clbstats set_up_hmp (new_clbenv set_up_hmp HMP_SELECT_RQ 4 0))))"
proof -
  have m: "hmp_fast_cpu_mask set_up_hmp 4" "cpu_online_mask set_up_hmp 4" "hmp_slow_cpu_mask set_up_hmp 0"
    "cpu_online_mask set_up_hmp 0" "cpu_scale set_up_hmp 4 = 1024" "cpu_scale set_up_hmp 0 = 430"
    "hmp_cfs_load (sched set_up_hmp) 4 = 0" "hmp_cfs_load (sched set_up_hmp) 0 = 0"
    "cfs_h_nr_running (root_cfs (sched set_up_hmp) 4) = 0"
    by code_simp+
  show ?thesis using thresholds_ordered [of 4 set_up_hmp 0 HMP_SELECT_RQ] m by (simp add: NR_CPUS_def)
qed

text \<open>C19. \<open>hmp_select_cpu\<close> returns \<open>NR_CPUS\<close> exactly when no CPU of the mask is online and allowed for the
  task.  Otherwise it returns such a CPU whose workload is not above that of any candidate (any stable
  candidate for the global balancer), and the task's previous CPU if that one is as good.  The global
  balancer's choice is stable or else the first candidate.\<close>

theorem hmp_select_cpu_correct:
  fixes h :: hmp_state and caller :: u32 and p :: nat and prev :: int and msk :: cpumask
  defines "r \<equiv> hmp_select_cpu h caller p msk prev"
    and "eligible \<equiv> \<lambda>c. caller \<noteq> HMP_GB \<or> hmp_cpu_stable h c"
    and "ok \<equiv> \<lambda>c. c < NR_CPUS \<and> msk c \<and> cpu_online_mask h c \<and> p_cpus_allowed (tasks (sched h) p) c"
  shows "if \<exists>c. ok c
    then ok r \<and> (eligible r \<or> (\<forall>c. ok c \<longrightarrow> r \<le> c)) \<and>
      (\<forall>c. ok c \<and> eligible c \<longrightarrow> cpu_wload (sched h) r \<le> cpu_wload (sched h) c \<and>
         (prev = int c \<and> cpu_wload (sched h) c = cpu_wload (sched h) r \<longrightarrow> r = c))
    else r = NR_CPUS"
proof (cases "\<exists>c. ok c")
  case True
  then obtain c where c: "c < NR_CPUS" "msk c" "cpu_online_mask h c" "p_cpus_allowed (tasks (sched h) p) c" by (auto simp: ok_def)
  note s = hmp_select_cpu_spec [where c = c and msk = msk and h = h and p = p and caller = caller and prev = prev, OF c, folded r_def]
  have first: "cpumask_first (\<lambda>c. msk c \<and> cpu_online_mask h c \<and> p_cpus_allowed (tasks (sched h) p) c) \<le> y" if "ok y" for y
    using that by (intro cpumask_first_le) (simp_all add: ok_def)
  have "ok r" using s(1) by (simp add: ok_def)
  moreover have "eligible r \<or> (\<forall>c. ok c \<longrightarrow> r \<le> c)" using s(3) first unfolding eligible_def by metis
  moreover have "cpu_wload (sched h) r \<le> cpu_wload (sched h) y \<and>
      (prev = int y \<and> cpu_wload (sched h) y = cpu_wload (sched h) r \<longrightarrow> r = y)" if "ok y" "eligible y" for y
    using s(2,4) [of y] that unfolding ok_def eligible_def by blast
  ultimately show ?thesis using True by simp
next
  case False
  then show ?thesis using hmp_select_cpu_none [of msk h p caller prev] by (auto simp: r_def ok_def)
qed


theorem hmp_select_cpu_correct_witness:
  "hmp_select_cpu set_up_hmp HMP_SELECT_RQ 1 (hmp_slow_cpu_mask set_up_hmp) 2 = 2"
proof -
  let ?r = "hmp_select_cpu set_up_hmp HMP_SELECT_RQ 1 (hmp_slow_cpu_mask set_up_hmp) 2"
  have c: "2 < NR_CPUS" "hmp_slow_cpu_mask set_up_hmp 2" "cpu_online_mask set_up_hmp 2"
    "p_cpus_allowed (tasks (sched set_up_hmp) 1) 2" "\<And>c. cpu_wload (sched set_up_hmp) c = 0"
    by (code_simp, code_simp, code_simp, code_simp)
      (simp add: cpu_wload_def rq_length_def root_cfs_def set_up_hmp_def setup_sched sample_hmp_def sample_defs sample_avg_def)
  have "HMP_SELECT_RQ \<noteq> HMP_GB" by (simp add: HMP_SELECT_RQ_def HMP_GB_def)
  with hmp_select_cpu_correct [of "hmp_slow_cpu_mask set_up_hmp" set_up_hmp 1 HMP_SELECT_RQ 2] c
  show ?thesis by (auto split: if_splits)
qed

lemma hmp_down_migration_frame:
  assumes "hmp_down_migration b l se env h = (down, env', h')"
  shows "hmp_slow_cpu_mask h' = hmp_slow_cpu_mask h" "hmp_fast_cpu_mask h' = hmp_fast_cpu_mask h"
    "cpu_online_mask h' = cpu_online_mask h" "rqs (sched h') = rqs (sched h)" "ses (sched h') = ses (sched h)"
    "tasks (sched h') = tasks (sched h)"
    "nr_pending (cfs_avg (cfs_rqs (sched h') c)) = nr_pending (cfs_avg (cfs_rqs (sched h) c))"
    "pending_load (cfs_avg (cfs_rqs (sched h') c)) = pending_load (cfs_avg (cfs_rqs (sched h) c))"
  using assms by (auto simp: hmp_down_migration_def Let_def upd_cfs_avg_def split: if_splits)

lemma assign_cluster_frame:
  assumes "assign_cluster f p prev b l h = (r, h')"
  shows "r = b \<or> r = l" "rqs (sched h') = rqs (sched h)" "ses (sched h') = ses (sched h)"
    "nr_pending (cfs_avg (cfs_rqs (sched h') c)) = nr_pending (cfs_avg (cfs_rqs (sched h) c))"
    "pending_load (cfs_avg (cfs_rqs (sched h') c)) = pending_load (cfs_avg (cfs_rqs (sched h) c))"
  using assms hmp_down_migration_frame
  by (fastforce simp: assign_cluster_def Let_def split: if_splits prod.splits)+


lemma hmp_select_cpu_valid:
  assumes "hmp_select_cpu h caller p msk prev \<noteq> NR_CPUS"
  shows "hmp_select_cpu h caller p msk prev < NR_CPUS" "msk (hmp_select_cpu h caller p msk prev)"
    "cpu_online_mask h (hmp_select_cpu h caller p msk prev)"
    "p_cpus_allowed (tasks (sched h) p) (hmp_select_cpu h caller p msk prev)"
  using hmp.select_valid [of "(h, caller, p, prev)" msk] assms by auto



end
