(* ===== verification/HMP_Packing.thy ===== *)
theory HMP_Packing
  imports HMP_Select
begin

text \<open>
  Packing of small tasks (\<open>CONFIG_HMP_PACK_SMALL_TASK\<close>, \<open>CONFIG_HMP_POWER_AWARE_CONTROLLER\<close>) in
  \<open>kernel/sched/fair.c\<close>: the pack buddy of a CPU, the tests for a light task and a busy buddy, and the
  use of the buddy.  The scheduling domains of a CPU are a list from its lowest domain to the top one;
  the circular list of groups of a domain is a list that starts at \<open>sd->groups\<close>.
\<close>

subsection \<open>Scheduling domains\<close>

record sched_group =
  sg_cpus :: cpumask
  sg_group_weight :: u32
  sg_power :: u32

record sched_domain =
  sd_span :: cpumask
  sd_flags :: u32
  sd_groups :: "sched_group list"

record pack_state = hmp_state +
  sched_domains :: "nat \<Rightarrow> sched_domain list"
  sd_pack_buddy :: "nat \<Rightarrow> nat option"
  BUDDY_CPU_RQ_USAGE :: "nat \<Rightarrow> u32"
  BUDDY_CPU_RQ_PERIOD :: "nat \<Rightarrow> u32"
  BUDDY_CPU_RQ_NR :: "nat \<Rightarrow> u32"
  TASK_USGAE :: "nat \<Rightarrow> u32"
  TASK_PERIOD :: "nat \<Rightarrow> u32"
  PACK_FROM_CPUX_TO_CPUY_COUNT :: "nat \<Rightarrow> nat \<Rightarrow> u32"
  AVOID_FORCE_UP_MIGRATION_COUNT :: "nat \<Rightarrow> nat \<Rightarrow> u32"
  PA_ENABLE :: bool
  LB_ENABLE :: bool

definition SD_LOAD_BALANCE :: u32 where "SD_LOAD_BALANCE = 0x0001"
definition SD_SHARE_POWERLINE :: u32 where "SD_SHARE_POWERLINE = 0x0100"

unbundle bit_operations_syntax

definition has_flag :: "sched_domain \<Rightarrow> u32 \<Rightarrow> bool" where
  "has_flag sd flag = (sd_flags sd AND flag \<noteq> 0)"

text \<open>\<open>highest_flag_domain\<close>: the domain together with its ancestors, or nothing.\<close>

fun highest_flag_domain :: "u32 \<Rightarrow> sched_domain list \<Rightarrow> sched_domain list" where
  "highest_flag_domain flag [] = []"
| "highest_flag_domain flag (sd # parents) =
     (if \<not> has_flag sd flag then []
      else case highest_flag_domain flag parents of [] \<Rightarrow> sd # parents | hsd \<Rightarrow> hsd)"

subsection \<open>The pack buddy\<close>

text \<open>The groups of a domain in the order of the circular list from the first group that holds \<open>id\<close>;
  \<open>sd->groups\<close> itself when none does.\<close>

definition groups_from :: "nat \<Rightarrow> sched_group list \<Rightarrow> sched_group list" where
  "groups_from cand gs =
     (case dropWhile (\<lambda>g. \<not> sg_cpus g cand) gs of [] \<Rightarrow> gs | g # rest \<Rightarrow> (g # rest) @ takeWhile (\<lambda>g. \<not> sg_cpus g cand) gs)"

fun pack_group :: "sched_group \<Rightarrow> sched_group list \<Rightarrow> sched_group option \<Rightarrow> sched_group option" where
  "pack_group sg [] pack = pack"
| "pack_group sg (tmp # rest) pack =
     pack_group sg rest (if sg_power tmp * sg_group_weight sg < sg_power sg * sg_group_weight tmp then Some tmp else pack)"

text \<open>One round of the \<open>while (sd)\<close> loop: the new candidate.\<close>

definition pack_candidate :: "nat option \<Rightarrow> sched_domain \<Rightarrow> nat" where
  "pack_candidate cand sd =
     (let cand = (case cand of None \<Rightarrow> cpumask_first (sd_span sd) | Some i \<Rightarrow> i)
      in case groups_from cand (sd_groups sd) of
           [] \<Rightarrow> cand
         | sg # rest \<Rightarrow>
             (case pack_group sg (if has_flag sd SD_LOAD_BALANCE then [] else rest) None of
                None \<Rightarrow> cand | Some pack \<Rightarrow> cpumask_first (sg_cpus pack)))"

fun packing_loop :: "nat \<Rightarrow> nat option \<Rightarrow> sched_domain list \<Rightarrow> nat option" where
  "packing_loop cpu cand [] = cand"
| "packing_loop cpu cand (sd # parents) =
     (let cand = pack_candidate cand sd
      in if cand \<noteq> cpu \<or> (case parents of [] \<Rightarrow> False | p # _ \<Rightarrow> has_flag p SD_LOAD_BALANCE) then Some cand
         else packing_loop cpu (Some cand) parents)"

definition update_packing_domain :: "nat \<Rightarrow> 'a pack_state_scheme \<Rightarrow> 'a pack_state_scheme" where
  "update_packing_domain cpu h =
     (let sds = sched_domains h cpu;
          start = (case highest_flag_domain SD_SHARE_POWERLINE sds of
              [] \<Rightarrow> sds
            | sd # parents \<Rightarrow> if cpumask_first (sd_span sd) = cpu \<or> parents = [] then parents else sd # parents)
      in h\<lparr>sd_pack_buddy := (sd_pack_buddy h)(cpu := packing_loop cpu None start)\<rparr>)"

subsection \<open>Light tasks and busy buddies\<close>

text \<open>The shift count is taken modulo 32, as the arm64 shift instruction does.\<close>

definition is_buddy_busy :: "nat option \<Rightarrow> 'a pack_state_scheme \<Rightarrow> bool \<times> 'a pack_state_scheme" where
  "is_buddy_busy buddy h =
     (case buddy of
        None \<Rightarrow> (False, h)
      | Some cpu \<Rightarrow>
          let rq = rqs (sched h) cpu; usage = usage_avg_sum (rq_avg rq); period = runnable_avg_period (rq_avg rq)
          in (period < push_bit (unat (rq_nr_running rq) mod 32) usage,
              h\<lparr>BUDDY_CPU_RQ_USAGE := (BUDDY_CPU_RQ_USAGE h)(cpu := usage),
                BUDDY_CPU_RQ_PERIOD := (BUDDY_CPU_RQ_PERIOD h)(cpu := period),
                BUDDY_CPU_RQ_NR := (BUDDY_CPU_RQ_NR h)(cpu := rq_nr_running rq)\<rparr>))"

definition is_light_task :: "nat \<Rightarrow> 'a pack_state_scheme \<Rightarrow> bool \<times> 'a pack_state_scheme" where
  "is_light_task p h =
     (let avg = se_avg (ses (sched h) p); cpu = p_cpu (tasks (sched h) p)
      in (push_bit 2 (usage_avg_sum avg) < runnable_avg_period avg,
          h\<lparr>TASK_USGAE := (TASK_USGAE h)(cpu := usage_avg_sum avg),
            TASK_PERIOD := (TASK_PERIOD h)(cpu := runnable_avg_period avg)\<rparr>))"

definition check_pack_buddy :: "nat \<Rightarrow> nat \<Rightarrow> 'a pack_state_scheme \<Rightarrow> bool \<times> 'a pack_state_scheme" where
  "check_pack_buddy cpu p h =
     (if NR_CPUS \<le> cpu then (False, h)
      else case sd_pack_buddy h cpu of
        None \<Rightarrow> (False, h)
      | Some buddy \<Rightarrow>
          let avg = se_avg (ses (sched h) p)
          in if buddy = cpu \<and> push_bit 3 (usage_avg_sum avg) < runnable_avg_sum avg * 5 then (False, h)
             else if \<not> p_cpus_allowed (tasks (sched h) p) buddy then (False, h)
             else let (light, h) = is_light_task p h
                  in if \<not> light then (False, h)
                     else let (busy, h) = is_buddy_busy (Some buddy) h in (\<not> busy, h))"

lemma is_light_task_sched [simp]: "sched (snd (is_light_task p h)) = sched h"
  by (simp add: is_light_task_def Let_def)

lemma is_buddy_busy_sched [simp]: "sched (snd (is_buddy_busy b h)) = sched h"
  by (simp add: is_buddy_busy_def Let_def split: option.split)

end
