(* ===== verification/Spinlock.thy ===== *)
theory Spinlock
  imports Sched_Prelude
begin

text \<open>
  The ticket spinlock of \<open>arch/arm64/include/asm/spinlock.h\<close>: a lock is free when the ticket being
  served is the next ticket to be handed out.  A caller of \<open>arch_spin_lock\<close> that does not get the lock at
  once spins until another CPU releases it; the model has no other CPU, so this is \<^const>\<open>None\<close>.
\<close>

record arch_spinlock =
  lock_owner :: "16 word"
  lock_next :: "16 word"

definition arch_spin_value_unlocked :: "arch_spinlock \<Rightarrow> bool" where
  "arch_spin_value_unlocked l = (lock_owner l = lock_next l)"

definition arch_spin_lock :: "arch_spinlock \<Rightarrow> arch_spinlock option" where
  "arch_spin_lock l = (if lock_owner l = lock_next l then Some (l\<lparr>lock_next := lock_next l + 1\<rparr>) else None)"

definition arch_spin_trylock :: "arch_spinlock \<Rightarrow> bool \<times> arch_spinlock" where
  "arch_spin_trylock l = (if lock_owner l = lock_next l then (True, l\<lparr>lock_next := lock_next l + 1\<rparr>) else (False, l))"

definition arch_spin_unlock :: "arch_spinlock \<Rightarrow> arch_spinlock" where
  "arch_spin_unlock l = l\<lparr>lock_owner := lock_owner l + 1\<rparr>"

text \<open>The contract of a lock, and what follows for a section of code that takes and releases it.\<close>

locale mutual_exclusion =
  fixes lock :: "'l \<Rightarrow> 'l option" and trylock :: "'l \<Rightarrow> bool \<times> 'l" and unlock :: "'l \<Rightarrow> 'l" and free :: "'l \<Rightarrow> bool"
  assumes lock_free: "free l \<Longrightarrow> \<exists>l'. lock l = Some l' \<and> \<not> free l' \<and> free (unlock l')"
    and lock_taken: "\<not> free l \<Longrightarrow> lock l = None"
    and trylock_lock: "trylock l = (case lock l of Some l' \<Rightarrow> (True, l') | None \<Rightarrow> (False, l))"
begin

lemma trylock_free_iff: "fst (trylock l) \<longleftrightarrow> free l"
  using lock_free [of l] lock_taken [of l] by (cases "free l") (auto simp: trylock_lock)

lemma no_relock: "lock l = Some l' \<Longrightarrow> lock l' = None"
  using lock_free [of l] lock_taken [of l] lock_taken [of l'] by (cases "free l") auto

lemma lock_unlock_free: "lock l = Some l' \<Longrightarrow> free (unlock l')"
  using lock_free [of l] lock_taken [of l] by (cases "free l") auto

lemma trylock_unlock_free: "trylock l = (True, l') \<Longrightarrow> free (unlock l')"
  using lock_unlock_free [of l l'] by (auto simp: trylock_lock split: option.splits)

end

interpretation ticket: mutual_exclusion arch_spin_lock arch_spin_trylock arch_spin_unlock arch_spin_value_unlocked
  by standard (auto simp: arch_spin_lock_def arch_spin_trylock_def arch_spin_unlock_def arch_spin_value_unlocked_def)

text \<open>Tickets handed out and not yet served: 0 for a free lock, 1 for a held one.  A release that
  was not preceded by an acquisition makes it negative, and the lock is never free again until a
  matching acquisition that cannot happen.\<close>

definition lock_depth :: "arch_spinlock \<Rightarrow> 16 word" where
  "lock_depth l = lock_next l - lock_owner l"

lemma lock_depth_free: "arch_spin_value_unlocked l \<longleftrightarrow> lock_depth l = 0"
  by (auto simp: arch_spin_value_unlocked_def lock_depth_def)

lemma lock_depth_unlock [simp]: "lock_depth (arch_spin_unlock l) = lock_depth l - 1"
  by (simp add: lock_depth_def arch_spin_unlock_def)

lemma lock_depth_lock: "arch_spin_lock l = Some l' \<longleftrightarrow> lock_depth l = 0 \<and> l' = l\<lparr>lock_next := lock_next l + 1\<rparr>"
  by (auto simp: lock_depth_def arch_spin_lock_def)

lemma lock_depth_taken: "arch_spin_lock l = Some l' \<Longrightarrow> lock_depth l' = 1"
  by (auto simp: lock_depth_def arch_spin_lock_def split: if_splits)

end
