(* ===== verification/HMP_Migration.thy ===== *)
theory HMP_Migration
  imports HMP_Packing Spinlock
begin

text \<open>
  Global balancing of the enhanced HMP scheduler in \<open>kernel/sched/fair.c\<close>: \<open>hmp_force_up_migration\<close>,
  \<open>hmp_force_down_migration\<close> and \<open>hmp_idle_pull\<close>, with the locks they take, the stop-machine requests
  of \<open>kernel/stop_machine.c\<close> they queue and the rescheduling interrupts they send.  A call that
  dereferences \<open>NULL\<close> or spins on a lock that is never released is \<^const>\<open>None\<close>.
  \<open>CONFIG_CPU_IDLE\<close> is off, so the keep-alive timer of \<open>hmp_idle_pull\<close> does nothing.
\<close>

subsection \<open>State\<close>

record balance_state = pack_state +
  rq_locks :: "nat \<Rightarrow> arch_spinlock"
  hmp_force_migration :: arch_spinlock
  stopper_enabled :: "nat \<Rightarrow> bool"
  stopper_works :: "nat \<Rightarrow> nat list"
  resched_ipis :: "nat list"

definition rq_lock :: "nat \<Rightarrow> 'a balance_state_scheme \<Rightarrow> 'a balance_state_scheme option" where
  "rq_lock cpu h = map_option (\<lambda>l. h\<lparr>rq_locks := (rq_locks h)(cpu := l)\<rparr>) (arch_spin_lock (rq_locks h cpu))"

definition rq_unlock :: "nat \<Rightarrow> 'a balance_state_scheme \<Rightarrow> 'a balance_state_scheme" where
  "rq_unlock cpu h = h\<lparr>rq_locks := (rq_locks h)(cpu := arch_spin_unlock (rq_locks h cpu))\<rparr>"

definition unlock_force_migration :: "'a balance_state_scheme \<Rightarrow> 'a balance_state_scheme" where
  "unlock_force_migration h = h\<lparr>hmp_force_migration := arch_spin_unlock (hmp_force_migration h)\<rparr>"

subsection \<open>Stop machine\<close>

definition cpu_park :: "'a balance_state_scheme \<Rightarrow> nat \<Rightarrow> bool" where
  "cpu_park h cpu = (\<not> stopper_enabled h cpu)"

text \<open>\<open>stop_one_cpu_dispatch\<close>: queue a request for the run queue of \<open>cpu\<close> on its stopper; the result tells whether
  that failed.\<close>

definition stop_one_cpu_dispatch :: "nat \<Rightarrow> 'a balance_state_scheme \<Rightarrow> bool \<times> 'a balance_state_scheme" where
  "stop_one_cpu_dispatch cpu h =
     (if stopper_enabled h cpu then (False, h\<lparr>stopper_works := (stopper_works h)(cpu := stopper_works h cpu @ [cpu])\<rparr>)
      else (True, h))"

subsection \<open>The running task of a CPU\<close>

text \<open>The descent from the current entity of a root run queue to the running task.\<close>

partial_function (option) running_task :: "(nat \<Rightarrow> nat option) \<Rightarrow> (nat \<Rightarrow> nat option) \<Rightarrow> nat \<Rightarrow> nat option" where
  "running_task my_q cur se =
     (case my_q se of None \<Rightarrow> Some se | Some c \<Rightarrow> do { se' \<leftarrow> cur c; running_task my_q cur se' })"

declare running_task.simps [code]

definition find_running_task :: "sched_state \<Rightarrow> nat \<Rightarrow> nat option" where
  "find_running_task st se = running_task (\<lambda>e. se_my_q (ses st e)) (\<lambda>c. cfs_curr (cfs_rqs st c)) se"

subsection \<open>Requesting a migration\<close>

definition TASK_DEAD :: u64 where
  "TASK_DEAD = 64"

text \<open>The request of an active migration of \<open>p\<close> from the run queue of \<open>cpu\<close> to \<open>target_cpu\<close>, written with the
  run queue locked.\<close>

definition request_migration :: "nat \<Rightarrow> nat \<Rightarrow> nat \<Rightarrow> 'a balance_state_scheme \<Rightarrow> 'a balance_state_scheme" where
  "request_migration cpu target_cpu p h =
     upd_sched (upd_rq cpu (\<lambda>rq. rq\<lparr>rq_active_balance := True, rq_push_cpu := target_cpu, rq_migrate_task := Some p\<rparr>)) h"

text \<open>After the run queue is unlocked: dispatch the stopper, and take the request back if that fails.\<close>

definition dispatch_migration :: "nat \<Rightarrow> 'a balance_state_scheme \<Rightarrow> (bool \<times> 'a balance_state_scheme) option" where
  "dispatch_migration cpu h =
     (case stop_one_cpu_dispatch cpu h of
        (False, h) \<Rightarrow> Some (True, h)
      | (True, h) \<Rightarrow> do {
          h \<leftarrow> rq_lock cpu h;
          Some (False, rq_unlock cpu (upd_sched (upd_rq cpu (\<lambda>rq. rq\<lparr>rq_active_balance := False\<rparr>)) h)) })"

subsection \<open>From big to LITTLE\<close>

definition force_down_cpu :: "nat \<Rightarrow> 'a balance_state_scheme \<Rightarrow> 'a balance_state_scheme option" where
  "force_down_cpu curr_cpu h =
     (if \<not> cpu_online_mask h curr_cpu then Some h
      else do {
        h \<leftarrow> rq_lock curr_cpu h;
        case cfs_curr (root_cfs (sched h) curr_cpu) of
          None \<Rightarrow> Some (rq_unlock curr_cpu h)
        | Some se \<Rightarrow> do {
            se \<leftarrow> find_running_task (sched h) se;
            let p = task_of se;
            let target_cpu = hmp_select_cpu h HMP_GB p (hmp_slow_cpu_mask h) (- 1);
            if target_cpu = NR_CPUS then Some (rq_unlock curr_cpu h)
            else do {
              let env = sched_update_clbstats h (new_clbenv h HMP_GB curr_cpu target_cpu);
              let (down, h) = (if rq_active_balance (rqs (sched h) curr_cpu) then (False, h)
                else let (down, env, h) = hmp_down_migration curr_cpu target_cpu se env h in (down, h));
              if down \<and> \<not> cpu_park h curr_cpu \<and> p_state (tasks (sched h) p) \<noteq> TASK_DEAD
              then do {
                let h = hmp_next_down_delay p target_cpu (request_migration curr_cpu target_cpu p h);
                (_, h) \<leftarrow> dispatch_migration curr_cpu (rq_unlock curr_cpu h);
                Some h }
              else Some (rq_unlock curr_cpu h) } } })"

fun each_cpu :: "(nat \<Rightarrow> 'h \<Rightarrow> 'h option) \<Rightarrow> nat list \<Rightarrow> 'h \<Rightarrow> 'h option" where
  "each_cpu f [] h = Some h"
| "each_cpu f (cpu # cpus) h = do { h \<leftarrow> f cpu h; each_cpu f cpus h }"

definition hmp_force_down_migration :: "'a balance_state_scheme \<Rightarrow> 'a balance_state_scheme option" where
  "hmp_force_down_migration h = each_cpu force_down_cpu (for_each_cpu (hmp_fast_cpu_mask h)) h"

subsection \<open>From LITTLE to big\<close>

text \<open>Lazy balancing: a light task whose pack buddy is not busy is not moved up.\<close>

definition lazy_balance :: "nat \<Rightarrow> nat \<Rightarrow> 'a balance_state_scheme \<Rightarrow> bool \<times> 'a balance_state_scheme" where
  "lazy_balance curr_cpu p h =
     (if \<not> (PA_ENABLE h \<and> LB_ENABLE h) then (False, h)
      else let (light, h) = is_light_task p h
      in if \<not> light then (False, h)
         else let (busy, h) = is_buddy_busy (sd_pack_buddy h curr_cpu) h
         in if busy then (False, h)
            else let push_cpu = hmp_select_cpu h HMP_GB p (hmp_fast_cpu_mask h) (- 1)
            in (True, if hmp_cpu_is_fast h push_cpu
                      then h\<lparr>AVOID_FORCE_UP_MIGRATION_COUNT := (\<lambda>x y. if x = curr_cpu \<and> y = push_cpu
                             then AVOID_FORCE_UP_MIGRATION_COUNT h x y + 1 else AVOID_FORCE_UP_MIGRATION_COUNT h x y)\<rparr>
                      else h))"

text \<open>The part that \<open>hmp_force_up_migration\<close> and \<open>hmp_idle_pull\<close> share: with the run queue of a little
  CPU locked, find the running task and decide on an up-migration.  The result is the task and its
  target if the migration is approved.\<close>

definition up_candidate :: "nat \<Rightarrow> 'a balance_state_scheme \<Rightarrow> ((nat \<times> nat) option \<times> 'a balance_state_scheme) option" where
  "up_candidate curr_cpu h =
     (case cfs_curr (root_cfs (sched h) curr_cpu) of
        None \<Rightarrow> Some (None, h)
      | Some se \<Rightarrow> do {
          se \<leftarrow> find_running_task (sched h) se;
          let p = task_of se;
          let target_cpu = hmp_select_cpu h HMP_GB p (hmp_fast_cpu_mask h) (- 1);
          if target_cpu = NR_CPUS then Some (None, h)
          else do {
            let env = sched_update_clbstats h (new_clbenv h HMP_GB target_cpu curr_cpu);
            let (lazy, h) = lazy_balance curr_cpu p h;
            Some (if \<not> lazy \<and> \<not> rq_active_balance (rqs (sched h) curr_cpu)
                    \<and> fst (hmp_up_migration h curr_cpu target_cpu se env) \<and> \<not> cpu_park h curr_cpu
                  then Some (p, target_cpu) else None, h) } })"

text \<open>One round of \<open>hmp_force_up_migration\<close> with \<open>CONFIG_HMP_DELAY_UP_MIGRATION\<close>: an approved migration unlocks
  the run queue and \<open>hmp_force_migration\<close>, and control then reaches the unlock at the end of the
  round (the \<open>return\<close> is commented out).\<close>

definition force_up_cpu :: "nat \<Rightarrow> 'a balance_state_scheme \<Rightarrow> 'a balance_state_scheme option" where
  "force_up_cpu curr_cpu h =
     (if \<not> cpu_online_mask h curr_cpu then Some h
      else do {
        h \<leftarrow> rq_lock curr_cpu h;
        (cand, h) \<leftarrow> up_candidate curr_cpu h;
        case cand of
          None \<Rightarrow> Some (rq_unlock curr_cpu h)
        | Some (p, target_cpu) \<Rightarrow> do {
            let h = upd_sched (upd_rq target_cpu (\<lambda>rq. rq\<lparr>rq_wake_for_idle_pull := True\<rparr>)) h;
            let h = unlock_force_migration (rq_unlock curr_cpu h);
            let h = h\<lparr>resched_ipis := resched_ipis h @ [target_cpu]\<rparr>;
            Some (rq_unlock curr_cpu h) } })"

definition hmp_force_up_migration :: "'a balance_state_scheme \<Rightarrow> 'a balance_state_scheme option" where
  "hmp_force_up_migration h =
     (case arch_spin_trylock (hmp_force_migration h) of
        (False, _) \<Rightarrow> Some h
      | (True, l) \<Rightarrow> do {
          let h = h\<lparr>hmp_force_migration := l\<rparr>;
          h \<leftarrow> each_cpu force_up_cpu (for_each_cpu (hmp_slow_cpu_mask h)) h;
          h \<leftarrow> hmp_force_down_migration h;
          Some (unlock_force_migration h) })"

subsection \<open>Idle pull\<close>

definition idle_pull_cpu :: "nat \<Rightarrow> bool \<times> 'a balance_state_scheme \<Rightarrow> (bool \<times> 'a balance_state_scheme) option" where
  "idle_pull_cpu curr_cpu = (\<lambda>(force, h).
     if \<not> cpu_online_mask h curr_cpu then Some (force, h)
     else do {
       h \<leftarrow> rq_lock curr_cpu h;
       (cand, h) \<leftarrow> up_candidate curr_cpu h;
       case cand of
         None \<Rightarrow> Some (False, rq_unlock curr_cpu h)
       | Some (p, target_cpu) \<Rightarrow>
           if p_state (tasks (sched h) p) = TASK_DEAD then Some (False, rq_unlock curr_cpu h)
           else do {
             let h = hmp_next_up_delay p target_cpu (request_migration curr_cpu target_cpu p h);
             dispatch_migration curr_cpu (rq_unlock curr_cpu h) } })"

definition hmp_idle_pull :: "'a balance_state_scheme \<Rightarrow> (bool \<times> 'a balance_state_scheme) option" where
  "hmp_idle_pull h =
     (case arch_spin_trylock (hmp_force_migration h) of
        (False, _) \<Rightarrow> Some (False, h)
      | (True, l) \<Rightarrow> do {
          let h = h\<lparr>hmp_force_migration := l\<rparr>;
          (force, h) \<leftarrow> each_cpu idle_pull_cpu (for_each_cpu (hmp_slow_cpu_mask h)) (False, h);
          Some (force, unlock_force_migration h) })"

subsection \<open>What the steps leave alone\<close>

lemma lazy_balance_frame [simp]:
  "sched (snd (lazy_balance c p h)) = sched h" "rq_locks (snd (lazy_balance c p h)) = rq_locks h"
  "hmp_force_migration (snd (lazy_balance c p h)) = hmp_force_migration h"
  "resched_ipis (snd (lazy_balance c p h)) = resched_ipis h" "stopper_enabled (snd (lazy_balance c p h)) = stopper_enabled h"
  "stopper_works (snd (lazy_balance c p h)) = stopper_works h" "cpu_online_mask (snd (lazy_balance c p h)) = cpu_online_mask h"
  "hmp_fast_cpu_mask (snd (lazy_balance c p h)) = hmp_fast_cpu_mask h"
  "hmp_slow_cpu_mask (snd (lazy_balance c p h)) = hmp_slow_cpu_mask h"
  by (simp_all add: lazy_balance_def is_light_task_def is_buddy_busy_def Let_def split: option.split)

lemma up_candidate_frame:
  assumes "up_candidate c h = Some (cand, h')"
  shows "sched h' = sched h" "rq_locks h' = rq_locks h" "hmp_force_migration h' = hmp_force_migration h"
    "resched_ipis h' = resched_ipis h" "stopper_enabled h' = stopper_enabled h" "stopper_works h' = stopper_works h"
    "cpu_online_mask h' = cpu_online_mask h" "hmp_fast_cpu_mask h' = hmp_fast_cpu_mask h" "hmp_slow_cpu_mask h' = hmp_slow_cpu_mask h"
  using assms
  by (auto simp: up_candidate_def Let_def case_prod_beta split: if_splits option.splits bind_splits)

lemma up_candidate_valid:
  assumes "up_candidate c h = Some (Some (p, t), h')"
  shows "t < NR_CPUS" "hmp_fast_cpu_mask h t" "cpu_online_mask h t" "p_cpus_allowed (tasks (sched h) p) t" "stopper_enabled h c"
proof -
  obtain se where se: "t = hmp_select_cpu h HMP_GB p (hmp_fast_cpu_mask h) (- 1)" "t \<noteq> NR_CPUS" "stopper_enabled h' c"
    using assms by (auto simp: up_candidate_def Let_def cpu_park_def split: if_splits option.splits bind_splits prod.splits)
  then show "t < NR_CPUS" "hmp_fast_cpu_mask h t" "cpu_online_mask h t" "p_cpus_allowed (tasks (sched h) p) t"
    using hmp_select_cpu_valid [of h HMP_GB p "hmp_fast_cpu_mask h" "- 1"] by simp_all
  show "stopper_enabled h c" using se(3) up_candidate_frame(5) [OF assms] by simp
qed

lemma rq_lock_SomeD:
  assumes "rq_lock c h = Some h'"
  shows "lock_depth (rq_locks h c) = 0" "lock_depth (rq_locks h' c) = 1" "\<And>x. x \<noteq> c \<Longrightarrow> rq_locks h' x = rq_locks h x"
    "sched h' = sched h" "hmp_force_migration h' = hmp_force_migration h" "resched_ipis h' = resched_ipis h"
    "stopper_enabled h' = stopper_enabled h" "stopper_works h' = stopper_works h" "cpu_online_mask h' = cpu_online_mask h"
    "hmp_fast_cpu_mask h' = hmp_fast_cpu_mask h" "hmp_slow_cpu_mask h' = hmp_slow_cpu_mask h"
  using assms lock_depth_taken [of "rq_locks h c"] by (auto simp: rq_lock_def lock_depth_lock)

lemma rq_lock_free: "lock_depth (rq_locks h c) = 0 \<Longrightarrow> \<exists>h'. rq_lock c h = Some h'"
  by (auto simp: rq_lock_def lock_depth_def arch_spin_lock_def)

lemma rq_unlock_simps [simp]:
  "lock_depth (rq_locks (rq_unlock c h) x) = lock_depth (rq_locks h x) - (if x = c then 1 else 0)"
  "sched (rq_unlock c h) = sched h" "hmp_force_migration (rq_unlock c h) = hmp_force_migration h"
  "resched_ipis (rq_unlock c h) = resched_ipis h" "stopper_enabled (rq_unlock c h) = stopper_enabled h"
  "stopper_works (rq_unlock c h) = stopper_works h" "cpu_online_mask (rq_unlock c h) = cpu_online_mask h"
  "hmp_fast_cpu_mask (rq_unlock c h) = hmp_fast_cpu_mask h" "hmp_slow_cpu_mask (rq_unlock c h) = hmp_slow_cpu_mask h"
  by (simp_all add: rq_unlock_def)

lemma upd_sched_balance_simps [simp]:
  "rq_locks (upd_sched f h) = rq_locks h" "hmp_force_migration (upd_sched f h) = hmp_force_migration h"
  "resched_ipis (upd_sched f h) = resched_ipis h" "stopper_enabled (upd_sched f h) = stopper_enabled h"
  "stopper_works (upd_sched f h) = stopper_works h"
  by (simp_all add: upd_sched_def)

lemma delay_simps [simp]:
  "rq_locks (hmp_next_up_delay e c h) = rq_locks h" "hmp_force_migration (hmp_next_up_delay e c h) = hmp_force_migration h"
  "resched_ipis (hmp_next_up_delay e c h) = resched_ipis h" "stopper_enabled (hmp_next_up_delay e c h) = stopper_enabled h"
  "stopper_works (hmp_next_up_delay e c h) = stopper_works h"
  "rq_locks (hmp_next_down_delay e c h) = rq_locks h" "hmp_force_migration (hmp_next_down_delay e c h) = hmp_force_migration h"
  "resched_ipis (hmp_next_down_delay e c h) = resched_ipis h" "stopper_enabled (hmp_next_down_delay e c h) = stopper_enabled h"
  "stopper_works (hmp_next_down_delay e c h) = stopper_works h"
  by (simp_all add: hmp_next_up_delay_def hmp_next_down_delay_def Let_def)

lemma request_simps [simp]:
  "rq_locks (request_migration a b p h) = rq_locks h" "hmp_force_migration (request_migration a b p h) = hmp_force_migration h"
  "resched_ipis (request_migration a b p h) = resched_ipis h" "stopper_enabled (request_migration a b p h) = stopper_enabled h"
  "stopper_works (request_migration a b p h) = stopper_works h"
  by (simp_all add: request_migration_def)

lemma hmp_down_migration_balance:
  assumes "hmp_down_migration b l se env h = (down, env', h')"
  shows "rq_locks h' = rq_locks h" "hmp_force_migration h' = hmp_force_migration h" "resched_ipis h' = resched_ipis h"
    "stopper_enabled h' = stopper_enabled h" "stopper_works h' = stopper_works h"
  using assms by (auto simp: hmp_down_migration_def Let_def split: if_splits)

lemma dispatch_force [simp]:
  assumes "dispatch_migration c h = Some (r, h')"
  shows "hmp_force_migration h' = hmp_force_migration h" "resched_ipis h' = resched_ipis h" "hmp_fast_cpu_mask h' = hmp_fast_cpu_mask h"
    "hmp_slow_cpu_mask h' = hmp_slow_cpu_mask h"
  using assms
  by (auto simp: dispatch_migration_def stop_one_cpu_dispatch_def rq_lock_SomeD split: if_splits prod.splits bind_splits)

subsection \<open>The delayed up-migration releases locks it does not hold\<close>

definition force_balance :: "'a balance_state_scheme \<Rightarrow> 16 word" where
  "force_balance h = lock_depth (hmp_force_migration h) + of_nat (length (resched_ipis h))"

lemma each_cpu_invariant:
  assumes "\<And>cpu h h'. cpu \<in> set cpus \<Longrightarrow> P h \<Longrightarrow> f cpu h = Some h' \<Longrightarrow> P h'" "P h" "each_cpu f cpus h = Some h'"
  shows "P h'"
  using assms by (induction cpus arbitrary: h) (auto split: bind_splits)

lemma force_up_cpu_force:
  assumes "force_up_cpu c h = Some h'"
  shows "force_balance h' = force_balance h \<and> (\<exists>new. resched_ipis h' = resched_ipis h @ new \<and> length new \<le> 1)"
proof (cases "cpu_online_mask h c")
  case True
  then obtain h1 cand h2 where h1: "rq_lock c h = Some h1" and h2: "up_candidate c h1 = Some (cand, h2)"
    using assms by (auto simp: force_up_cpu_def split: bind_splits)
  then have f: "hmp_force_migration h2 = hmp_force_migration h" "resched_ipis h2 = resched_ipis h"
    using rq_lock_SomeD [OF h1] up_candidate_frame [OF h2] by simp_all
  show ?thesis
  proof (cases cand)
    case None
    then have "h' = rq_unlock c h2" using assms True h1 h2 by (simp add: force_up_cpu_def)
    then show ?thesis using f by (simp add: force_balance_def)
  next
    case (Some a)
    obtain p t where "a = (p, t)" by (cases a)
    with Some assms True h1 h2 f show ?thesis
      by (auto simp: force_up_cpu_def force_balance_def unlock_force_migration_def rq_unlock_def)
  qed
next
  case False
  then show ?thesis using assms by (auto simp: force_up_cpu_def)
qed

lemma force_down_cpu_force:
  assumes "force_down_cpu c h = Some h'"
  shows "hmp_force_migration h' = hmp_force_migration h \<and> resched_ipis h' = resched_ipis h"
  using assms
  by (auto simp: force_down_cpu_def Let_def rq_lock_SomeD hmp_down_migration_balance
      split: if_splits option.splits bind_splits prod.splits)


lemma force_up_each:
  "each_cpu force_up_cpu cpus h = Some h' \<Longrightarrow>
    force_balance h' = force_balance h \<and> (\<exists>new. resched_ipis h' = resched_ipis h @ new \<and> length new \<le> length cpus)"
proof (induction cpus arbitrary: h)
  case (Cons c cpus)
  then obtain h1 where h1: "force_up_cpu c h = Some h1" "each_cpu force_up_cpu cpus h1 = Some h'" by (auto split: bind_splits)
  obtain n1 where "force_balance h1 = force_balance h" "resched_ipis h1 = resched_ipis h @ n1" "length n1 \<le> 1"
    using force_up_cpu_force [OF h1(1)] by blast
  moreover obtain n2 where "force_balance h' = force_balance h1" "resched_ipis h' = resched_ipis h1 @ n2" "length n2 \<le> length cpus"
    using Cons.IH [OF h1(2)] by blast
  ultimately show ?case by (auto intro: exI [of _ "n1 @ n2"])
qed simp

lemma force_down_each:
  "each_cpu force_down_cpu cpus h = Some h' \<Longrightarrow> hmp_force_migration h' = hmp_force_migration h \<and> resched_ipis h' = resched_ipis h"
  by (induction cpus arbitrary: h) (auto dest!: force_down_cpu_force split: bind_splits)

text \<open>A state of the sample system in which only the little CPU 0 and the big CPU 4 are used; task 1 runs on
  CPU 0 and CPU 4 is idle.\<close>

definition balance_sample :: balance_state where
  "balance_sample = pack_state.extend (hmp_state.extend (set_up_hmp\<lparr>hmp_next_up_threshold := 0, cpu_online_mask := (\<lambda>c. c = 0 \<or> c = 4),
       hmp_fast_cpu_mask := (\<lambda>c. c = 4), hmp_slow_cpu_mask := (\<lambda>c. c = 0),
       sched := upd_cfs 0 (\<lambda>q. q\<lparr>cfs_curr := Some 1\<rparr>) (upd_rq 4 (\<lambda>rq. rq\<lparr>rq_cfs := 2\<rparr>) sample_state)\<rparr>)
     \<lparr>sched_domains = (\<lambda>_. []), sd_pack_buddy = (\<lambda>_. None), BUDDY_CPU_RQ_USAGE = (\<lambda>_. 0), BUDDY_CPU_RQ_PERIOD = (\<lambda>_. 0),
      BUDDY_CPU_RQ_NR = (\<lambda>_. 0), TASK_USGAE = (\<lambda>_. 0), TASK_PERIOD = (\<lambda>_. 0), PACK_FROM_CPUX_TO_CPUY_COUNT = (\<lambda>_ _. 0),
      AVOID_FORCE_UP_MIGRATION_COUNT = (\<lambda>_ _. 0), PA_ENABLE = False, LB_ENABLE = True\<rparr>)
     \<lparr>rq_locks = (\<lambda>_. \<lparr>lock_owner = 0, lock_next = 0\<rparr>), hmp_force_migration = \<lparr>lock_owner = 0, lock_next = 0\<rparr>,
      stopper_enabled = (\<lambda>_. True), stopper_works = (\<lambda>_. []), resched_ipis = []\<rparr>"

text \<open>C11. \<open>hmp_force_up_migration\<close> with delayed up-migration does not keep its locks balanced: each interrupt it
  sends to a big CPU comes with a release of \<open>hmp_force_migration\<close> in addition to the one at the end.
  If it sends none, the lock is free afterwards; if it sends any, the lock is left in a state in which it
  can never be taken again, so all later calls of \<open>hmp_force_up_migration\<close> and \<open>hmp_idle_pull\<close> do nothing.\<close>

theorem hmp_force_up_lock_leak:
  fixes h :: balance_state
  assumes "arch_spin_value_unlocked (hmp_force_migration h)" "hmp_force_up_migration h = Some h'"
  shows "\<exists>new. resched_ipis h' = resched_ipis h @ new \<and> lock_depth (hmp_force_migration h') = - of_nat (length new) \<and>
    (if new = [] then arch_spin_value_unlocked (hmp_force_migration h')
     else hmp_force_up_migration h' = Some h' \<and> hmp_idle_pull h' = Some (False, h'))"
proof -
  obtain l where l: "arch_spin_trylock (hmp_force_migration h) = (True, l)"
    using assms(1) by (auto simp: arch_spin_trylock_def arch_spin_value_unlocked_def)
  have d: "lock_depth l = 1" using l by (auto simp: arch_spin_trylock_def lock_depth_def split: if_splits)
  obtain h1 h2 where h1: "each_cpu force_up_cpu (for_each_cpu (hmp_slow_cpu_mask h)) (h\<lparr>hmp_force_migration := l\<rparr>) = Some h1"
    and h2: "hmp_force_down_migration h1 = Some h2" and h': "h' = unlock_force_migration h2"
    using assms(2) l by (auto simp: hmp_force_up_migration_def split: bind_splits)
  obtain new where new: "resched_ipis h1 = resched_ipis h @ new" "length new \<le> length (for_each_cpu (hmp_slow_cpu_mask h))"
    and b: "force_balance h1 = force_balance (h\<lparr>hmp_force_migration := l\<rparr>)" using force_up_each [OF h1] by auto
  have "length (for_each_cpu (hmp_slow_cpu_mask h)) \<le> 8"
    unfolding for_each_cpu_def using length_filter_le [of _ "[0..<NR_CPUS]"] by (simp add: NR_CPUS_def)
  then have len: "length new \<le> 8" using new(2) by simp
  have f: "hmp_force_migration h2 = hmp_force_migration h1" "resched_ipis h2 = resched_ipis h1"
    using force_down_each h2 unfolding hmp_force_down_migration_def by blast+
  have ipis: "resched_ipis h' = resched_ipis h @ new" using new(1) f by (simp add: h' unlock_force_migration_def)
  have depth: "lock_depth (hmp_force_migration h') = - of_nat (length new)"
    using b d f new(1) by (simp add: h' unlock_force_migration_def force_balance_def algebra_simps)
  show ?thesis
  proof (cases "new = []")
    case True
    then show ?thesis using ipis depth by (auto simp: lock_depth_free)
  next
    case False
    then have "unat (of_nat (length new) :: 16 word) \<noteq> 0" using len by (simp add: unat_of_nat)
    then have "lock_depth (hmp_force_migration h') \<noteq> 0" unfolding depth by auto
    then have "arch_spin_trylock (hmp_force_migration h') = (False, hmp_force_migration h')"
      by (auto simp: arch_spin_trylock_def lock_depth_def)
    with False ipis depth show ?thesis by (auto simp: hmp_force_up_migration_def hmp_idle_pull_def)
  qed
qed

theorem hmp_force_up_lock_leak_witness:
  "\<exists>h'. hmp_force_up_migration balance_sample = Some h' \<and> hmp_force_up_migration h' = Some h'"
proof -
  have a: "arch_spin_value_unlocked (hmp_force_migration balance_sample)" by code_simp
  have "case hmp_force_up_migration balance_sample of Some h' \<Rightarrow> resched_ipis h' \<noteq> [] | None \<Rightarrow> False" by code_simp
  then obtain h' where h': "hmp_force_up_migration balance_sample = Some h'" "resched_ipis h' \<noteq> []" by (auto split: option.splits)
  have "resched_ipis balance_sample = []" by code_simp
  with hmp_force_up_lock_leak [OF a h'(1)] h' show ?thesis by (auto split: if_splits)
qed

subsection \<open>Migration requests\<close>

text \<open>What decides about running tasks and targets and is not changed by the balancing functions.\<close>

definition balance_view where
  "balance_view h = (cpu_online_mask h, hmp_fast_cpu_mask h, hmp_slow_cpu_mask h, stopper_enabled h, tasks (sched h),
     (\<lambda>e. se_my_q (ses (sched h) e)), (\<lambda>c. cfs_curr (cfs_rqs (sched h) c)), (\<lambda>c. rq_cfs (rqs (sched h) c)))"

lemma balance_view_eq:
  "balance_view h' = balance_view h \<longleftrightarrow>
     cpu_online_mask h' = cpu_online_mask h \<and> hmp_fast_cpu_mask h' = hmp_fast_cpu_mask h \<and>
     hmp_slow_cpu_mask h' = hmp_slow_cpu_mask h \<and> stopper_enabled h' = stopper_enabled h \<and> tasks (sched h') = tasks (sched h) \<and>
     (\<forall>e. se_my_q (ses (sched h') e) = se_my_q (ses (sched h) e)) \<and>
     (\<forall>c. cfs_curr (cfs_rqs (sched h') c) = cfs_curr (cfs_rqs (sched h) c)) \<and>
     (\<forall>c. rq_cfs (rqs (sched h') c) = rq_cfs (rqs (sched h) c))"
  by (auto simp: balance_view_def fun_eq_iff)

definition request_of where
  "request_of rq = (rq_active_balance rq, rq_push_cpu rq, rq_migrate_task rq)"

text \<open>A migration request that can be carried out: the task may run on the target, which is an online CPU of
  the given mask, the task is not dead, and the CPU's stopper has been asked.\<close>

definition valid_request :: "cpumask \<Rightarrow> 'a balance_state_scheme \<Rightarrow> nat \<Rightarrow> bool" where
  "valid_request m h c \<longleftrightarrow>
     (\<exists>p. rq_migrate_task (rqs (sched h) c) = Some p \<and> p_cpus_allowed (tasks (sched h) p) (rq_push_cpu (rqs (sched h) c)) \<and>
        p_state (tasks (sched h) p) \<noteq> TASK_DEAD) \<and>
     rq_push_cpu (rqs (sched h) c) < NR_CPUS \<and> m (rq_push_cpu (rqs (sched h) c)) \<and>
     cpu_online_mask h (rq_push_cpu (rqs (sched h) c)) \<and> c \<in> set (stopper_works h c)"

text \<open>The relation between the state before a balancing function and a state it reaches.\<close>

definition balanced :: "cpumask \<Rightarrow> 'a balance_state_scheme \<Rightarrow> 'a balance_state_scheme \<Rightarrow> bool" where
  "balanced m h h' \<longleftrightarrow> balance_view h' = balance_view h \<and> hmp_force_migration h' = hmp_force_migration h \<and>
     (\<forall>c. lock_depth (rq_locks h' c) = lock_depth (rq_locks h c)) \<and>
     (\<forall>c. rq_active_balance (rqs (sched h') c) \<longrightarrow> rq_active_balance (rqs (sched h) c) \<or> valid_request m h' c)"

definition tasks_running :: "'a balance_state_scheme \<Rightarrow> bool" where
  "tasks_running h \<longleftrightarrow> (\<forall>c e. cfs_curr (root_cfs (sched h) c) = Some e \<longrightarrow> find_running_task (sched h) e \<noteq> None)"

lemma balanced_refl [simp]: "balanced m h h"
  by (simp add: balanced_def)

lemma tasks_running_view:
  "balance_view h' = balance_view h \<Longrightarrow> tasks_running h' = tasks_running h"
  by (simp add: balance_view_eq tasks_running_def root_cfs_def find_running_task_def)

lemma rqs_delay [simp]:
  "rq_active_balance (rqs (sched (hmp_next_up_delay e t h)) c) = rq_active_balance (rqs (sched h) c)"
  "rq_push_cpu (rqs (sched (hmp_next_up_delay e t h)) c) = rq_push_cpu (rqs (sched h) c)"
  "rq_migrate_task (rqs (sched (hmp_next_up_delay e t h)) c) = rq_migrate_task (rqs (sched h) c)"
  "balance_view (hmp_next_up_delay e t h) = balance_view h"
  "rq_active_balance (rqs (sched (hmp_next_down_delay e t h)) c) = rq_active_balance (rqs (sched h) c)"
  "rq_push_cpu (rqs (sched (hmp_next_down_delay e t h)) c) = rq_push_cpu (rqs (sched h) c)"
  "rq_migrate_task (rqs (sched (hmp_next_down_delay e t h)) c) = rq_migrate_task (rqs (sched h) c)"
  "balance_view (hmp_next_down_delay e t h) = balance_view h"
  by (simp_all add: hmp_next_up_delay_def hmp_next_down_delay_def Let_def upd_rq_avg_def upd_avg_def balance_view_eq)

lemma balance_view_request [simp]: "balance_view (request_migration c t p h) = balance_view h"
  by (simp add: request_migration_def balance_view_eq)

lemma balance_view_unlock [simp]: "balance_view (rq_unlock c h) = balance_view h"
  by (simp add: balance_view_eq)

text \<open>Requesting and dispatching a migration from a locked run queue.\<close>

lemma dispatch_balanced:
  assumes "balanced m h h0" "rq_lock c h0 = Some h1" "balance_view h2 = balance_view h1"
    and h2: "rq_locks h2 = rq_locks h1" "hmp_force_migration h2 = hmp_force_migration h1"
      "\<And>x. x \<noteq> c \<Longrightarrow> request_of (rqs (sched h2) x) = request_of (rqs (sched h1) x)" "stopper_works h2 = stopper_works h1"
    and req: "rq_push_cpu (rqs (sched h2) c) = t" "rq_migrate_task (rqs (sched h2) c) = Some p"
    and ok: "t < NR_CPUS" "m t" "cpu_online_mask h2 t" "p_cpus_allowed (tasks (sched h2) p) t" "p_state (tasks (sched h2) p) \<noteq> TASK_DEAD"
      "stopper_enabled h2 c"
  shows "\<exists>h'. dispatch_migration c (rq_unlock c h2) = Some (True, h') \<and> balanced m h h'"
proof -
  let ?h' = "(rq_unlock c h2)\<lparr>stopper_works := (stopper_works h2)(c := stopper_works h2 c @ [c])\<rparr>"
  have "dispatch_migration c (rq_unlock c h2) = Some (True, ?h')"
    using ok(6) by (simp add: dispatch_migration_def stop_one_cpu_dispatch_def)
  moreover have "balanced m h ?h'"
  proof -
    have v: "balance_view h1 = balance_view h0" using rq_lock_SomeD [OF assms(2)] by (simp add: balance_view_eq)
    have "valid_request m ?h' x \<or> rq_active_balance (rqs (sched h) x)" if "rq_active_balance (rqs (sched ?h') x)" for x
    proof (cases "x = c")
      case True
      then show ?thesis using req ok by (simp add: valid_request_def)
    next
      case False
      then have x: "request_of (rqs (sched h2) x) = request_of (rqs (sched h0) x)"
        using h2(3) rq_lock_SomeD(4) [OF assms(2)] by simp
      then have "rq_active_balance (rqs (sched h0) x)" using that by (simp add: request_of_def)
      then have "rq_active_balance (rqs (sched h) x) \<or> valid_request m h0 x" using assms(1) by (auto simp: balanced_def)
      moreover have "valid_request m h0 x \<Longrightarrow> valid_request m ?h' x"
        using x False assms(3) v h2(4) rq_lock_SomeD(8) [OF assms(2)] by (auto simp: valid_request_def balance_view_eq request_of_def)
      ultimately show ?thesis by blast
    qed
    moreover have "lock_depth (rq_locks ?h' x) = lock_depth (rq_locks h x)" for x
      using rq_lock_SomeD(1-3) [OF assms(2)] h2(1) assms(1) by (cases "x = c") (simp_all add: balanced_def)
    moreover have "balance_view ?h' = balance_view h" using assms(1,3) v by (simp add: balanced_def balance_view_eq)
    ultimately show ?thesis using assms(1) h2(2) rq_lock_SomeD(5) [OF assms(2)] by (auto simp: balanced_def)
  qed
  ultimately show ?thesis by blast
qed

lemma unlock_balanced:
  assumes "balanced m h h0" "rq_lock c h0 = Some h1" "balance_view h2 = balance_view h1" "rq_locks h2 = rq_locks h1"
    "hmp_force_migration h2 = hmp_force_migration h1" "rqs (sched h2) = rqs (sched h1)" "stopper_works h2 = stopper_works h1"
  shows "balanced m h (rq_unlock c h2)"
proof -
  have v: "balance_view h1 = balance_view h0" using rq_lock_SomeD [OF assms(2)] by (simp add: balance_view_eq)
  have "valid_request m (rq_unlock c h2) x = valid_request m h0 x" for x
    using assms(3,6,7) v rq_lock_SomeD(4,8) [OF assms(2)] by (simp add: valid_request_def balance_view_eq)
  moreover have "lock_depth (rq_locks (rq_unlock c h2) x) = lock_depth (rq_locks h x)" for x
    using rq_lock_SomeD(1-3) [OF assms(2)] assms(1,4) by (cases "x = c") (simp_all add: balanced_def)
  moreover have "balance_view (rq_unlock c h2) = balance_view h" using assms(1,3) v by (simp add: balanced_def)
  ultimately show ?thesis using assms rq_lock_SomeD(4,5) [OF assms(2)] by (auto simp: balanced_def)
qed


lemma each_cpu_total:
  assumes "\<And>c h. P h \<Longrightarrow> \<exists>h'. f c h = Some h' \<and> P h'" "P h"
  shows "\<exists>h'. each_cpu f cpus h = Some h' \<and> P h'"
  using assms(2)
proof (induction cpus arbitrary: h)
  case (Cons c cpus)
  from assms(1) [OF Cons.prems, of c] obtain h1 where "f c h = Some h1" "P h1" by blast
  with Cons.IH [of h1] show ?case by simp
qed simp

lemma up_candidate_total:
  assumes "tasks_running h"
  shows "\<exists>cand h'. up_candidate c h = Some (cand, h')"
proof (cases "cfs_curr (root_cfs (sched h) c)")
  case None
  then show ?thesis by (simp add: up_candidate_def)
next
  case (Some e)
  then obtain se where "find_running_task (sched h) e = Some se" using assms by (auto simp: tasks_running_def)
  with Some show ?thesis by (simp add: up_candidate_def Let_def case_prod_beta)
qed

lemma idle_pull_cpu_balanced:
  assumes "balanced (hmp_fast_cpu_mask h) h h0" "tasks_running h" "\<And>c. lock_depth (rq_locks h c) = 0"
  shows "\<exists>r h'. idle_pull_cpu c (force, h0) = Some (r, h') \<and> balanced (hmp_fast_cpu_mask h) h h'"
proof (cases "cpu_online_mask h0 c")
  case True
  have v0: "balance_view h0 = balance_view h" and d0: "lock_depth (rq_locks h0 c) = 0"
    using assms(1,3) by (simp_all add: balanced_def)
  obtain h1 where h1: "rq_lock c h0 = Some h1" using rq_lock_free [OF d0] by blast
  have v1: "balance_view h1 = balance_view h0" using rq_lock_SomeD [OF h1] by (simp add: balance_view_eq)
  obtain cand h2 where h2: "up_candidate c h1 = Some (cand, h2)"
    using up_candidate_total [of h1 c] assms(2) tasks_running_view [of h1 h] v0 v1 by auto
  note f = up_candidate_frame [OF h2]
  have v2: "balance_view h2 = balance_view h1" using f by (simp add: balance_view_eq)
  have skip: "balanced (hmp_fast_cpu_mask h) h (rq_unlock c h2)"
    using unlock_balanced [OF assms(1) h1 v2] f by simp
  show ?thesis
  proof (cases cand)
    case None
    then show ?thesis using True h1 h2 skip by (auto simp: idle_pull_cpu_def)
  next
    case (Some a)
    obtain p t where a: "a = (p, t)" by (cases a)
    note u = up_candidate_valid [OF h2 [unfolded Some a]]
    show ?thesis
    proof (cases "p_state (tasks (sched h2) p) = TASK_DEAD")
      case dead: True
      then show ?thesis using True h1 h2 Some a skip by (auto simp: idle_pull_cpu_def)
    next
      case alive: False
      let ?h3 = "hmp_next_up_delay p t (request_migration c t p h2)"
      have "\<exists>h'. dispatch_migration c (rq_unlock c ?h3) = Some (True, h') \<and> balanced (hmp_fast_cpu_mask h) h h'"
        using u f v0 v1 v2 alive
        by (intro dispatch_balanced [OF assms(1) h1, where t = t and p = p])
          (auto simp: balance_view_eq request_migration_def hmp_next_up_delay_def Let_def upd_rq_avg_def upd_avg_def request_of_def)
      then show ?thesis using True h1 h2 Some a alive by (auto simp: idle_pull_cpu_def Let_def)
    qed
  qed
next
  case False
  then show ?thesis using assms(1) by (simp add: idle_pull_cpu_def)
qed


lemma hmp_down_migration_view:
  "hmp_down_migration b l se env h = (down, env', h') \<Longrightarrow> balance_view h' = balance_view h"
  by (auto simp: hmp_down_migration_def balance_view_eq upd_cfs_avg_def Let_def split: if_splits)

lemma force_down_cpu_balanced:
  assumes "balanced (hmp_slow_cpu_mask h) h h0" "tasks_running h" "\<And>c. lock_depth (rq_locks h c) = 0"
  shows "\<exists>h'. force_down_cpu c h0 = Some h' \<and> balanced (hmp_slow_cpu_mask h) h h'"
proof (cases "cpu_online_mask h0 c")
  case True
  have v0: "balance_view h0 = balance_view h" and d0: "lock_depth (rq_locks h0 c) = 0"
    using assms(1,3) by (simp_all add: balanced_def)
  obtain h1 where h1: "rq_lock c h0 = Some h1" using rq_lock_free [OF d0] by blast
  have v1: "balance_view h1 = balance_view h0" using rq_lock_SomeD [OF h1] by (simp add: balance_view_eq)
  have skip: "balanced (hmp_slow_cpu_mask h) h (rq_unlock c h2)"
    if "balance_view h2 = balance_view h1" "rq_locks h2 = rq_locks h1" "hmp_force_migration h2 = hmp_force_migration h1"
      "rqs (sched h2) = rqs (sched h1)" "stopper_works h2 = stopper_works h1" for h2
    using unlock_balanced [OF assms(1) h1] that by blast
  show ?thesis
  proof (cases "cfs_curr (root_cfs (sched h1) c)")
    case None
    then show ?thesis using True h1 skip [of h1] by (simp add: force_down_cpu_def)
  next
    case (Some e)
    then obtain se where se: "find_running_task (sched h1) e = Some se"
      using assms(2) tasks_running_view [of h1 h] v0 v1 unfolding tasks_running_def by (metis not_None_eq)
    define p where "p = task_of se"
    define t where "t = hmp_select_cpu h1 HMP_GB p (hmp_slow_cpu_mask h1) (- 1)"
    define env where "env = sched_update_clbstats h1 (new_clbenv h1 HMP_GB c t)"
    define dn where "dn = (if rq_active_balance (rqs (sched h1) c) then (False, h1)
        else let (down, env, h) = hmp_down_migration c t se env h1 in (down, h))"
    obtain down h2 where dn: "dn = (down, h2)" by fastforce
    have f2: "balance_view h2 = balance_view h1" "rq_locks h2 = rq_locks h1" "hmp_force_migration h2 = hmp_force_migration h1"
        "rqs (sched h2) = rqs (sched h1)" "stopper_works h2 = stopper_works h1"
      using dn hmp_down_migration_balance [of c t se env h1] hmp_down_migration_frame(4) [of c t se env h1]
        hmp_down_migration_view [of c t se env h1]
      by (auto simp: dn_def split: if_splits prod.splits)
    have step: "force_down_cpu c h0 = (if t = NR_CPUS then Some (rq_unlock c h1)
        else if down \<and> \<not> cpu_park h2 c \<and> p_state (tasks (sched h2) p) \<noteq> TASK_DEAD
        then do { (_, h) \<leftarrow> dispatch_migration c (rq_unlock c (hmp_next_down_delay p t (request_migration c t p h2))); Some h }
        else Some (rq_unlock c h2))"
      using True h1 Some se dn unfolding dn_def env_def t_def p_def
      by (cases "rq_active_balance (rqs (sched h1) c)") (auto simp: force_down_cpu_def Let_def split: prod.splits)
    show ?thesis
    proof (cases "t \<noteq> NR_CPUS \<and> down \<and> \<not> cpu_park h2 c \<and> p_state (tasks (sched h2) p) \<noteq> TASK_DEAD")
      case go: True
      note valid = hmp_select_cpu_valid [of h1 HMP_GB p "hmp_slow_cpu_mask h1" "- 1", folded t_def]
      let ?h3 = "hmp_next_down_delay p t (request_migration c t p h2)"
      have "\<exists>h'. dispatch_migration c (rq_unlock c ?h3) = Some (True, h') \<and> balanced (hmp_slow_cpu_mask h) h h'"
        using valid f2 v0 v1 go
        by (intro dispatch_balanced [OF assms(1) h1, where t = t and p = p])
          (auto simp: balance_view_eq request_migration_def hmp_next_down_delay_def Let_def upd_rq_avg_def upd_avg_def
            request_of_def cpu_park_def)
      then show ?thesis using go by (auto simp: step)
    next
      case False
      then show ?thesis using skip [of h1] skip [OF f2] by (auto simp: step)
    qed
  qed
next
  case False
  then show ?thesis using assms(1) by (simp add: force_down_cpu_def)
qed


lemma balance_sample_ready:
  "arch_spin_value_unlocked (hmp_force_migration balance_sample)" "arch_spin_value_unlocked (rq_locks balance_sample c)"
  "tasks_running balance_sample"
  by (simp_all add: balance_sample_def arch_spin_value_unlocked_def pack_state.defs tasks_running_def find_running_task_def)
    (subst running_task.simps, simp add: root_cfs_def sample_defs hmp_state.defs)

text \<open>C9. \<open>hmp_idle_pull\<close>, called with \<open>hmp_force_migration\<close> and the run queue locks free and every running group
  leading to a running task, returns with all locks as they were.  Every run queue on which it leaves a new
  migration request has a live task to move to an online big CPU the task may run on, and a stopper that has
  been asked to do it.\<close>

theorem hmp_idle_pull_safe:
  fixes h :: balance_state
  assumes "arch_spin_value_unlocked (hmp_force_migration h)" "\<And>c. arch_spin_value_unlocked (rq_locks h c)" "tasks_running h"
  shows "\<exists>force h'. hmp_idle_pull h = Some (force, h') \<and> arch_spin_value_unlocked (hmp_force_migration h') \<and>
    (\<forall>c. arch_spin_value_unlocked (rq_locks h' c)) \<and>
    (\<forall>c. rq_active_balance (rqs (sched h') c) \<and> \<not> rq_active_balance (rqs (sched h) c) \<longrightarrow> valid_request (hmp_fast_cpu_mask h) h' c)"
proof -
  obtain l where l: "arch_spin_trylock (hmp_force_migration h) = (True, l)"
    using assms(1) by (auto simp: arch_spin_trylock_def arch_spin_value_unlocked_def)
  let ?h = "h\<lparr>hmp_force_migration := l\<rparr>" and ?cpus = "for_each_cpu (hmp_slow_cpu_mask h)"
  have run: "tasks_running ?h" using assms(3) by (simp add: tasks_running_def)
  have d: "lock_depth (rq_locks ?h c) = 0" for c using assms(2) by (simp add: lock_depth_free)
  have "\<exists>r. each_cpu idle_pull_cpu ?cpus (False, ?h) = Some r \<and> balanced (hmp_fast_cpu_mask ?h) ?h (snd r)"
    by (rule each_cpu_total) (use idle_pull_cpu_balanced [OF _ run d] in \<open>force\<close>, simp)
  then obtain force h1 where h1: "each_cpu idle_pull_cpu ?cpus (False, ?h) = Some (force, h1)"
    and b: "balanced (hmp_fast_cpu_mask h) ?h h1" by auto
  let ?h' = "unlock_force_migration h1"
  have "hmp_idle_pull h = Some (force, ?h')" using l h1 by (simp add: hmp_idle_pull_def)
  moreover have "arch_spin_value_unlocked (hmp_force_migration ?h')"
    using b ticket.trylock_unlock_free [OF l] by (simp add: balanced_def unlock_force_migration_def)
  moreover have "arch_spin_value_unlocked (rq_locks ?h' c)" for c
    using b d [of c] by (simp add: balanced_def unlock_force_migration_def lock_depth_free)
  moreover have "valid_request (hmp_fast_cpu_mask h) ?h' c"
    if "rq_active_balance (rqs (sched ?h') c)" "\<not> rq_active_balance (rqs (sched h) c)" for c
    using b that by (auto simp: balanced_def unlock_force_migration_def valid_request_def)
  ultimately show ?thesis by blast
qed

theorem hmp_idle_pull_safe_witness:
  "\<exists>force h'. hmp_idle_pull balance_sample = Some (force, h') \<and> arch_spin_value_unlocked (hmp_force_migration h')"
proof -
  from hmp_idle_pull_safe [OF balance_sample_ready] show ?thesis by blast
qed

text \<open>C10. \<open>hmp_force_down_migration\<close> called with the run queue locks free returns with all locks as they were, and every
  new migration request it leaves moves a live task to an online little CPU the task may run on.\<close>

theorem hmp_force_down_safe:
  fixes h :: balance_state
  assumes "\<And>c. arch_spin_value_unlocked (rq_locks h c)" "tasks_running h"
  shows "\<exists>h'. hmp_force_down_migration h = Some h' \<and> hmp_force_migration h' = hmp_force_migration h \<and>
    (\<forall>c. arch_spin_value_unlocked (rq_locks h' c)) \<and>
    (\<forall>c. rq_active_balance (rqs (sched h') c) \<and> \<not> rq_active_balance (rqs (sched h) c) \<longrightarrow> valid_request (hmp_slow_cpu_mask h) h' c)"
proof -
  have d: "lock_depth (rq_locks h c) = 0" for c using assms(1) by (simp add: lock_depth_free)
  have "\<exists>h'. each_cpu force_down_cpu (for_each_cpu (hmp_fast_cpu_mask h)) h = Some h' \<and> balanced (hmp_slow_cpu_mask h) h h'"
    by (rule each_cpu_total) (use force_down_cpu_balanced [OF _ assms(2) d] in blast, simp)
  then show ?thesis using d by (auto simp: hmp_force_down_migration_def balanced_def lock_depth_free)
qed

theorem hmp_force_down_safe_witness:
  "\<exists>h'. hmp_force_down_migration balance_sample = Some h' \<and> hmp_force_migration h' = hmp_force_migration balance_sample"
proof -
  from hmp_force_down_safe [OF balance_sample_ready(2,3)] show ?thesis by blast
qed

end
