(* ===== verification/Spec2Isabelle.thy ===== *)
theory Spec2Isabelle
  imports CFS_Class_Run HMP_Migration
begin

text \<open>
  Verification of the fair scheduler and the big.LITTLE (HMP) scheduler of this kernel tree
  (\<open>src/3.10\<close>, Linux 3.10 for arm64 with the HMP enhancement).

  \<^bold>\<open>The program.\<close>  Every CPU has a run queue (\<open>struct rq\<close>) with a root CFS queue (\<open>struct cfs_rq\<close>).  Entities
  (\<open>struct sched_entity\<close>) are tasks or groups; a group entity owns a queue of its own, so the queues of
  a CPU form a tree.  A queue keeps its waiting entities in a red-black tree ordered by virtual
  runtime.  The core scheduler calls the methods of \<open>fair_sched_class\<close>, which walk the tree of queues and
  call the entity methods at every level.  Next to the virtual time runs per-entity load tracking, a
  decaying average of the time an entity was runnable.  The HMP scheduler reads these averages: it
  groups the CPUs into a fast and a slow domain, chooses a CPU for a waking task, and migrates running
  tasks up and down between the clusters through a stopper thread per CPU.

  \<^bold>\<open>Conventions.\<close>  A C integer is a word of its width, so additions wrap; LP64, so \<open>unsigned long\<close> has 64
  bits.  A pointer to an object is its number, and the state is a record of functions from numbers to
  structures, so aliasing is that of the code.  A \<open>NULL\<close> pointer is \<^const>\<open>None\<close>.  A function
  that may dereference \<open>NULL\<close>, spin forever or not end returns an option, and \<^const>\<open>None\<close> is that
  failure; theorems about such functions state that the result is \<^const>\<open>Some\<close>.  Preprocessor conditions are
  those of \<open>src/backup/config\<close>: \<open>SMP\<close>, \<open>FAIR_GROUP_SCHED\<close>, \<open>NO_HZ\<close>, \<open>SCHEDSTATS\<close> and the HMP options on;
  \<open>CFS_BANDWIDTH\<close>, \<open>SCHED_HRTICK\<close>, \<open>SCHED_DEBUG\<close> and \<open>HMP_FREQUENCY_INVARIANT_SCALE\<close> off.  The frequency scale
  is an optional argument of the load tracking all the same.

  \<^bold>\<open>Theories.\<close>
  \<^item> \<open>Sched_Prelude\<close>: the word types, shared lemmas on words, options and monadic binds.
  \<^item> \<open>Load_Weight\<close>: \<open>struct load_weight\<close>, the nice tables and \<open>calc_delta_mine\<close> (\<open>kernel/sched/sched.h\<close>,
    \<open>fair.c\<close>).  Error bounds of the fixed-point division and coherence of the cached inverse.
  \<^item> \<open>Kernel_Rbtree\<close>: \<open>lib/rbtree.c\<close> with zippers for parent pointers.  Insertion and erasure keep the
    red-black properties and change the in-order sequence by exactly one node; the walks follow it.
  \<^item> \<open>Pelt\<close>: \<open>decay_load\<close>, \<open>__compute_runnable_contrib\<close>, \<open>__update_entity_runnable_avg\<close>.  Exact values on
    naturals, the invariant of the accumulators, the recurrence of the series.
  \<^item> \<open>Vruntime\<close>: the signed 64-bit comparison of virtual runtimes, an order inside a window of half the range.
  \<^item> \<open>Sched_State\<close>: the structures, \<open>for_each_sched_entity\<close> and \<open>find_matching_se\<close>.
  \<^item> \<open>CFS_Timeline\<close>: \<open>__enqueue_entity\<close>, \<open>__dequeue_entity\<close> and \<open>update_min_vruntime\<close>.  The locale \<open>timeline\<close> is
    the interface of an ordered queue with a cached first element; the red-black tree with \<open>rb_leftmost\<close>
    interprets it, which makes the timeline a refinement of a sorted list.
  \<^item> \<open>Pelt_Entity\<close>: load tracking on entities, queues and groups (\<open>fair.c\<close> from \<open>__update_cfs_rq_tg_load_contrib\<close>
    to \<open>dequeue_entity_load_avg\<close>).  The totals of a queue are the sums over the accounted entities.
  \<^item> \<open>CFS_Entity\<close> and \<open>CFS_Invariant\<close>: \<open>update_curr\<close>, \<open>enqueue_entity\<close>, \<open>dequeue_entity\<close>, \<open>pick_next_entity\<close>,
    \<open>set_next_entity\<close>, \<open>put_prev_entity\<close>, \<open>entity_tick\<close>.  \<open>sched_ok\<close> is the invariant of the single queues;
    \<open>cfs_run\<close> is the step relation of entity calls, and every run keeps the invariant without a fault.
  \<^item> \<open>CFS_Class\<close>: the methods of \<open>fair_sched_class\<close> and, from \<open>core.c\<close>, \<open>activate_task\<close>, \<open>deactivate_task\<close>,
    \<open>set_task_cpu\<close> and \<open>check_preempt_curr\<close>; task groups and their shares; \<open>move_task\<close> of the load balancer.
  \<^item> \<open>CFS_Hierarchy\<close>, \<open>CFS_Task_Queue\<close>, \<open>CFS_Task_Pick\<close>, \<open>CFS_Lifecycle\<close>: the invariant \<open>hierarchy_ok\<close> of the tree
    of queues and one lemma per method that the method returns and keeps it.
  \<^item> \<open>CFS_Class_Run\<close>: the step relation \<open>class_run\<close> of calls of the core scheduler; every run keeps the
    hierarchy consistent and no call faults.
  \<^item> \<open>HMP_Domain\<close>: CPU masks, \<open>arch/arm64/kernel/topology.c\<close>, set-up and hotplug of the HMP domains,
    \<open>hmp_domain_min_load\<close>.  The locale \<open>cpu_chooser\<close> is the contract of a function that picks a CPU of a
    mask; \<open>cpumask_first\<close>, the least loaded CPU and \<open>hmp_select_cpu\<close> interpret it.
  \<^item> \<open>HMP_Select\<close>: cluster statistics, the dynamic thresholds, the up and down migration checks and
    \<open>hmp_select_task_rq_fair\<close>.
  \<^item> \<open>HMP_Packing\<close>: the pack buddy of a CPU and the tests for packing small tasks.
  \<^item> \<open>Spinlock\<close>: the arm64 ticket lock, interpreting the locale \<open>mutual_exclusion\<close>.
  \<^item> \<open>HMP_Migration\<close>: \<open>hmp_force_up_migration\<close>, \<open>hmp_force_down_migration\<close> and \<open>hmp_idle_pull\<close> with their
    locks and the queueing of the stopper's work.

  \<^bold>\<open>Interaction.\<close>  \<open>CFS_Class\<close> runs on the state of \<open>CFS_Entity\<close>, which runs on \<open>CFS_Timeline\<close> and \<open>Pelt_Entity\<close>.
  The HMP theories extend the same state record by the domains, the pack buddies and the locks, read
  the load averages and write the pending counters and the migration requests.

  \<^bold>\<open>Bounds.\<close>  There is no fuel.  The walk up the hierarchy is the list \<open>for_each_sched_entity\<close> returns, which
  exists under the invariant; \<open>pick_levels\<close> is a partial function and is shown to end because every
  level is one step farther from the root and the depth is bounded (\<open>links_ok\<close>).  \<open>contrib_loop\<close> ends by
  its counter.  Virtual runtimes are compared in a window of \<open>2^63\<close> (\<open>in_window\<close>), as the code assumes.
  A queue has fewer than \<open>2^32\<close> entities, the range of \<open>nr_running\<close>.

  \<^bold>\<open>Not modelled.\<close>
  \<^item> Concurrency: methods run under the lock of their run queue, and each theory models the sequence of
    one CPU's calls.  Locks are explicit in \<open>HMP_Migration\<close> only, where the code releases them on
    different paths; a contended lock is a call that does not return.
  \<^item> The stopper callbacks that carry out a migration request, and the sysfs and cpufreq interfaces of
    the HMP scheduler: their work is done by code outside the scheduler (stop machine threads, kobjects,
    cpufreq notifiers).
  \<^item> The generic load balancer (\<open>load_balance\<close>, scheduling domains and groups) apart from \<open>move_task\<close>, and the
    generic part of \<open>select_task_rq_fair\<close>: they walk domain trees that are built elsewhere.
  \<^item> \<open>hmp_select_task_rq_fair\<close> and the migration checks of the original HMP scheduler, which the enhanced
    one replaces in this configuration.
  \<^item> Other scheduling classes: their \<open>check_preempt_curr\<close> is an argument of the model.
  \<^item> Statistics hooks, trace points and perf events, and code the configuration leaves out.
\<close>

end
